(* ===== verification/Prelude.thy ===== *)
theory Prelude
  imports Main "HOL-Library.Word" "HOL-Library.Multiset" "HOL-Library.AList"
begin

text \<open>
  Shared vocabulary of the development: the machine integers and clock values the Rust code uses,
  the atomic identifier counter, the standard-library vector and map operations that several
  components call, the collections of rewrite rules, and the generic lemmas about them.
\<close>

section \<open>Collections of rewrite rules\<close>

named_theorems handle_simps "rewrite rules for result handles and command futures"
named_theorems cmd_simps "rewrite rules for the command handlers"
named_theorems loop_simps "rewrite rules for the event loop"
named_theorems quota_simps "rewrite rules for the data-channel quota"

section \<open>Machine integers and time\<close>

type_synonym u64 = "64 word"
type_synonym u32 = "32 word"
type_synonym usize = "64 word"

text \<open>
  A \<open>Duration\<close> is a number of nanoseconds and an \<open>Instant\<close> a reading of the monotonic clock in
  nanoseconds. \<open>Instant::duration_since\<close> saturates at zero, as subtraction on \<open>nat\<close> does.
\<close>

type_synonym duration = nat
type_synonym instant = nat

definition duration_from_secs :: "nat \<Rightarrow> duration" where
  "duration_from_secs s = s * 1000000000"

definition duration_since :: "instant \<Rightarrow> instant \<Rightarrow> duration" where
  "duration_since now earlier = now - earlier"

text \<open>\<open>Duration::as_millis\<close> followed by the truncating cast \<open>as u64\<close>.\<close>

definition as_millis_u64 :: "duration \<Rightarrow> u64" where
  "as_millis_u64 d = word_of_nat (d div 1000000)"

lemma unat_as_millis_u64:
  "d div 1000000 < 2 ^ 64 \<Longrightarrow> unat (as_millis_u64 d) = d div 1000000"
  by (simp add: as_millis_u64_def unat_of_nat take_bit_nat_eq_self)

section \<open>Atomic identifier counters\<close>

text \<open>\<open>AtomicU64::fetch_add(1, Relaxed)\<close>: the old value and the incremented cell.\<close>

definition fetch_add_one :: "u64 \<Rightarrow> u64 \<times> u64" where
  "fetch_add_one c = (c, c + 1)"

text \<open>The identifiers that \<open>n\<close> successive calls hand out, and the final cell.\<close>

fun draw_ids :: "nat \<Rightarrow> u64 \<Rightarrow> u64 list \<times> u64" where
  "draw_ids 0 c = ([], c)"
| "draw_ids (Suc n) c =
     (let (i, c') = fetch_add_one c; (is, c'') = draw_ids n c' in (i # is, c''))"

lemma draw_ids_eq:
  "draw_ids n c = (map (\<lambda>k. c + word_of_nat k) [0..<n], c + word_of_nat n)"
proof (induction n arbitrary: c)
  case 0
  then show ?case by simp
next
  case (Suc n)
  have "map (\<lambda>k. c + 1 + word_of_nat k) [0..<n] = map (\<lambda>k. c + word_of_nat k) [1..<Suc n]"
    by (simp add: map_Suc_upt [symmetric] comp_def add.assoc del: upt_Suc)
  then show ?case
    using Suc.IH [of "c + 1"]
    by (simp add: fetch_add_one_def upt_conv_Cons add.assoc del: upt_Suc)
qed

lemma word_of_nat_inj_below:
  assumes "a < 2 ^ 64" and "b < 2 ^ 64"
  shows "(word_of_nat a :: u64) = word_of_nat b \<longleftrightarrow> a = b"
proof -
  have "unat (word_of_nat a :: u64) = a" "unat (word_of_nat b :: u64) = b"
    using assms by (simp_all add: unat_of_nat take_bit_nat_eq_self)
  then show ?thesis by metis
qed

lemma distinct_draw_ids:
  assumes "n \<le> 2 ^ 64"
  shows "distinct (fst (draw_ids n c))"
  using assms
  by (auto simp: draw_ids_eq distinct_map inj_on_def word_of_nat_inj_below)

end
