(* ===== verification/Net_Types.thy ===== *)
theory Net_Types
  imports Prelude "HOL-Library.List_Lexorder"
begin

text \<open>
  The vocabulary of the networking library the code is written against: identifiers, multiaddresses,
  the event enums its handlers match on, and the swarm. The library itself is not part of the
  repository. Its opaque identifiers are tokens with equality; an error value is what the program can
  observe of it, its \<open>Display\<close> and \<open>Debug\<close> renderings. The swarm is the sequence of calls the program
  has made to it and of events it has delivered; every answer of the library is a function of that
  history, a field of the parameter record \<open>net_env\<close>. Nothing is assumed about these functions here,
  so a theorem about the model holds for every behaviour of the library; a theorem that needs a
  documented behaviour states it as a hypothesis.
\<close>

section \<open>Identifiers, addresses, records\<close>

datatype peer_id = PeerId nat
datatype query_id = QueryId nat
datatype outbound_request_id = OutboundRequestId nat
datatype response_channel = ResponseChannel nat
datatype stream = Stream nat

type_synonym stream_protocol = string
type_synonym record_key = "8 word list"

datatype multiaddr_protocol =
    Ip4 "32 word"
  | Ip6 "128 word"
  | Tcp "16 word"
  | Udp "16 word"
  | QuicV1
  | P2p peer_id
  | P2pCircuit
  | OtherProtocol string

type_synonym multiaddr = "multiaddr_protocol list"

text \<open>\<open>Multiaddr::with\<close> appends one component.\<close>

definition addr_with :: "multiaddr \<Rightarrow> multiaddr_protocol \<Rightarrow> multiaddr" where
  "addr_with a p = a @ [p]"

record lib_error =
  to_string :: string
  debug_string :: string

record kad_record =
  record_key :: record_key
  record_value :: "8 word list"
  record_publisher :: "peer_id option"
  record_expires :: "instant option"

section \<open>Events\<close>

datatype outbound_failure =
    OutboundDialFailure
  | OutboundTimeout
  | OutboundConnectionClosed
  | OutboundUnsupportedProtocols
  | OutboundIo lib_error

datatype ('req, 'resp) message =
    Request 'req response_channel
  | Response outbound_request_id 'resp

datatype ('req, 'resp) req_resp_event =
    Message peer_id "('req, 'resp) message"
  | OutboundFailure peer_id outbound_request_id outbound_failure
  | InboundFailure peer_id lib_error
  | ResponseSent peer_id

record bootstrap_ok =
  ok_peer :: peer_id
  ok_num_remaining :: u32

datatype get_record_ok =
    FoundRecord kad_record
  | FinishedWithNoAdditionalRecord

datatype get_providers_ok =
    FoundProviders "peer_id list"
  | FinishedProviders "peer_id list"

text \<open>A peer of a closest-peers answer: the \<open>PeerInfo\<close> with its id and its addresses.\<close>

type_synonym peer_info = "peer_id \<times> multiaddr list"

datatype query_result =
    QBootstrap "lib_error + bootstrap_ok"
  | QGetClosestPeers "lib_error + peer_info list"
  | QGetProviders "lib_error + get_providers_ok"
  | QStartProviding "lib_error + record_key"
  | QRepublishProvider "lib_error + record_key"
  | QGetRecord "lib_error + get_record_ok"
  | QPutRecord "lib_error + record_key"
  | QRepublishRecord "lib_error + record_key"

datatype 'stats kad_event =
    OutboundQueryProgressed query_id query_result 'stats bool
  | RoutingUpdated peer_id "multiaddr list"
  | OtherKadEvent

record identify_info =
  info_protocol_version :: string
  info_agent_version :: string
  info_listen_addrs :: "multiaddr list"
  info_protocols :: "string list"

datatype identify_event =
    IdentifyReceivedEvent peer_id identify_info
  | OtherIdentifyEvent

datatype mdns_event =
    Discovered "(peer_id \<times> multiaddr) list"
  | Expired "(peer_id \<times> multiaddr) list"

datatype relay_client_event =
    ReservationReqAcceptedBy peer_id bool
  | OutboundCircuitEstablished peer_id
  | InboundCircuitEstablished peer_id

datatype relay_event =
    ReservationReqAccepted peer_id bool
  | ReservationReqDenied peer_id string
  | ReservationClosed peer_id
  | ReservationTimedOut peer_id
  | CircuitReqAccepted peer_id peer_id
  | CircuitReqDenied peer_id peer_id string
  | CircuitClosed peer_id peer_id
  | ReservationReqAcceptFailed
  | ReservationReqDenyFailed
  | CircuitReqDenyFailed
  | CircuitReqOutboundConnectFailed
  | CircuitReqAcceptFailed

datatype ('req, 'resp, 'stats) core_behaviour_event =
    PingEvent peer_id "lib_error + duration"
  | IdentifyEvent identify_event
  | KadEvent "'stats kad_event"
  | ReqRespEvent "('req, 'resp) req_resp_event"
  | MdnsEvent mdns_event
  | RelayClientEvent relay_client_event
  | RelayServerEvent relay_event
  | AutonatEvent multiaddr peer_id "lib_error + unit"
  | DcutrEvent peer_id "lib_error + unit"

datatype ('req, 'resp, 'stats) swarm_event =
    Behaviour "('req, 'resp, 'stats) core_behaviour_event"
  | NewListenAddr multiaddr
  | ConnectionEstablished peer_id nat
  | ConnectionClosed peer_id nat
  | OutgoingConnectionError "peer_id option" lib_error
  | ListenerClosed
  | ListenerError
  | IncomingConnectionError
  | OtherSwarmEvent

section \<open>The swarm as a history of calls\<close>

datatype quorum = QuorumOne | QuorumMajority | QuorumAll | QuorumN nat

datatype ('req, 'resp, 'stats) swarm_call =
    Polled "('req, 'resp, 'stats) swarm_event"
  | CallDial peer_id
  | CallDisconnectPeerId peer_id
  | CallAddPeerAddress peer_id multiaddr
  | CallAddExternalAddress multiaddr
  | CallListenOn multiaddr
  | CallKadAddAddress peer_id multiaddr
  | CallKadBootstrap
  | CallKadPutRecord kad_record quorum
  | CallKadGetRecord record_key
  | CallKadGetProviders record_key
  | CallKadGetClosestPeers record_key
  | CallKadStartProviding record_key
  | CallKadStopProviding record_key
  | CallKadRemoveRecord record_key
  | CallSendRequest peer_id 'req
  | CallSendResponse response_channel 'resp

type_synonym ('req, 'resp, 'stats) swarm = "('req, 'resp, 'stats) swarm_call list"

text \<open>The answers of the library, as functions of the history.\<close>

record ('req, 'resp, 'stats) net_env =
  is_connected :: "('req, 'resp, 'stats) swarm \<Rightarrow> peer_id \<Rightarrow> bool"
  dial_result :: "('req, 'resp, 'stats) swarm \<Rightarrow> peer_id \<Rightarrow> lib_error option"
  disconnect_ok :: "('req, 'resp, 'stats) swarm \<Rightarrow> peer_id \<Rightarrow> bool"
  listen_result :: "('req, 'resp, 'stats) swarm \<Rightarrow> multiaddr \<Rightarrow> lib_error option"
  listeners :: "('req, 'resp, 'stats) swarm \<Rightarrow> multiaddr list"
  external_addresses :: "('req, 'resp, 'stats) swarm \<Rightarrow> multiaddr list"
  addr_bytes :: "multiaddr \<Rightarrow> nat list"
  relay_client_enabled :: bool
  relay_server_enabled :: bool
  bootstrap_result :: "('req, 'resp, 'stats) swarm \<Rightarrow> lib_error + query_id"
  put_record_result :: "('req, 'resp, 'stats) swarm \<Rightarrow> kad_record \<Rightarrow> quorum \<Rightarrow> lib_error + query_id"
  start_providing_result :: "('req, 'resp, 'stats) swarm \<Rightarrow> record_key \<Rightarrow> lib_error + query_id"
  get_record_query :: "('req, 'resp, 'stats) swarm \<Rightarrow> record_key \<Rightarrow> query_id"
  get_providers_query :: "('req, 'resp, 'stats) swarm \<Rightarrow> record_key \<Rightarrow> query_id"
  get_closest_peers_query :: "('req, 'resp, 'stats) swarm \<Rightarrow> record_key \<Rightarrow> query_id"
  send_request_query :: "('req, 'resp, 'stats) swarm \<Rightarrow> peer_id \<Rightarrow> 'req \<Rightarrow> outbound_request_id"
  send_response_ok :: "('req, 'resp, 'stats) swarm \<Rightarrow> response_channel \<Rightarrow> 'resp \<Rightarrow> bool"
  stats_merge :: "'stats \<Rightarrow> 'stats \<Rightarrow> 'stats"
  stats_duration :: "'stats \<Rightarrow> duration option"
  stats_num_requests :: "'stats \<Rightarrow> u32"
  stats_num_successes :: "'stats \<Rightarrow> u32"
  stats_num_failures :: "'stats \<Rightarrow> u32"
  peer_display :: "peer_id \<Rightarrow> string"
  hashset_order :: "peer_id list \<Rightarrow> peer_id list"

text \<open>
  The iteration order of a \<open>HashSet\<close> collected from a list is unspecified; what the standard library
  documents is that every element comes out once.
\<close>

definition hashset_iter :: "(peer_id list \<Rightarrow> peer_id list) \<Rightarrow> bool" where
  "hashset_iter f \<longleftrightarrow> (\<forall>xs. distinct (f xs) \<and> set (f xs) = set xs)"

lemma hashset_iter_remdups [simp]: "hashset_iter remdups"
  by (simp add: hashset_iter_def)

text \<open>Calls that return nothing are the history with the call appended.\<close>

definition swarm_dial ::
  "('req, 'resp, 'stats) net_env \<Rightarrow> peer_id \<Rightarrow> ('req, 'resp, 'stats) swarm \<Rightarrow>
   lib_error option \<times> ('req, 'resp, 'stats) swarm" where
  "swarm_dial env p sw = (dial_result env sw p, sw @ [CallDial p])"

definition swarm_listen_on ::
  "('req, 'resp, 'stats) net_env \<Rightarrow> multiaddr \<Rightarrow> ('req, 'resp, 'stats) swarm \<Rightarrow>
   lib_error option \<times> ('req, 'resp, 'stats) swarm" where
  "swarm_listen_on env a sw = (listen_result env sw a, sw @ [CallListenOn a])"

definition swarm_disconnect ::
  "('req, 'resp, 'stats) net_env \<Rightarrow> peer_id \<Rightarrow> ('req, 'resp, 'stats) swarm \<Rightarrow>
   bool \<times> ('req, 'resp, 'stats) swarm" where
  "swarm_disconnect env p sw = (disconnect_ok env sw p, sw @ [CallDisconnectPeerId p])"

definition swarm_add_peer_address ::
  "peer_id \<Rightarrow> multiaddr \<Rightarrow> ('req, 'resp, 'stats) swarm \<Rightarrow> ('req, 'resp, 'stats) swarm" where
  "swarm_add_peer_address p a sw = sw @ [CallAddPeerAddress p a]"

definition swarm_kad_add_address ::
  "peer_id \<Rightarrow> multiaddr \<Rightarrow> ('req, 'resp, 'stats) swarm \<Rightarrow> ('req, 'resp, 'stats) swarm" where
  "swarm_kad_add_address p a sw = sw @ [CallKadAddAddress p a]"

definition swarm_add_external_address ::
  "multiaddr \<Rightarrow> ('req, 'resp, 'stats) swarm \<Rightarrow> ('req, 'resp, 'stats) swarm" where
  "swarm_add_external_address a sw = sw @ [CallAddExternalAddress a]"

lemmas swarm_call_defs = swarm_dial_def swarm_listen_on_def swarm_disconnect_def
  swarm_add_peer_address_def swarm_kad_add_address_def swarm_add_external_address_def

declare swarm_call_defs [cmd_simps, loop_simps]

text \<open>A loop that makes one call per element appends the calls in order.\<close>

lemma fold_append_call: "fold (\<lambda>x sw. sw @ [f x]) xs sw = sw @ map f xs"
  by (induction xs arbitrary: sw) simp_all

lemma fold_append_calls: "fold (\<lambda>x sw. sw @ f x) xs sw = sw @ concat (map f xs)"
  by (induction xs arbitrary: sw) simp_all

section \<open>A concrete library\<close>

text \<open>
  One library that answers from the history, for the concrete instances of the theorems: a peer is
  connected between its connection events, dials and listens succeed, identifiers are the position
  in the history, statistics are numbers that add up, and addresses are ordered by an injective code.
\<close>

definition code_string :: "string \<Rightarrow> nat" where
  "code_string s = foldr (\<lambda>c n. Suc (of_char c + 256 * n)) s 0"

fun code_protocol :: "multiaddr_protocol \<Rightarrow> nat" where
  "code_protocol (Ip4 w) = 8 * unat w"
| "code_protocol (Ip6 w) = 8 * unat w + 1"
| "code_protocol (Tcp w) = 8 * unat w + 2"
| "code_protocol (Udp w) = 8 * unat w + 3"
| "code_protocol QuicV1 = 4"
| "code_protocol (P2p (PeerId n)) = 8 * n + 5"
| "code_protocol P2pCircuit = 6"
| "code_protocol (OtherProtocol s) = 8 * code_string s + 7"

fun sample_connection :: "peer_id \<Rightarrow> ('req, 'resp, 'stats) swarm_call \<Rightarrow> bool \<Rightarrow> bool" where
  "sample_connection p (Polled (ConnectionEstablished q n)) b = (b \<or> q = p)"
| "sample_connection p (Polled (ConnectionClosed q n)) b = (b \<and> \<not> (q = p \<and> n = 0))"
| "sample_connection p _ b = b"

definition sample_env :: "('req, 'resp, nat) net_env" where
  "sample_env =
     \<lparr>is_connected = (\<lambda>sw p. fold (sample_connection p) sw False),
      dial_result = (\<lambda>sw p. None),
      disconnect_ok = (\<lambda>sw p. fold (sample_connection p) sw False),
      listen_result = (\<lambda>sw a. None),
      listeners = (\<lambda>sw. List.map_filter (\<lambda>c. case c of Polled (NewListenAddr a) \<Rightarrow> Some a | _ \<Rightarrow> None) sw),
      external_addresses = (\<lambda>sw. List.map_filter (\<lambda>c. case c of CallAddExternalAddress a \<Rightarrow> Some a | _ \<Rightarrow> None) sw),
      addr_bytes = map code_protocol,
      relay_client_enabled = True,
      relay_server_enabled = False,
      bootstrap_result = (\<lambda>sw. Inr (QueryId (length sw))),
      put_record_result = (\<lambda>sw r q. Inr (QueryId (length sw))),
      start_providing_result = (\<lambda>sw k. Inr (QueryId (length sw))),
      get_record_query = (\<lambda>sw k. QueryId (length sw)),
      get_providers_query = (\<lambda>sw k. QueryId (length sw)),
      get_closest_peers_query = (\<lambda>sw k. QueryId (length sw)),
      send_request_query = (\<lambda>sw p r. OutboundRequestId (length sw)),
      send_response_ok = (\<lambda>sw c r. True),
      stats_merge = (+),
      stats_duration = Some,
      stats_num_requests = word_of_nat,
      stats_num_successes = word_of_nat,
      stats_num_failures = (\<lambda>s. 0),
      peer_display = (\<lambda>p. ''peer''),
      hashset_order = remdups\<rparr>"

lemma inj_code_string: "code_string s = code_string t \<Longrightarrow> s = t"
proof (induction s arbitrary: t)
  case Nil
  then show ?case by (cases t) (simp_all add: code_string_def)
next
  case (Cons c s)
  then obtain d u where t: "t = d # u" by (cases t) (simp_all add: code_string_def)
  have e: "of_char c + 256 * code_string s = of_char d + 256 * code_string u"
    using Cons.prems t by (simp add: code_string_def)
  have lt: "(of_char c :: nat) < 256" "(of_char d :: nat) < 256" by simp_all
  then have "(of_char c :: nat) = of_char d" and "code_string s = code_string u"
    using arg_cong [OF e, of "\<lambda>n. n mod 256"] arg_cong [OF e, of "\<lambda>n. n div 256"] by simp_all
  with Cons.IH t show ?case by simp
qed

lemma inj_code_protocol:
  assumes "code_protocol p = code_protocol q"
  shows "p = q"
  using assms
  apply (cases p rule: code_protocol.cases; cases q rule: code_protocol.cases)
  apply (auto dest: inj_code_string simp: word_unat_eq_iff)
  apply presburger+
  done

lemma sample_env_simps [simp]:
  "is_connected sample_env sw p = fold (sample_connection p) sw False"
  "dial_result sample_env sw p = None"
  "disconnect_ok sample_env sw p = fold (sample_connection p) sw False"
  "listen_result sample_env sw a = None"
  "listeners sample_env sw =
     List.map_filter (\<lambda>c. case c of Polled (NewListenAddr a) \<Rightarrow> Some a | _ \<Rightarrow> None) sw"
  "external_addresses sample_env sw =
     List.map_filter (\<lambda>c. case c of CallAddExternalAddress a \<Rightarrow> Some a | _ \<Rightarrow> None) sw"
  "addr_bytes sample_env = map code_protocol"
  "relay_client_enabled sample_env" "\<not> relay_server_enabled sample_env"
  "bootstrap_result sample_env sw = Inr (QueryId (length sw))"
  "put_record_result sample_env sw r quo = Inr (QueryId (length sw))"
  "start_providing_result sample_env sw k = Inr (QueryId (length sw))"
  "get_record_query sample_env sw k = QueryId (length sw)"
  "get_providers_query sample_env sw k = QueryId (length sw)"
  "get_closest_peers_query sample_env sw k = QueryId (length sw)"
  "send_request_query sample_env sw p rq = OutboundRequestId (length sw)"
  "send_response_ok sample_env sw c rs"
  "stats_merge sample_env = (+)" "stats_duration sample_env = Some"
  "stats_num_requests sample_env = word_of_nat" "stats_num_successes sample_env = word_of_nat"
  "stats_num_failures sample_env n = 0"
  "peer_display sample_env p = ''peer''" "hashset_order sample_env = remdups"
  by (simp_all add: sample_env_def)

lemma inj_sample_addr_bytes: "inj (addr_bytes (sample_env :: ('req, 'resp, nat) net_env))"
  by (simp add: inj_mapI inj_def inj_code_protocol)

end
