(* ===== verification/Api_Types.thy ===== *)
theory Api_Types
  imports Net_Types
begin

text \<open>
  The public data types of the core crate that several components share: the typed errors of
  \<^verbatim>\<open>core/src/error.rs\<close> and of \<^verbatim>\<open>core/src/data_channel.rs\<close> with their \<open>Display\<close> texts, the node events of
  \<^verbatim>\<open>core/src/event.rs\<close>, the per-call request options of \<^verbatim>\<open>core/src/request.rs\<close> and the query
  statistics of \<^verbatim>\<open>core/src/util.rs\<close>.
\<close>

section \<open>Decimal rendering\<close>

fun show_nat :: "nat \<Rightarrow> string" where
  "show_nat n =
     (if n < 10 then [char_of (48 + n)] else show_nat (n div 10) @ [char_of (48 + n mod 10)])"

declare show_nat.simps [simp del]

section \<open>Errors\<close>

datatype network_failure_kind =
    TimeoutKind
  | DialFailureKind
  | UnsupportedProtocolKind
  | ConnectionClosedKind
  | CancelledKind
  | CodecErrorKind
  | ResourceLimitExceededKind
  | UnknownKind

fun network_failure_display :: "network_failure_kind \<Rightarrow> string" where
  "network_failure_display TimeoutKind = ''timeout''"
| "network_failure_display DialFailureKind = ''dial failure''"
| "network_failure_display UnsupportedProtocolKind = ''unsupported protocol''"
| "network_failure_display ConnectionClosedKind = ''connection closed''"
| "network_failure_display CancelledKind = ''cancelled''"
| "network_failure_display CodecErrorKind = ''codec error''"
| "network_failure_display ResourceLimitExceededKind = ''resource limit exceeded''"
| "network_failure_display UnknownKind = ''unknown''"

datatype data_channel_close_reason =
    Normal
  | ConnectionClosedReason
  | LocalCancelled
  | UnsupportedProtocolReason
  | ResourceLimitExceededReason
  | IoReason string

fun close_reason_display :: "data_channel_close_reason \<Rightarrow> string" where
  "close_reason_display Normal = ''normal end-of-stream''"
| "close_reason_display ConnectionClosedReason = ''underlying connection closed''"
| "close_reason_display LocalCancelled = ''locally cancelled''"
| "close_reason_display UnsupportedProtocolReason = ''unsupported protocol''"
| "close_reason_display ResourceLimitExceededReason = ''resource limit exceeded''"
| "close_reason_display (IoReason detail) = ''io error: '' @ detail"

datatype error =
    AnyhowError lib_error
  | TransportError string
  | NoiseError lib_error
  | IoError lib_error
  | DialError string
  | ListenError string
  | KadError string
  | RequestResponseError string
  | BehaviourError string
  | NetworkError network_failure_kind
  | DataChannelError data_channel_close_reason

fun error_display :: "error \<Rightarrow> string" where
  "error_display (AnyhowError e) = to_string e"
| "error_display (TransportError s) = ''Transport error: '' @ s"
| "error_display (NoiseError e) = ''Noise authentication error: '' @ to_string e"
| "error_display (IoError e) = ''IO error: '' @ to_string e"
| "error_display (DialError s) = ''Dial error: '' @ s"
| "error_display (ListenError s) = ''Listen error: '' @ s"
| "error_display (KadError s) = ''Kad error: '' @ s"
| "error_display (RequestResponseError s) = ''Request-response error: '' @ s"
| "error_display (BehaviourError s) = ''Behaviour error: '' @ s"
| "error_display (NetworkError k) = ''Network failure: '' @ network_failure_display k"
| "error_display (DataChannelError r) = ''Data channel: '' @ close_reason_display r"

text \<open>\<open>crate::Result<T>\<close>: \<open>Inl\<close> is \<open>Err\<close>, \<open>Inr\<close> is \<open>Ok\<close>.\<close>

type_synonym 'a res = "error + 'a"

lemma network_failure_display_inj: "network_failure_display k = network_failure_display k' \<longleftrightarrow> k = k'"
  by (cases k; cases k') simp_all

section \<open>Query statistics\<close>

record query_stats_info =
  duration :: "duration option"
  num_requests :: u32
  num_successes :: u32
  num_failures :: u32

definition stats_info :: "('req, 'resp, 'stats) net_env \<Rightarrow> 'stats \<Rightarrow> query_stats_info" where
  "stats_info env s =
     \<lparr>duration = stats_duration env s, num_requests = stats_num_requests env s,
      num_successes = stats_num_successes env s, num_failures = stats_num_failures env s\<rparr>"

section \<open>Request options\<close>

record request_options =
  opt_timeout :: "duration option"
  opt_correlation :: "string option"

definition request_options_new :: request_options where
  "request_options_new = \<lparr>opt_timeout = None, opt_correlation = None\<rparr>"

definition with_timeout :: "duration \<Rightarrow> request_options \<Rightarrow> request_options" where
  "with_timeout d opts = opts\<lparr>opt_timeout := Some d\<rparr>"

definition with_correlation :: "string \<Rightarrow> request_options \<Rightarrow> request_options" where
  "with_correlation c opts = opts\<lparr>opt_correlation := Some c\<rparr>"

section \<open>Node events\<close>

datatype nat_status = Public | Unknown

datatype 'req node_event =
    Listening multiaddr
  | PeersDiscovered "(peer_id \<times> multiaddr) list"
  | PeerConnected peer_id
  | PeerDisconnected peer_id
  | IdentifyReceived peer_id string string "multiaddr list" "string list"
  | PingSuccess peer_id u64
  | NatStatusChanged nat_status "multiaddr option"
  | HolePunchSucceeded peer_id
  | HolePunchFailed peer_id string
  | RelayReservationAccepted peer_id bool
  | RelayServerReservationAccepted peer_id bool
  | RelayServerReservationDenied peer_id string
  | RelayServerReservationClosed peer_id
  | RelayServerCircuitAccepted peer_id peer_id
  | RelayServerCircuitDenied peer_id peer_id string
  | RelayServerCircuitClosed peer_id peer_id
  | LanHelperStatusChanged bool "multiaddr list"
  | InboundRequest peer_id u64 'req

end
