(* ===== verification/Result_Handle.thy ===== *)
theory Result_Handle
  imports Api_Types
begin

text \<open>
  The completion handle of a command (\<^verbatim>\<open>core/src/command/handler.rs\<close>) and the future that submits a
  command and waits on the handle (\<^verbatim>\<open>core/src/client/future.rs\<close>). The handle is shared between the future
  and the event loop behind a mutex: each of its methods is one atomic step. The bounded command
  channel and the task executor belong to the async runtime, which is not part of the repository: the
  outcome of \<open>try_send\<close> is an argument, and the executor appears as the rules of the step relation below.
\<close>

section \<open>Result handle\<close>

datatype waker = Waker nat

datatype 'a poll = Ready 'a | Pending

record 'a result_state =
  result :: "'a res option"
  waker :: "waker option"
  cancelled :: bool

definition result_state_default :: "'a result_state" where
  "result_state_default = \<lparr>result = None, waker = None, cancelled = False\<rparr>"

text \<open>A handle: the shared state, and the wakers that were woken through it, in order.\<close>

record 'a result_handle =
  state :: "'a result_state"
  woken :: "waker list"

definition handle_new :: "'a result_handle" where
  "handle_new = \<lparr>state = result_state_default, woken = []\<rparr>"

definition handle_poll :: "waker \<Rightarrow> 'a result_handle \<Rightarrow> 'a res poll \<times> 'a result_handle" where
  "handle_poll cx h =
     (case result (state h) of
        Some r \<Rightarrow> (Ready r, h\<lparr>state := (state h)\<lparr>result := None\<rparr>\<rparr>)
      | None \<Rightarrow> (Pending, h\<lparr>state := (state h)\<lparr>waker := Some cx\<rparr>\<rparr>))"

definition handle_finish :: "'a res \<Rightarrow> 'a result_handle \<Rightarrow> 'a result_handle" where
  "handle_finish r h =
     (let st = (state h)\<lparr>result := Some r\<rparr>
      in case waker st of
           Some w \<Rightarrow> h\<lparr>state := st\<lparr>waker := None\<rparr>, woken := woken h @ [w]\<rparr>
         | None \<Rightarrow> h\<lparr>state := st\<rparr>)"

definition handle_cancel :: "'a result_handle \<Rightarrow> 'a result_handle" where
  "handle_cancel h = h\<lparr>state := (state h)\<lparr>cancelled := True\<rparr>\<rparr>"

definition handle_is_cancelled :: "'a result_handle \<Rightarrow> bool" where
  "handle_is_cancelled h = cancelled (state h)"

abbreviation handle_result :: "'a result_handle \<Rightarrow> 'a res option" where
  "handle_result h \<equiv> result (state h)"

lemma handle_new_simps [handle_simps, simp]:
  "handle_result handle_new = None" "waker (state handle_new) = None"
  "cancelled (state handle_new) = False" "woken handle_new = []"
  by (simp_all add: handle_new_def result_state_default_def)

lemma handle_finish_simps [handle_simps, simp]:
  "handle_result (handle_finish r h) = Some r"
  "waker (state (handle_finish r h)) = None"
  "cancelled (state (handle_finish r h)) = cancelled (state h)"
  "woken (handle_finish r h) = woken h @ (case waker (state h) of None \<Rightarrow> [] | Some w \<Rightarrow> [w])"
  by (simp_all add: handle_finish_def Let_def split: option.splits)

lemma handle_cancel_simps [handle_simps, simp]:
  "handle_result (handle_cancel h) = handle_result h"
  "waker (state (handle_cancel h)) = waker (state h)"
  "cancelled (state (handle_cancel h)) = True" "woken (handle_cancel h) = woken h"
  by (simp_all add: handle_cancel_def)

lemma handle_poll_None [handle_simps]:
  "handle_result h = None \<Longrightarrow> handle_poll cx h = (Pending, h\<lparr>state := (state h)\<lparr>waker := Some cx\<rparr>\<rparr>)"
  by (simp add: handle_poll_def)

lemma handle_poll_Some [handle_simps]:
  "handle_result h = Some r \<Longrightarrow> handle_poll cx h = (Ready r, h\<lparr>state := (state h)\<lparr>result := None\<rparr>\<rparr>)"
  by (simp add: handle_poll_def)

section \<open>Command future\<close>

text \<open>The outcome of \<open>mpsc::Sender::try_send\<close>.\<close>

datatype try_send_outcome = SendOk | SendFull | SendClosed

definition is_err :: "try_send_outcome \<Rightarrow> bool" where
  "is_err out \<longleftrightarrow> out \<noteq> SendOk"

record 'h command_future =
  cf_handler :: "'h option"

definition command_future_new :: "'h \<Rightarrow> 'h command_future" where
  "command_future_new cmd = \<lparr>cf_handler = Some cmd\<rparr>"

text \<open>
  The first half of \<open>poll\<close>: submit the command if it has not been submitted. The result is an error to
  return at once, or nothing, with the command that went into the channel.
\<close>

definition cf_submit ::
  "try_send_outcome \<Rightarrow> 'h command_future \<Rightarrow> error option \<times> 'h option \<times> 'h command_future" where
  "cf_submit out fut =
     (case cf_handler fut of
        Some cmd \<Rightarrow>
          (if is_err out then (Some (BehaviourError ''command channel closed''), None, fut\<lparr>cf_handler := None\<rparr>)
           else (None, Some cmd, fut\<lparr>cf_handler := None\<rparr>))
      | None \<Rightarrow> (None, None, fut))"

text \<open>\<open>poll\<close>: submit on the first call, then always poll the handle.\<close>

definition cf_poll ::
  "waker \<Rightarrow> try_send_outcome \<Rightarrow> 'h command_future \<Rightarrow> 'a result_handle \<Rightarrow>
   'a res poll \<times> 'h option \<times> 'h command_future \<times> 'a result_handle" where
  "cf_poll cx out fut h =
     (case cf_submit out fut of
        (Some e, sent, fut') \<Rightarrow> (Ready (Inl e), sent, fut', h)
      | (None, sent, fut') \<Rightarrow> let (p, h') = handle_poll cx h in (p, sent, fut', h'))"

definition cf_drop :: "'a result_handle \<Rightarrow> 'a result_handle" where
  "cf_drop h = handle_cancel h"

section \<open>A future, its task in the event loop, and the executor\<close>

text \<open>
  One command from its creation on. \<open>scheduled\<close> says that the executor is going to poll the future. A poll
  is two steps, so that steps of the event loop can come between its parts: \<open>poll_enter\<close> makes the
  submission, \<open>poll_leave\<close> looks at the handle and returns. Both are the one \<open>cf_poll\<close>, met with the future and the
  channel as they were on entry (\<open>entered\<close>): the submission does not depend on the handle, and the look at the
  handle sees it as it is by then. \<open>latest\<close> is the waker of the last poll that has ended. A task is told to poll
  by its latest waker only: \<open>finish\<close> schedules the future when the handle has called that waker.
  \<open>channel\<close> is the command while it waits in the channel, \<open>task\<close> while the event loop owns it. \<open>finishes\<close> and
  \<open>submitted\<close> record the history.
\<close>

record ('h, 'a) csys =
  future :: "'h command_future"
  handle :: "'a result_handle"
  scheduled :: bool
  polling :: bool
  entered :: "'h command_future \<times> try_send_outcome"
  latest :: "waker option"
  returned :: "'a res option"
  dropped :: bool
  channel :: "'h option"
  task :: "'h option"
  finishes :: "'a res list"
  submitted :: nat

definition csys_init :: "'h \<Rightarrow> ('h, 'a) csys" where
  "csys_init cmd =
     \<lparr>future = command_future_new cmd, handle = handle_new, scheduled = True, polling = False,
      entered = (command_future_new cmd, SendOk), latest = None,
      returned = None, dropped = False, channel = None, task = None, finishes = [], submitted = 0\<rparr>"

text \<open>The wakers that finishing a handle has called.\<close>

definition newly_woken :: "'a result_handle \<Rightarrow> 'a result_handle \<Rightarrow> waker list" where
  "newly_woken h h' = drop (length (woken h)) (woken h')"

inductive cstep :: "('h, 'a) csys \<Rightarrow> ('h, 'a) csys \<Rightarrow> bool" where
  poll_enter: "scheduled s \<Longrightarrow> \<not> polling s \<Longrightarrow> returned s = None \<Longrightarrow> \<not> dropped s \<Longrightarrow>
     cf_poll w out (future s) (handle s) = (p, sent, fut, h) \<Longrightarrow>
     cstep s (s\<lparr>scheduled := False, polling := True, entered := (future s, out), future := fut,
       channel := (case sent of None \<Rightarrow> channel s | Some cmd \<Rightarrow> Some cmd),
       submitted := submitted s + (case sent of None \<Rightarrow> 0 | Some cmd \<Rightarrow> 1)\<rparr>)"
| poll_leave: "polling s \<Longrightarrow> entered s = (fut0, out) \<Longrightarrow>
     cf_poll w out fut0 (handle s) = (p, sent, fut, h) \<Longrightarrow>
     cstep s (s\<lparr>polling := False, handle := h, latest := Some w,
       returned := (case p of Ready r \<Rightarrow> Some r | Pending \<Rightarrow> None)\<rparr>)"
| receive: "channel s = Some cmd \<Longrightarrow> cstep s (s\<lparr>channel := None, task := Some cmd\<rparr>)"
| finish: "task s = Some cmd \<Longrightarrow>
     cstep s (s\<lparr>handle := handle_finish r (handle s), finishes := finishes s @ [r],
       scheduled := (scheduled s \<or>
         latest s \<in> Some ` set (newly_woken (handle s) (handle_finish r (handle s))))\<rparr>)"
| retire: "task s = Some cmd \<Longrightarrow> cstep s (s\<lparr>task := None\<rparr>)"
| wake: "cstep s (s\<lparr>scheduled := True\<rparr>)"
| drop_future: "\<not> polling s \<Longrightarrow> \<not> dropped s \<Longrightarrow> cstep s (s\<lparr>dropped := True, handle := cf_drop (handle s)\<rparr>)"

inductive creach :: "'h \<Rightarrow> ('h, 'a) csys \<Rightarrow> bool" for cmd where
  creach_init: "creach cmd (csys_init cmd)"
| creach_step: "creach cmd s \<Longrightarrow> cstep s t \<Longrightarrow> creach cmd t"

section \<open>What a poll does\<close>

lemma cf_submit_cases:
  assumes "cf_submit out fut = (e, sent, fut')"
  shows "cf_handler fut' = None"
    and "sent = Some cmd \<Longrightarrow> cf_handler fut = Some cmd"
    and "e = Some err \<Longrightarrow> cf_handler fut \<noteq> None \<and> err = BehaviourError ''command channel closed'' \<and> sent = None"
    and "e = None \<Longrightarrow> sent = None \<Longrightarrow> cf_handler fut = None"
  using assms by (auto simp: cf_submit_def split: option.splits if_splits)

lemma cf_poll_error:
  "cf_submit out fut = (Some e, sent, fut') \<Longrightarrow> cf_poll w out fut h = (Ready (Inl e), sent, fut', h)"
  by (simp add: cf_poll_def)

lemma cf_poll_looks:
  "cf_submit out fut = (None, sent, fut') \<Longrightarrow>
   cf_poll w out fut h = (fst (handle_poll w h), sent, fut', snd (handle_poll w h))"
  by (simp add: cf_poll_def case_prod_beta)

text \<open>The submission does not depend on the waker or the handle.\<close>

lemma cf_poll_submission:
  "cf_poll w out fut h = (p, sent, fut', h') \<Longrightarrow> \<exists>e. cf_submit out fut = (e, sent, fut')"
  by (cases "cf_submit out fut") (auto simp: cf_poll_def case_prod_beta split: option.splits)

lemma cf_poll_submitted:
  assumes "cf_handler fut = None" and "handle_result h = Some r"
  shows "fst (cf_poll cx out fut h) = Ready r"
  using assms by (simp add: cf_poll_def cf_submit_def handle_poll_def)

text \<open>The cases of the two steps of a poll.\<close>

lemma poll_submits:
  assumes "scheduled s" "\<not> polling s" "returned s = None" "\<not> dropped s"
    and "cf_submit out (future s) = (None, Some cmd, fut)"
  shows "cstep s (s\<lparr>scheduled := False, polling := True, entered := (future s, out), future := fut,
    channel := Some cmd, submitted := Suc (submitted s)\<rparr>)"
  using poll_enter [OF assms(1-4) cf_poll_looks [OF assms(5)]] by simp

lemma poll_again:
  assumes "scheduled s" "\<not> polling s" "returned s = None" "\<not> dropped s"
    and "cf_submit out (future s) = (None, None, fut)"
  shows "cstep s (s\<lparr>scheduled := False, polling := True, entered := (future s, out), future := fut\<rparr>)"
  using poll_enter [OF assms(1-4) cf_poll_looks [OF assms(5)]] by simp

lemma poll_ready:
  assumes "polling s" and "entered s = (fut0, out)" and "fst (cf_submit out fut0) = None"
    and "handle_poll w (handle s) = (Ready r, h)"
  shows "cstep s (s\<lparr>polling := False, handle := h, latest := Some w, returned := Some r\<rparr>)"
proof -
  obtain sent fut where "cf_submit out fut0 = (None, sent, fut)" using assms(3) by (metis prod.collapse)
  from poll_leave [OF assms(1,2) cf_poll_looks [OF this, of w]] assms(4) show ?thesis by simp
qed

lemma poll_pending:
  assumes "polling s" and "entered s = (fut0, out)" and "fst (cf_submit out fut0) = None"
    and "handle_poll w (handle s) = (Pending, h)"
  shows "cstep s (s\<lparr>polling := False, handle := h, latest := Some w, returned := None\<rparr>)"
proof -
  obtain sent fut where "cf_submit out fut0 = (None, sent, fut)" using assms(3) by (metis prod.collapse)
  from poll_leave [OF assms(1,2) cf_poll_looks [OF this, of w]] assms(4) show ?thesis by simp
qed

text \<open>A poll that cannot submit returns the error, with nothing of the event loop in between that matters.\<close>

lemma poll_rejected:
  assumes "scheduled s" "\<not> polling s" "returned s = None" "\<not> dropped s"
    and "cf_submit out (future s) = (Some e, None, fut)" and "creach cmd s"
  shows "creach cmd (s\<lparr>scheduled := False, entered := (future s, out), future := fut, polling := False, latest := Some w,
    returned := Some (Inl e)\<rparr>)"
proof -
  let ?t = "s\<lparr>scheduled := False, polling := True, entered := (future s, out), future := fut\<rparr>"
  note p = cf_poll_error [OF assms(5), of w]
  have t: "cstep s ?t" using poll_enter [OF assms(1-4) p] by simp
  have q: "cf_poll w out (future s) (handle ?t) = (Ready (Inl e), None, fut, handle s)" using p by simp
  have u: "cstep ?t (s\<lparr>scheduled := False, entered := (future s, out), future := fut, polling := False, latest := Some w,
    returned := Some (Inl e)\<rparr>)"
    using poll_leave [of ?t "future s" out w "Ready (Inl e)" None fut "handle s", OF _ _ q] assms(2) by simp
  show ?thesis by (rule creach_step [OF creach_step [OF assms(6) t] u])
qed

section \<open>The invariant\<close>

text \<open>
  Waiting is safe: a future that has neither returned nor been dropped is in the middle of a poll, or
  will be polled, or has a waker in a handle that holds no result; and the waker in the handle is always the
  latest one. A poll under way that met a closed channel has submitted nothing.
\<close>

definition waits_safely :: "('h, 'a) csys \<Rightarrow> bool" where
  "waits_safely s \<longleftrightarrow>
     (returned s = None \<longrightarrow> \<not> dropped s \<longrightarrow>
        polling s \<or> scheduled s \<or> (handle_result (handle s) = None \<and> waker (state (handle s)) \<noteq> None))
   \<and> (returned s = None \<longrightarrow> waker (state (handle s)) \<noteq> None \<longrightarrow> waker (state (handle s)) = latest s)"

definition poll_ok :: "('h, 'a) csys \<Rightarrow> bool" where
  "poll_ok s \<longleftrightarrow>
     (polling s \<longrightarrow> returned s = None \<and> \<not> dropped s \<and> cf_handler (future s) = None
        \<and> (fst (cf_submit (snd (entered s)) (fst (entered s))) \<noteq> None \<longrightarrow>
             submitted s = 0 \<and> channel s = None \<and> task s = None \<and> finishes s = []))"

definition cinv :: "'h \<Rightarrow> ('h, 'a) csys \<Rightarrow> bool" where
  "cinv cmd s \<longleftrightarrow>
     waits_safely s \<and> poll_ok s
   \<and> (case cf_handler (future s) of
        Some cmd' \<Rightarrow> cmd' = cmd \<and> submitted s = 0 \<and> channel s = None \<and> task s = None \<and> finishes s = []
                    \<and> returned s = None \<and> \<not> polling s
      | None \<Rightarrow> submitted s \<le> 1)
   \<and> (handle_result (handle s) \<noteq> None \<longrightarrow> finishes s \<noteq> [] \<and> handle_result (handle s) = Some (last (finishes s)))
   \<and> (\<forall>r. returned s = Some r \<longrightarrow> r \<in> set (finishes s) \<or> (r = Inl (BehaviourError ''command channel closed'') \<and> submitted s = 0))
   \<and> (channel s \<noteq> None \<longrightarrow> channel s = Some cmd \<and> submitted s = 1)
   \<and> (task s \<noteq> None \<longrightarrow> task s = Some cmd \<and> submitted s = 1)
   \<and> cancelled (state (handle s)) = dropped s"

lemma cinv_init: "cinv cmd (csys_init cmd)"
  by (simp add: cinv_def waits_safely_def poll_ok_def csys_init_def command_future_new_def)

lemma newly_woken_finish [simp]:
  "newly_woken h (handle_finish r h) = (case waker (state h) of None \<Rightarrow> [] | Some w \<Rightarrow> [w])"
  by (simp add: newly_woken_def)

lemmas cinv_defs = cinv_def waits_safely_def poll_ok_def

text \<open>A poll begins: nothing, a submission, or an error to be returned at its end.\<close>

lemma cinv_enter:
  assumes "cinv cmd s" and "\<not> polling s" and "returned s = None" and "\<not> dropped s"
    and "cf_poll w out (future s) (handle s) = (p, sent, fut, h)"
  shows "cinv cmd (s\<lparr>scheduled := False, polling := True, entered := (future s, out), future := fut,
       channel := (case sent of None \<Rightarrow> channel s | Some cmd \<Rightarrow> Some cmd),
       submitted := submitted s + (case sent of None \<Rightarrow> 0 | Some cmd \<Rightarrow> 1)\<rparr>)"
proof -
  obtain e where e: "cf_submit out (future s) = (e, sent, fut)" using cf_poll_submission [OF assms(5)] by blast
  show ?thesis
  proof (cases "cf_handler (future s)")
    case None
    with e have "e = None" "sent = None" "fut = future s" by (simp_all add: cf_submit_def)
    with None assms e show ?thesis by (simp add: cinv_defs)
  next
    case (Some c)
    have "cf_handler fut = None" "sent = None \<or> sent = Some c" "e \<noteq> None \<longleftrightarrow> sent = None"
      using e by (auto simp: cf_submit_def Some split: if_splits)
    with Some assms e show ?thesis by (auto simp: cinv_defs)
  qed
qed

text \<open>A poll ends: with the error, with a result, or leaving its waker.\<close>

lemma cinv_leave:
  assumes "cinv cmd s" and "polling s" and "entered s = (fut0, out)"
    and "cf_poll w out fut0 (handle s) = (p, sent, fut, h)"
  shows "cinv cmd (s\<lparr>polling := False, handle := h, latest := Some w,
       returned := (case p of Ready r \<Rightarrow> Some r | Pending \<Rightarrow> None)\<rparr>)"
proof (cases "fst (cf_submit out fut0)")
  case None
  then obtain sent' fut' where "cf_submit out fut0 = (None, sent', fut')" by (metis prod.collapse)
  from cf_poll_looks [OF this, of w "handle s"] assms(4)
  have h: "p = fst (handle_poll w (handle s))" "h = snd (handle_poll w (handle s))" by simp_all
  show ?thesis
    using assms(1,2) by (cases "handle_result (handle s)") (auto simp: h handle_poll_def cinv_defs)
next
  case (Some e)
  then obtain sent' fut' where e: "cf_submit out fut0 = (Some e, sent', fut')" by (metis prod.collapse)
  from cf_poll_error [OF this, of w "handle s"] assms(4) have h: "p = Ready (Inl e)" "h = handle s" by simp_all
  have "e = BehaviourError ''command channel closed''" using cf_submit_cases(3) [OF e] by blast
  with assms(1-3) Some show ?thesis by (auto simp: h cinv_defs)
qed

lemma cinv_step: "cstep s t \<Longrightarrow> cinv cmd s \<Longrightarrow> cinv cmd t"
proof (induction rule: cstep.induct)
  case (poll_enter s w out p sent fut h)
  then show ?case by (intro cinv_enter)
next
  case (poll_leave s fut0 out w p sent fut h)
  then show ?case by (intro cinv_leave)
next
  case (receive s cmd')
  then show ?case by (cases "cf_handler (future s)"; cases "returned s") (auto simp: cinv_defs)
next
  case (finish s cmd' r)
  then have "cf_handler (future s) = None" by (auto simp: cinv_def split: option.splits)
  with finish show ?case
    by (cases "returned s"; cases "waker (state (handle s))") (auto simp: cinv_defs)
next
  case (retire s cmd')
  then show ?case by (cases "cf_handler (future s)"; cases "returned s") (auto simp: cinv_defs)
next
  case (wake s)
  then show ?case by (cases "cf_handler (future s)"; cases "returned s") (auto simp: cinv_defs)
next
  case (drop_future s)
  then show ?case by (cases "cf_handler (future s)"; cases "returned s") (auto simp: cinv_defs cf_drop_def)
qed

lemma creach_cinv: "creach cmd s \<Longrightarrow> cinv cmd s"
  by (induction rule: creach.induct) (auto intro: cinv_init cinv_step)

lemma waiting_result:
  assumes "creach cmd s" and "returned s = None" and "\<not> dropped s" and "handle_result (handle s) = Some r"
  shows "polling s \<Longrightarrow> fst (cf_poll w (snd (entered s)) (fst (entered s)) (handle s)) = Ready r"
    and "\<not> polling s \<Longrightarrow> scheduled s \<and> fst (cf_poll w out (future s) (handle s)) = Ready r"
proof -
  note i = creach_cinv [OF assms(1)]
  have h: "cf_handler (future s) = None" using i assms(4) by (auto simp: cinv_def split: option.splits)
  { assume "polling s"
    with i assms(4) have "fst (cf_submit (snd (entered s)) (fst (entered s))) = None" by (auto simp: cinv_defs)
    then obtain sent fut where "cf_submit (snd (entered s)) (fst (entered s)) = (None, sent, fut)" by (metis prod.collapse)
    from cf_poll_looks [OF this, of w "handle s"] handle_poll_Some [OF assms(4), of w]
    show "fst (cf_poll w (snd (entered s)) (fst (entered s)) (handle s)) = Ready r" by simp }
  assume "\<not> polling s"
  with i assms(2-4) have "scheduled s" by (auto simp: cinv_defs)
  with h assms(4) show "scheduled s \<and> fst (cf_poll w out (future s) (handle s)) = Ready r"
    by (simp add: cf_poll_submitted)
qed

lemma waiting_waker:
  assumes "creach cmd s" and "returned s = None" and "\<not> dropped s" and "\<not> polling s" and "\<not> scheduled s"
  shows "handle_result (handle s) = None" and "latest s \<noteq> None" and "waker (state (handle s)) = latest s"
  using creach_cinv [OF assms(1)] assms(2-) by (auto simp: cinv_defs)

section \<open>Properties\<close>

text \<open>
  C10: no wake-up is lost. Whatever the interleaving of the two parts of every poll of a command future with
  the event loop that completes it, a future that still waits is taken care of. If its result is in the handle,
  then either a poll is under way, and looking at the handle now makes that very poll return the result, also
  when the loop completed the command between the submission and the look; or the future is scheduled, and the
  next poll returns the result. If there is no result and no poll is under way or scheduled, the handle holds
  the waker of the latest poll, and whatever the loop finishes the handle with wakes exactly that waker.
\<close>

theorem no_lost_wakeup:
  assumes "creach cmd s" and "returned s = None" and "\<not> dropped s"
  shows "(\<forall>r. handle_result (handle s) = Some r \<longrightarrow>
            (if polling s then \<forall>w. fst (cf_poll w (snd (entered s)) (fst (entered s)) (handle s)) = Ready r
             else scheduled s \<and> (\<forall>w out. fst (cf_poll w out (future s) (handle s)) = Ready r)))
       \<and> (handle_result (handle s) = None \<longrightarrow>
            polling s \<or> scheduled s \<or>
            (\<exists>w. latest s = Some w \<and> (\<forall>r. newly_woken (handle s) (handle_finish r (handle s)) = [w])))"
proof (intro conjI allI impI)
  fix r
  assume r: "handle_result (handle s) = Some r"
  show "if polling s then \<forall>w. fst (cf_poll w (snd (entered s)) (fst (entered s)) (handle s)) = Ready r
    else scheduled s \<and> (\<forall>w out. fst (cf_poll w out (future s) (handle s)) = Ready r)"
    using waiting_result [OF assms r] by simp
next
  show "polling s \<or> scheduled s \<or>
    (\<exists>w. latest s = Some w \<and> (\<forall>r. newly_woken (handle s) (handle_finish r (handle s)) = [w]))"
    using waiting_waker(2,3) [OF assms] by fastforce
qed

text \<open>
  A run in which the first poll finds no result and leaves its waker, the loop completes the command, which wakes the
  task, and a run in which the loop completes the command in the middle of the first poll.
\<close>

definition submitted_state :: "(string, nat) csys" where
  "submitted_state = (csys_init ''cmd'')
     \<lparr>scheduled := False, polling := True, future := \<lparr>cf_handler = None\<rparr>, task := Some ''cmd'', submitted := 1\<rparr>"

definition racing_run :: "(string, nat) csys" where
  "racing_run = submitted_state\<lparr>handle := handle_finish (Inr 5) handle_new, finishes := [Inr 5]\<rparr>"

definition waiting_run :: "(string, nat) csys" where
  "waiting_run = submitted_state
     \<lparr>polling := False, latest := Some (Waker 4), handle := handle_new\<lparr>state := result_state_default\<lparr>waker := Some (Waker 4)\<rparr>\<rparr>\<rparr>"

definition woken_run :: "(string, nat) csys" where
  "woken_run = waiting_run\<lparr>handle := handle_finish (Inr 5) (handle waiting_run), finishes := [Inr 5], scheduled := True\<rparr>"

lemma submitted_state_reachable: "creach ''cmd'' submitted_state"
proof -
  let ?s0 = "csys_init ''cmd'' :: (string, nat) csys"
  let ?s1 = "?s0\<lparr>scheduled := False, polling := True, future := \<lparr>cf_handler = None\<rparr>, channel := Some ''cmd'', submitted := 1\<rparr>"
  have "cstep ?s0 ?s1"
    using poll_submits [of ?s0 SendOk "''cmd''" "\<lparr>cf_handler = None\<rparr>"]
    by (simp add: csys_init_def command_future_new_def cf_submit_def is_err_def)
  moreover have "cstep ?s1 submitted_state"
    using receive [of ?s1 "''cmd''"] by (simp add: submitted_state_def csys_init_def)
  ultimately show ?thesis by (blast intro: creach.intros)
qed

lemma racing_run_reachable: "creach ''cmd'' racing_run"
  using finish [of submitted_state "''cmd''" "Inr 5"]
  by (intro creach_step [OF submitted_state_reachable]) (simp add: racing_run_def submitted_state_def csys_init_def)

lemma waiting_run_reachable: "creach ''cmd'' waiting_run"
  using poll_pending [of submitted_state "command_future_new ''cmd''" SendOk "Waker 4" "handle waiting_run"]
  by (intro creach_step [OF submitted_state_reachable])
     (simp add: waiting_run_def submitted_state_def csys_init_def cf_submit_def is_err_def command_future_new_def
       handle_poll_def handle_new_def result_state_default_def)

lemma woken_run_reachable: "creach ''cmd'' woken_run"
  using finish [of waiting_run "''cmd''" "Inr 5"]
  by (intro creach_step [OF waiting_run_reachable])
     (simp add: woken_run_def waiting_run_def submitted_state_def csys_init_def result_state_default_def)

theorem no_lost_wakeup_witness:
  "fst (cf_poll (Waker 0) SendOk (command_future_new ''cmd'') (handle racing_run)) = Ready (Inr 5)
   \<and> newly_woken (handle waiting_run) (handle_finish (Inr 5) (handle waiting_run)) = [Waker 4]
   \<and> scheduled woken_run \<and> fst (cf_poll (Waker 0) SendFull (future woken_run) (handle woken_run)) = Ready (Inr 5)"
  using no_lost_wakeup [OF racing_run_reachable] no_lost_wakeup [OF waiting_run_reachable] no_lost_wakeup [OF woken_run_reachable]
  by (simp add: racing_run_def waiting_run_def woken_run_def submitted_state_def csys_init_def result_state_default_def)

text \<open>
  A command is submitted at most once, and what awaiting its future returns is either a result the
  event loop finished it with, or the channel error of a command that was never submitted.
\<close>

theorem future_returns_a_finish:
  assumes "creach cmd s"
  shows "submitted s \<le> 1
       \<and> (\<forall>r. returned s = Some r \<longrightarrow>
            r \<in> set (finishes s) \<or> (submitted s = 0 \<and> r = Inl (BehaviourError ''command channel closed'')))
       \<and> (\<forall>cmd'. task s = Some cmd' \<or> channel s = Some cmd' \<longrightarrow> cmd' = cmd)"
proof (intro conjI)
  note i = creach_cinv [OF assms]
  show "submitted s \<le> 1" using i by (auto simp: cinv_def split: option.splits)
  show "\<forall>r. returned s = Some r \<longrightarrow>
      r \<in> set (finishes s) \<or> (submitted s = 0 \<and> r = Inl (BehaviourError ''command channel closed''))"
    using i by (auto simp: cinv_def)
  show "\<forall>cmd'. task s = Some cmd' \<or> channel s = Some cmd' \<longrightarrow> cmd' = cmd" using i by (auto simp: cinv_def)
qed

theorem future_returns_a_finish_witness:
  "submitted racing_run \<le> 1 \<and> task racing_run = Some ''cmd''"
  using future_returns_a_finish [OF racing_run_reachable] by (auto simp: racing_run_def submitted_state_def)

text \<open>
  The event loop sees a command as cancelled if and only if the caller has dropped its future, so
  clearing out cancelled commands never takes a command away from a caller that still waits for it.
\<close>

theorem cancelled_iff_dropped:
  assumes "creach cmd s"
  shows "handle_is_cancelled (handle s) \<longleftrightarrow> dropped s"
  using creach_cinv [OF assms] by (simp add: cinv_def handle_is_cancelled_def)

theorem cancelled_iff_dropped_witness: "\<not> handle_is_cancelled (handle racing_run)"
  using cancelled_iff_dropped [OF racing_run_reachable]
  by (simp add: racing_run_def submitted_state_def csys_init_def)

text \<open>
  A full command channel is reported as a closed one. On the first poll, any failure of \<open>try_send\<close>,
  whether the receiver is gone or the bounded channel merely has no free slot, makes the future return
  the error \<open>command channel closed\<close>; the command is gone with it and is not submitted by a later poll.
\<close>

theorem full_channel_reported_closed:
  "fst (cf_poll cx SendFull (command_future_new cmd) h) = Ready (Inl (BehaviourError ''command channel closed''))
   \<and> cf_poll cx SendFull (command_future_new cmd) h = cf_poll cx SendClosed (command_future_new cmd) h
   \<and> (\<forall>out cx' h'. fst (snd (cf_poll cx' out (fst (snd (snd (cf_poll cx SendFull (command_future_new cmd) h)))) h')) = None)"
  by (simp add: cf_poll_def cf_submit_def command_future_new_def is_err_def case_prod_beta)

end
