(* ===== verification/Command_Core.thy ===== *)
theory Command_Core
  imports Result_Handle
begin

text \<open>
  What all commands share (\<^verbatim>\<open>core/src/command/handler.rs\<close>): the value a command finishes with, the result
  of offering it an event, and the run of one command over a sequence of events. The Rust trait fixes
  the result type of each command; here one sum type holds them all, and a theorem of the dispatch
  theory shows that every command finishes with its own constructor only.
\<close>

section \<open>Command results\<close>

record bootstrap_result =
  br_num_remaining :: u32
  br_stats :: query_stats_info

record get_closest_peers_result =
  gcp_peers :: "peer_id list"
  gcp_stats :: query_stats_info

record get_providers_result =
  gp_providers :: "peer_id list"
  gp_stats :: query_stats_info

record get_record_result =
  gr_record :: kad_record
  gr_stats :: query_stats_info

datatype 'resp cmd_output =
    OUnit
  | OBool bool
  | OAddrs "multiaddr list"
  | OResponse 'resp
  | OBootstrap bootstrap_result
  | OStats query_stats_info
  | OGetRecord get_record_result
  | OGetProviders get_providers_result
  | OGetClosestPeers get_closest_peers_result

type_synonym 'resp cmd_handle = "'resp cmd_output result_handle"

text \<open>
  \<open>OnEventResult\<close>: whether the command stays active, and the event if it was not consumed.
\<close>

type_synonym 'e on_event_result = "bool \<times> 'e option"

text \<open>The concrete library at fixed message types, for the concrete instances.\<close>

abbreviation str_env :: "(string, string, nat) net_env" where
  "str_env \<equiv> sample_env"

section \<open>One command over a sequence of events\<close>

definition passed :: "'e option \<Rightarrow> 'e list" where
  "passed r = (case r of None \<Rightarrow> [] | Some e \<Rightarrow> [e])"

lemma passed_simps [cmd_simps, simp]: "passed None = []" "passed (Some e) = [e]"
  by (simp_all add: passed_def)

text \<open>
  Offer events to a command until it completes. The result says whether it is still active, which
  events it let through, and its final state and handle. Events after its completion all pass.
\<close>

fun feed ::
  "('c \<Rightarrow> 'e \<Rightarrow> 'h \<Rightarrow> 'e on_event_result \<times> 'c \<times> 'h) \<Rightarrow> 'c \<Rightarrow> 'e list \<Rightarrow> 'h \<Rightarrow>
   bool \<times> 'e list \<times> 'c \<times> 'h" where
  "feed on_event c [] h = (True, [], c, h)"
| "feed on_event c (e # es) h =
     (case on_event c e h of
        ((keep, rest), c', h') \<Rightarrow>
          if keep then
            (case feed on_event c' es h' of (active, out, c'', h'') \<Rightarrow> (active, passed rest @ out, c'', h''))
          else (False, passed rest @ es, c', h'))"

text \<open>
  The contract of a command that waits for its own events: anything else it passes on, unchanged and
  without effect.
\<close>

locale waiting_command =
  fixes on_event :: "'c \<Rightarrow> 'e \<Rightarrow> 'h \<Rightarrow> 'e on_event_result \<times> 'c \<times> 'h"
    and mine :: "'c \<Rightarrow> 'e \<Rightarrow> bool"
  assumes foreign: "\<not> mine c e \<Longrightarrow> on_event c e h = ((True, Some e), c, h)"
begin

lemma feed_foreign: "\<forall>e \<in> set es. \<not> mine c e \<Longrightarrow> feed on_event c es h = (True, es, c, h)"
  by (induction es) (simp_all add: foreign)

lemma feed_foreign_append:
  "\<forall>e \<in> set es. \<not> mine c e \<Longrightarrow>
   feed on_event c (es @ es') h =
     (case feed on_event c es' h of (active, out, c', h') \<Rightarrow> (active, es @ out, c', h'))"
  by (induction es) (simp_all add: foreign case_prod_beta)

lemma feed_until_mine:
  assumes "\<forall>e \<in> set es. \<not> mine c e"
  shows "feed on_event c (es @ e # es') h =
     (case on_event c e h of
        ((keep, rest), c', h') \<Rightarrow>
          if keep then
            (case feed on_event c' es' h' of (active, out, c'', h'') \<Rightarrow> (active, es @ passed rest @ out, c'', h''))
          else (False, es @ passed rest @ es', c', h'))"
  using assms by (simp add: feed_foreign_append case_prod_beta)

end

section \<open>Query commands\<close>

text \<open>
  A query command sees its own events as steps, advances its state over each step, and at some step
  reaches a verdict, the result it finishes with. Its own events are consumed, all others pass.
\<close>

locale query_command =
  fixes on_event :: "'c \<Rightarrow> 'e \<Rightarrow> 'a result_handle \<Rightarrow> 'e on_event_result \<times> 'c \<times> 'a result_handle"
    and own :: "'c \<Rightarrow> 'e \<Rightarrow> 's option"
    and advance :: "'c \<Rightarrow> 's \<Rightarrow> 'c"
    and verdict :: "'c \<Rightarrow> 's \<Rightarrow> 'a res option"
    and final :: "'c \<Rightarrow> 's \<Rightarrow> 'c"
  assumes other: "own c e = None \<Longrightarrow> on_event c e h = ((True, Some e), c, h)"
    and progress: "own c e = Some s \<Longrightarrow> verdict c s = None \<Longrightarrow> on_event c e h = ((True, None), advance c s, h)"
    and conclude: "own c e = Some s \<Longrightarrow> verdict c s = Some r \<Longrightarrow>
          on_event c e h = ((False, None), final c s, handle_finish r h)"
    and own_advance: "own (advance c s) = own c"

sublocale query_command \<subseteq> waiting_command on_event "\<lambda>c e. own c e \<noteq> None"
  by unfold_locales (simp add: other)

text \<open>The state after steps none of which reaches a verdict, and \<open>None\<close> if one does.\<close>

fun undecided :: "('c \<Rightarrow> 's \<Rightarrow> 'c) \<Rightarrow> ('c \<Rightarrow> 's \<Rightarrow> 'r option) \<Rightarrow> 'c \<Rightarrow> 's list \<Rightarrow> 'c option" where
  "undecided advance verdict c [] = Some c"
| "undecided advance verdict c (s # ss) =
     (if verdict c s = None then undecided advance verdict (advance c s) ss else None)"

lemma undecided_fold:
  assumes "\<And>c s. s \<in> set ss \<Longrightarrow> P c \<Longrightarrow> verdict c s = None \<and> P (advance c s)" and "P c"
  shows "undecided advance verdict c ss = Some (foldl advance c ss)"
  using assms by (induction ss arbitrary: c) auto

context query_command
begin

lemma feed_undecided:
  assumes "undecided advance verdict c (List.map_filter (own c) es) = Some c'"
  shows "feed on_event c (es @ es') h =
     (case feed on_event c' es' h of
        (active, out, c'', h'') \<Rightarrow> (active, filter (\<lambda>e. own c e = None) es @ out, c'', h''))"
  using assms
proof (induction es arbitrary: c)
  case Nil
  then show ?case by (simp add: List.map_filter_simps)
next
  case (Cons e es)
  show ?case
  proof (cases "own c e")
    case None
    with Cons show ?thesis by (simp add: other List.map_filter_simps case_prod_beta)
  next
    case (Some s)
    then have v: "verdict c s = None"
      and u: "undecided advance verdict (advance c s) (List.map_filter (own (advance c s)) es) = Some c'"
      using Cons.prems by (auto simp: List.map_filter_simps own_advance split: if_splits)
    with Some Cons.IH [OF u] show ?thesis by (simp add: progress own_advance case_prod_beta)
  qed
qed

lemma feed_conclude:
  assumes "undecided advance verdict c (List.map_filter (own c) es) = Some c'"
    and "own c' e = Some s" and "verdict c' s = Some r"
  shows "feed on_event c (es @ e # es') h =
     (False, filter (\<lambda>e. own c e = None) es @ es', final c' s, handle_finish r h)"
  using feed_undecided [OF assms(1), of "e # es'" h] assms(2,3) by (simp add: conclude)

lemma own_foldl: "own (foldl advance c ss) = own c"
  by (induction ss arbitrary: c) (simp_all add: own_advance)

lemma feed_fold:
  assumes "\<forall>s \<in> set (List.map_filter (own c) es). \<forall>c. verdict c s = None"
    and "own c e = Some s" and "verdict (foldl advance c (List.map_filter (own c) es)) s = Some r"
  shows "feed on_event c (es @ e # es') h =
     (False, filter (\<lambda>e. own c e = None) es @ es', final (foldl advance c (List.map_filter (own c) es)) s,
      handle_finish r h)"
  using assms
  by (intro feed_conclude [OF undecided_fold [where P = "\<lambda>_. True"]]) (simp_all add: own_foldl)

end

end
