(* ===== verification/Basic_Commands.thy ===== *)
theory Basic_Commands
  imports Command_Core
begin

text \<open>
  The connection and address commands of \<^verbatim>\<open>core/src/command/\<close>: dial, disconnect, is\_connected,
  get\_listen\_addrs, add\_peer\_addrs and add\_infrastructure\_peer. \<open>run\<close> takes and returns the command,
  the swarm and the result handle; \<open>on_event\<close> the command and the handle, since no command touches the
  swarm there.
\<close>

section \<open>Dial\<close>

record dial_command =
  dial_peer :: peer_id

definition dial_run ::
  "('req, 'resp, 'stats) net_env \<Rightarrow> dial_command \<Rightarrow> ('req, 'resp, 'stats) swarm \<Rightarrow> 'resp cmd_handle \<Rightarrow>
   dial_command \<times> ('req, 'resp, 'stats) swarm \<times> 'resp cmd_handle" where
  "dial_run env c sw h =
     (if is_connected env sw (dial_peer c) then (c, sw, handle_finish (Inr OUnit) h)
      else case swarm_dial env (dial_peer c) sw of
             (Some e, sw') \<Rightarrow> (c, sw', handle_finish (Inl (DialError (to_string e))) h)
           | (None, sw') \<Rightarrow> (c, sw', h))"

definition dial_on_event ::
  "dial_command \<Rightarrow> ('req, 'resp, 'stats) swarm_event \<Rightarrow> 'resp cmd_handle \<Rightarrow>
   ('req, 'resp, 'stats) swarm_event on_event_result \<times> dial_command \<times> 'resp cmd_handle" where
  "dial_on_event c event h =
     (case event of
        ConnectionEstablished peer n \<Rightarrow>
          if peer = dial_peer c then ((False, Some event), c, handle_finish (Inr OUnit) h)
          else ((True, Some event), c, h)
      | OutgoingConnectionError (Some peer) e \<Rightarrow>
          if peer = dial_peer c then ((False, Some event), c, handle_finish (Inl (DialError (to_string e))) h)
          else ((True, Some event), c, h)
      | _ \<Rightarrow> ((True, Some event), c, h))"

section \<open>Disconnect\<close>

record disconnect_command =
  disconnect_peer :: peer_id

definition disconnect_run ::
  "('req, 'resp, 'stats) net_env \<Rightarrow> disconnect_command \<Rightarrow> ('req, 'resp, 'stats) swarm \<Rightarrow> 'resp cmd_handle \<Rightarrow>
   disconnect_command \<times> ('req, 'resp, 'stats) swarm \<times> 'resp cmd_handle" where
  "disconnect_run env c sw h =
     (case swarm_disconnect env (disconnect_peer c) sw of
        (False, sw') \<Rightarrow>
          (c, sw', handle_finish
             (Inl (DialError (''peer '' @ peer_display env (disconnect_peer c) @ '' is not connected''))) h)
      | (True, sw') \<Rightarrow> (c, sw', h))"

definition disconnect_on_event ::
  "disconnect_command \<Rightarrow> ('req, 'resp, 'stats) swarm_event \<Rightarrow> 'resp cmd_handle \<Rightarrow>
   ('req, 'resp, 'stats) swarm_event on_event_result \<times> disconnect_command \<times> 'resp cmd_handle" where
  "disconnect_on_event c event h =
     (case event of
        ConnectionClosed peer n \<Rightarrow>
          if peer = disconnect_peer c \<and> n = 0 then ((False, Some event), c, handle_finish (Inr OUnit) h)
          else ((True, Some event), c, h)
      | _ \<Rightarrow> ((True, Some event), c, h))"

section \<open>Synchronous commands\<close>

record is_connected_command =
  is_connected_peer :: peer_id

definition is_connected_run ::
  "('req, 'resp, 'stats) net_env \<Rightarrow> is_connected_command \<Rightarrow> ('req, 'resp, 'stats) swarm \<Rightarrow> 'resp cmd_handle \<Rightarrow>
   is_connected_command \<times> ('req, 'resp, 'stats) swarm \<times> 'resp cmd_handle" where
  "is_connected_run env c sw h =
     (c, sw, handle_finish (Inr (OBool (is_connected env sw (is_connected_peer c)))) h)"

text \<open>\<open>Vec::sort\<close> by the order of multiaddresses, that of their bytes, then \<open>Vec::dedup\<close>.\<close>

definition reachable_addrs ::
  "('req, 'resp, 'stats) net_env \<Rightarrow> ('req, 'resp, 'stats) swarm \<Rightarrow> multiaddr list" where
  "reachable_addrs env sw =
     remdups_adj (sort_key (addr_bytes env) (listeners env sw @ external_addresses env sw))"

definition get_listen_addrs_run ::
  "('req, 'resp, 'stats) net_env \<Rightarrow> ('req, 'resp, 'stats) swarm \<Rightarrow> 'resp cmd_handle \<Rightarrow>
   ('req, 'resp, 'stats) swarm \<times> 'resp cmd_handle" where
  "get_listen_addrs_run env sw h = (sw, handle_finish (Inr (OAddrs (reachable_addrs env sw))) h)"

record add_peer_addrs_command =
  apa_peer :: peer_id
  apa_addrs :: "multiaddr list"

definition add_peer_addrs_run ::
  "add_peer_addrs_command \<Rightarrow> ('req, 'resp, 'stats) swarm \<Rightarrow> 'resp cmd_handle \<Rightarrow>
   add_peer_addrs_command \<times> ('req, 'resp, 'stats) swarm \<times> 'resp cmd_handle" where
  "add_peer_addrs_run c sw h =
     (c, fold (\<lambda>addr sw. swarm_add_peer_address (apa_peer c) addr sw) (apa_addrs c) sw,
      handle_finish (Inr OUnit) h)"

section \<open>Infrastructure peers\<close>

record infrastructure_roles =
  kad_server :: bool
  relay_server :: bool

record add_infrastructure_peer_command =
  aip_peer :: peer_id
  aip_addrs :: "multiaddr list"
  aip_roles :: infrastructure_roles
  aip_pending_relay_addrs :: "multiaddr list option"

definition add_infrastructure_peer_new ::
  "peer_id \<Rightarrow> multiaddr list \<Rightarrow> infrastructure_roles \<Rightarrow> add_infrastructure_peer_command" where
  "add_infrastructure_peer_new p as roles =
     \<lparr>aip_peer = p, aip_addrs = as, aip_roles = roles, aip_pending_relay_addrs = None\<rparr>"

definition register_infrastructure_addr ::
  "add_infrastructure_peer_command \<Rightarrow> multiaddr \<Rightarrow> ('req, 'resp, 'stats) swarm \<Rightarrow> ('req, 'resp, 'stats) swarm" where
  "register_infrastructure_addr c addr sw =
     (let sw1 = swarm_add_peer_address (aip_peer c) addr sw
      in if kad_server (aip_roles c) then swarm_kad_add_address (aip_peer c) addr sw1 else sw1)"

definition add_infrastructure_peer_run ::
  "('req, 'resp, 'stats) net_env \<Rightarrow> add_infrastructure_peer_command \<Rightarrow> ('req, 'resp, 'stats) swarm \<Rightarrow>
   'resp cmd_handle \<Rightarrow>
   add_infrastructure_peer_command \<times> ('req, 'resp, 'stats) swarm \<times> 'resp cmd_handle" where
  "add_infrastructure_peer_run env c sw h =
     (let sw1 = fold (register_infrastructure_addr c) (aip_addrs c) sw;
          c1 = (if relay_server (aip_roles c) \<and> relay_client_enabled env
                then c\<lparr>aip_pending_relay_addrs := Some (aip_addrs c)\<rparr> else c)
      in if is_connected env sw1 (aip_peer c) then (c1, sw1, handle_finish (Inr OUnit) h)
         else (case swarm_dial env (aip_peer c) sw1 of
                 (_, sw2) \<Rightarrow> (c1, sw2, handle_finish (Inr OUnit) h)))"

definition add_infrastructure_peer_take_relay ::
  "add_infrastructure_peer_command \<Rightarrow>
   (peer_id \<times> multiaddr list) option \<times> add_infrastructure_peer_command" where
  "add_infrastructure_peer_take_relay c =
     (map_option (\<lambda>addrs. (aip_peer c, addrs)) (aip_pending_relay_addrs c),
      c\<lparr>aip_pending_relay_addrs := None\<rparr>)"

section \<open>The waiting commands keep the contract\<close>

definition dial_mine :: "dial_command \<Rightarrow> ('req, 'resp, 'stats) swarm_event \<Rightarrow> bool" where
  "dial_mine c event \<longleftrightarrow>
     (case event of
        ConnectionEstablished peer n \<Rightarrow> peer = dial_peer c
      | OutgoingConnectionError (Some peer) e \<Rightarrow> peer = dial_peer c
      | _ \<Rightarrow> False)"

definition disconnect_mine :: "disconnect_command \<Rightarrow> ('req, 'resp, 'stats) swarm_event \<Rightarrow> bool" where
  "disconnect_mine c event \<longleftrightarrow>
     (case event of ConnectionClosed peer n \<Rightarrow> peer = disconnect_peer c \<and> n = 0 | _ \<Rightarrow> False)"

interpretation dial: waiting_command dial_on_event dial_mine
  by unfold_locales (auto simp: dial_on_event_def dial_mine_def split: swarm_event.splits option.splits)

interpretation disconnect: waiting_command disconnect_on_event disconnect_mine
  by unfold_locales (auto simp: disconnect_on_event_def disconnect_mine_def split: swarm_event.splits)

section \<open>Properties\<close>

text \<open>
  A dial completes with the first word about its peer. If the peer is connected it returns at once
  without dialling; if the swarm refuses, it returns that error; otherwise, whatever other events come
  first, it stays pending until the first connection to the peer, when it returns success, or the
  first failed attempt, when it returns that error, and it takes no event away from the application.
\<close>

theorem dial_outcome:
  assumes "\<forall>e \<in> set es. \<not> dial_mine \<lparr>dial_peer = p\<rparr> e"
  shows "(is_connected env sw p \<longrightarrow>
            dial_run env \<lparr>dial_peer = p\<rparr> sw h = (\<lparr>dial_peer = p\<rparr>, sw, handle_finish (Inr OUnit) h))
       \<and> (\<not> is_connected env sw p \<longrightarrow> (\<forall>err. dial_result env sw p = Some err \<longrightarrow>
            dial_run env \<lparr>dial_peer = p\<rparr> sw h =
              (\<lparr>dial_peer = p\<rparr>, sw @ [CallDial p], handle_finish (Inl (DialError (to_string err))) h)))
       \<and> (\<not> is_connected env sw p \<longrightarrow> dial_result env sw p = None \<longrightarrow>
            dial_run env \<lparr>dial_peer = p\<rparr> sw h = (\<lparr>dial_peer = p\<rparr>, sw @ [CallDial p], h))
       \<and> feed dial_on_event \<lparr>dial_peer = p\<rparr> es h = (True, es, \<lparr>dial_peer = p\<rparr>, h)
       \<and> feed dial_on_event \<lparr>dial_peer = p\<rparr> (es @ ConnectionEstablished p n # es') h =
            (False, es @ ConnectionEstablished p n # es', \<lparr>dial_peer = p\<rparr>, handle_finish (Inr OUnit) h)
       \<and> feed dial_on_event \<lparr>dial_peer = p\<rparr> (es @ OutgoingConnectionError (Some p) err # es') h =
            (False, es @ OutgoingConnectionError (Some p) err # es', \<lparr>dial_peer = p\<rparr>,
             handle_finish (Inl (DialError (to_string err))) h)"
  using dial.feed_foreign [OF assms] dial.feed_until_mine [OF assms]
  by (simp add: dial_run_def dial_on_event_def swarm_dial_def)

theorem dial_outcome_witness:
  "feed dial_on_event \<lparr>dial_peer = PeerId 1\<rparr>
     [NewListenAddr [], ConnectionEstablished (PeerId 2) 1, ConnectionEstablished (PeerId 1) 1] handle_new
   = (False, [NewListenAddr [], ConnectionEstablished (PeerId 2) 1, ConnectionEstablished (PeerId 1) 1],
      \<lparr>dial_peer = PeerId 1\<rparr>, handle_finish (Inr OUnit) handle_new)"
  using dial_outcome [of "[NewListenAddr [], ConnectionEstablished (PeerId 2) 1]" "PeerId 1" _ _ handle_new 1 "[]"]
  by (simp add: dial_mine_def dial_on_event_def)

text \<open>
  A disconnect returns only when the last connection is gone. It fails at once for a peer that is
  not connected; otherwise events of other peers and closings that leave connections open do not
  complete it, the closing that leaves none does, and every event still reaches the application.
\<close>

theorem disconnect_outcome:
  assumes "\<forall>e \<in> set es. \<not> disconnect_mine \<lparr>disconnect_peer = p\<rparr> e"
  shows "(\<not> disconnect_ok env sw p \<longrightarrow>
            disconnect_run env \<lparr>disconnect_peer = p\<rparr> sw h =
              (\<lparr>disconnect_peer = p\<rparr>, sw @ [CallDisconnectPeerId p],
               handle_finish (Inl (DialError (''peer '' @ peer_display env p @ '' is not connected''))) h))
       \<and> (disconnect_ok env sw p \<longrightarrow>
            disconnect_run env \<lparr>disconnect_peer = p\<rparr> sw h = (\<lparr>disconnect_peer = p\<rparr>, sw @ [CallDisconnectPeerId p], h))
       \<and> feed disconnect_on_event \<lparr>disconnect_peer = p\<rparr> es h = (True, es, \<lparr>disconnect_peer = p\<rparr>, h)
       \<and> feed disconnect_on_event \<lparr>disconnect_peer = p\<rparr> (es @ ConnectionClosed p 0 # es') h =
            (False, es @ ConnectionClosed p 0 # es', \<lparr>disconnect_peer = p\<rparr>, handle_finish (Inr OUnit) h)"
  using disconnect.feed_foreign [OF assms] disconnect.feed_until_mine [OF assms]
  by (simp add: disconnect_run_def disconnect_on_event_def swarm_disconnect_def)

theorem disconnect_outcome_witness:
  "feed disconnect_on_event \<lparr>disconnect_peer = PeerId 1\<rparr>
     [ConnectionClosed (PeerId 1) 1, ConnectionClosed (PeerId 1) 0] handle_new
   = (False, [ConnectionClosed (PeerId 1) 1, ConnectionClosed (PeerId 1) 0], \<lparr>disconnect_peer = PeerId 1\<rparr>,
      handle_finish (Inr OUnit) handle_new)"
  using disconnect_outcome [of "[ConnectionClosed (PeerId 1) 1]" "PeerId 1" _ _ handle_new "[]"]
  by (simp add: disconnect_mine_def disconnect_on_event_def)

lemma distinct_remdups_adj_sorted:
  "sorted (map f xs) \<Longrightarrow> inj f \<Longrightarrow> distinct (remdups_adj xs)"
proof (induction xs rule: remdups_adj.induct)
  case (3 x y xs)
  show ?case
  proof (cases "x = y")
    case False
    have "x \<notin> set (y # xs)"
    proof
      assume "x \<in> set (y # xs)"
      then have "f y \<le> f x" using "3.prems" by auto
      moreover have "f x \<le> f y" using "3.prems" by simp
      ultimately show False using False \<open>inj f\<close> by (simp add: inj_eq)
    qed
    with False 3 show ?thesis by simp
  qed (use 3 in simp)
qed simp_all

lemma sorted_map_remdups_adj: "sorted (map f xs) \<Longrightarrow> sorted (map f (remdups_adj xs))"
  by (induction xs rule: remdups_adj.induct) auto

text \<open>
  The reachable addresses a node reports are exactly its listen addresses and its external
  addresses, each once and in increasing order, when multiaddresses are ordered by their bytes.
\<close>

theorem reachable_addrs_sorted_set:
  assumes "inj (addr_bytes env)"
  shows "set (reachable_addrs env sw) = set (listeners env sw) \<union> set (external_addresses env sw)
       \<and> distinct (reachable_addrs env sw)
       \<and> sorted (map (addr_bytes env) (reachable_addrs env sw))
       \<and> handle_result (snd (get_listen_addrs_run env sw h)) = Some (Inr (OAddrs (reachable_addrs env sw)))"
  using assms
  by (auto simp: reachable_addrs_def get_listen_addrs_run_def
      intro!: distinct_remdups_adj_sorted [where f = "addr_bytes env"] sorted_map_remdups_adj)

definition sample_history :: "(string, string, nat) swarm" where
  "sample_history = [Polled (NewListenAddr [Ip4 1, Tcp 80]), CallAddExternalAddress [Ip4 1, Tcp 80]]"

theorem reachable_addrs_sorted_set_witness:
  "distinct (reachable_addrs sample_env sample_history)
   \<and> set (reachable_addrs sample_env sample_history) = {[Ip4 1, Tcp 80]}"
  using reachable_addrs_sorted_set [OF inj_sample_addr_bytes, of sample_history handle_new]
  by (simp add: sample_history_def List.map_filter_simps)

end
