(* ===== verification/Kad_Commands.thy ===== *)
theory Kad_Commands
  imports Command_Core
begin

text \<open>
  The Kademlia commands of \<^verbatim>\<open>core/src/command/kad/\<close>. A query command starts a query in \<open>run\<close>, then
  consumes the progress events of its own query, merging their statistics, until the step marked last
  (or an error) completes it. Every other event passes through.
\<close>

section \<open>Statistics\<close>

text \<open>
  \<open>merge_stats\<close>: the value stored is always present afterwards, which is why the code may unwrap it.
\<close>

definition merge_stats :: "('req, 'resp, 'stats) net_env \<Rightarrow> 'stats option \<Rightarrow> 'stats \<Rightarrow> 'stats" where
  "merge_stats env existing incoming =
     (case existing of Some s \<Rightarrow> stats_merge env s incoming | None \<Rightarrow> incoming)"

definition kad_err :: "string \<Rightarrow> lib_error \<Rightarrow> error" where
  "kad_err prefix e = KadError (prefix @ debug_string e)"

section \<open>Bootstrap\<close>

record 'stats bootstrap_command =
  bs_query_id :: "query_id option"
  bs_stats :: "'stats option"

definition bootstrap_new :: "'stats bootstrap_command" where
  "bootstrap_new = \<lparr>bs_query_id = None, bs_stats = None\<rparr>"

definition bootstrap_run ::
  "('req, 'resp, 'stats) net_env \<Rightarrow> 'stats bootstrap_command \<Rightarrow> ('req, 'resp, 'stats) swarm \<Rightarrow> 'resp cmd_handle \<Rightarrow>
   'stats bootstrap_command \<times> ('req, 'resp, 'stats) swarm \<times> 'resp cmd_handle" where
  "bootstrap_run env c sw h =
     (case bootstrap_result env sw of
        Inr q \<Rightarrow> (c\<lparr>bs_query_id := Some q\<rparr>, sw @ [CallKadBootstrap], h)
      | Inl e \<Rightarrow> (c, sw @ [CallKadBootstrap], handle_finish (Inl (KadError ''Bootstrap failed: no known peers'')) h))"

definition bootstrap_on_event ::
  "('req, 'resp, 'stats) net_env \<Rightarrow> 'stats bootstrap_command \<Rightarrow> ('req, 'resp, 'stats) swarm_event \<Rightarrow> 'resp cmd_handle \<Rightarrow>
   ('req, 'resp, 'stats) swarm_event on_event_result \<times> 'stats bootstrap_command \<times> 'resp cmd_handle" where
  "bootstrap_on_event env c event h =
     (case event of
        Behaviour (KadEvent (OutboundQueryProgressed i (QBootstrap res) stats is_last)) \<Rightarrow>
          if bs_query_id c = Some i then
            let st = merge_stats env (bs_stats c) stats; c' = c\<lparr>bs_stats := Some st\<rparr>
            in case res of
                 Inl e \<Rightarrow> ((False, None), c', handle_finish (Inl (kad_err ''Bootstrap: '' e)) h)
               | Inr ok \<Rightarrow>
                   if \<not> is_last then ((True, None), c', h)
                   else ((False, None), c',
                         handle_finish (Inr (OBootstrap
                           \<lparr>br_num_remaining = ok_num_remaining ok, br_stats = stats_info env st\<rparr>)) h)
          else ((True, Some event), c, h)
      | _ \<Rightarrow> ((True, Some event), c, h))"

section \<open>Closest peers\<close>

record 'stats get_closest_peers_command =
  gcpc_key :: record_key
  gcpc_query_id :: "query_id option"
  gcpc_peers :: "peer_id list"
  gcpc_stats :: "'stats option"

definition get_closest_peers_new :: "record_key \<Rightarrow> 'stats get_closest_peers_command" where
  "get_closest_peers_new k = \<lparr>gcpc_key = k, gcpc_query_id = None, gcpc_peers = [], gcpc_stats = None\<rparr>"

definition get_closest_peers_run ::
  "('req, 'resp, 'stats) net_env \<Rightarrow> 'stats get_closest_peers_command \<Rightarrow> ('req, 'resp, 'stats) swarm \<Rightarrow> 'resp cmd_handle \<Rightarrow>
   'stats get_closest_peers_command \<times> ('req, 'resp, 'stats) swarm \<times> 'resp cmd_handle" where
  "get_closest_peers_run env c sw h =
     (c\<lparr>gcpc_query_id := Some (get_closest_peers_query env sw (gcpc_key c))\<rparr>,
      sw @ [CallKadGetClosestPeers (gcpc_key c)], h)"

definition get_closest_peers_on_event ::
  "('req, 'resp, 'stats) net_env \<Rightarrow> 'stats get_closest_peers_command \<Rightarrow> ('req, 'resp, 'stats) swarm_event \<Rightarrow> 'resp cmd_handle \<Rightarrow>
   ('req, 'resp, 'stats) swarm_event on_event_result \<times> 'stats get_closest_peers_command \<times> 'resp cmd_handle" where
  "get_closest_peers_on_event env c event h =
     (case event of
        Behaviour (KadEvent (OutboundQueryProgressed i (QGetClosestPeers res) stats is_last)) \<Rightarrow>
          if gcpc_query_id c = Some i then
            let st = merge_stats env (gcpc_stats c) stats; c1 = c\<lparr>gcpc_stats := Some st\<rparr>
            in case res of
                 Inl e \<Rightarrow> ((False, None), c1, handle_finish (Inl (kad_err ''GetClosestPeers: '' e)) h)
               | Inr infos \<Rightarrow>
                   let c2 = c1\<lparr>gcpc_peers := gcpc_peers c1 @ map fst infos\<rparr>
                   in if \<not> is_last then ((True, None), c2, h)
                      else ((False, None), c2\<lparr>gcpc_peers := []\<rparr>,
                            handle_finish (Inr (OGetClosestPeers
                              \<lparr>gcp_peers = gcpc_peers c2, gcp_stats = stats_info env st\<rparr>)) h)
          else ((True, Some event), c, h)
      | _ \<Rightarrow> ((True, Some event), c, h))"

section \<open>Providers\<close>

record 'stats get_providers_command =
  gpc_key :: record_key
  gpc_query_id :: "query_id option"
  gpc_providers :: "peer_id list"
  gpc_stats :: "'stats option"

definition get_providers_new :: "record_key \<Rightarrow> 'stats get_providers_command" where
  "get_providers_new k = \<lparr>gpc_key = k, gpc_query_id = None, gpc_providers = [], gpc_stats = None\<rparr>"

definition get_providers_run ::
  "('req, 'resp, 'stats) net_env \<Rightarrow> 'stats get_providers_command \<Rightarrow> ('req, 'resp, 'stats) swarm \<Rightarrow> 'resp cmd_handle \<Rightarrow>
   'stats get_providers_command \<times> ('req, 'resp, 'stats) swarm \<times> 'resp cmd_handle" where
  "get_providers_run env c sw h =
     (c\<lparr>gpc_query_id := Some (get_providers_query env sw (gpc_key c))\<rparr>, sw @ [CallKadGetProviders (gpc_key c)], h)"

definition get_providers_on_event ::
  "('req, 'resp, 'stats) net_env \<Rightarrow> 'stats get_providers_command \<Rightarrow> ('req, 'resp, 'stats) swarm_event \<Rightarrow> 'resp cmd_handle \<Rightarrow>
   ('req, 'resp, 'stats) swarm_event on_event_result \<times> 'stats get_providers_command \<times> 'resp cmd_handle" where
  "get_providers_on_event env c event h =
     (case event of
        Behaviour (KadEvent (OutboundQueryProgressed i (QGetProviders res) stats is_last)) \<Rightarrow>
          if gpc_query_id c = Some i then
            let st = merge_stats env (gpc_stats c) stats; c1 = c\<lparr>gpc_stats := Some st\<rparr>
            in case res of
                 Inl e \<Rightarrow> ((False, None), c1, handle_finish (Inl (kad_err ''GetProviders: '' e)) h)
               | Inr ok \<Rightarrow>
                   let c2 = (case ok of FoundProviders ps \<Rightarrow> c1\<lparr>gpc_providers := gpc_providers c1 @ ps\<rparr>
                                      | FinishedProviders closest \<Rightarrow> c1)
                   in if \<not> is_last then ((True, None), c2, h)
                      else ((False, None), c2\<lparr>gpc_providers := []\<rparr>,
                            handle_finish (Inr (OGetProviders
                              \<lparr>gp_providers = gpc_providers c2, gp_stats = stats_info env st\<rparr>)) h)
          else ((True, Some event), c, h)
      | _ \<Rightarrow> ((True, Some event), c, h))"

section \<open>Records\<close>

record 'stats get_record_command =
  grc_key :: record_key
  grc_query_id :: "query_id option"
  grc_record :: "kad_record option"
  grc_stats :: "'stats option"

definition get_record_new :: "record_key \<Rightarrow> 'stats get_record_command" where
  "get_record_new k = \<lparr>grc_key = k, grc_query_id = None, grc_record = None, grc_stats = None\<rparr>"

definition get_record_run ::
  "('req, 'resp, 'stats) net_env \<Rightarrow> 'stats get_record_command \<Rightarrow> ('req, 'resp, 'stats) swarm \<Rightarrow> 'resp cmd_handle \<Rightarrow>
   'stats get_record_command \<times> ('req, 'resp, 'stats) swarm \<times> 'resp cmd_handle" where
  "get_record_run env c sw h =
     (c\<lparr>grc_query_id := Some (get_record_query env sw (grc_key c))\<rparr>, sw @ [CallKadGetRecord (grc_key c)], h)"

text \<open>
  The tail of the handler, after the result of the step has been processed: wait for the last step,
  then return the record that was found, if one was.
\<close>

definition get_record_conclude ::
  "('req, 'resp, 'stats) net_env \<Rightarrow> bool \<Rightarrow> 'stats \<Rightarrow> 'stats get_record_command \<Rightarrow> 'resp cmd_handle \<Rightarrow>
   'e on_event_result \<times> 'stats get_record_command \<times> 'resp cmd_handle" where
  "get_record_conclude env is_last st c h =
     (if \<not> is_last then ((True, None), c, h)
      else case grc_record c of
             Some r \<Rightarrow> ((False, None), c\<lparr>grc_record := None\<rparr>,
                 handle_finish (Inr (OGetRecord \<lparr>gr_record = r, gr_stats = stats_info env st\<rparr>)) h)
           | None \<Rightarrow> ((False, None), c, handle_finish (Inl (KadError ''Record not found'')) h))"

definition get_record_on_event ::
  "('req, 'resp, 'stats) net_env \<Rightarrow> 'stats get_record_command \<Rightarrow> ('req, 'resp, 'stats) swarm_event \<Rightarrow> 'resp cmd_handle \<Rightarrow>
   ('req, 'resp, 'stats) swarm_event on_event_result \<times> 'stats get_record_command \<times> 'resp cmd_handle" where
  "get_record_on_event env c event h =
     (case event of
        Behaviour (KadEvent (OutboundQueryProgressed i (QGetRecord res) stats is_last)) \<Rightarrow>
          if grc_query_id c = Some i then
            let st = merge_stats env (grc_stats c) stats; c1 = c\<lparr>grc_stats := Some st\<rparr>
            in case res of
                 Inr ok \<Rightarrow>
                   let c2 = (case ok of
                               FoundRecord r \<Rightarrow> if grc_record c1 = None then c1\<lparr>grc_record := Some r\<rparr> else c1
                             | FinishedWithNoAdditionalRecord \<Rightarrow> c1)
                   in get_record_conclude env is_last st c2 h
               | Inl e \<Rightarrow>
                   if grc_record c1 = None \<and> is_last
                   then ((False, None), c1, handle_finish (Inl (kad_err ''GetRecord: '' e)) h)
                   else get_record_conclude env is_last st c1 h
          else ((True, Some event), c, h)
      | _ \<Rightarrow> ((True, Some event), c, h))"

record 'stats put_record_command =
  prc_record :: kad_record
  prc_query_id :: "query_id option"
  prc_stats :: "'stats option"

definition put_record_new :: "kad_record \<Rightarrow> 'stats put_record_command" where
  "put_record_new r = \<lparr>prc_record = r, prc_query_id = None, prc_stats = None\<rparr>"

definition put_record_run ::
  "('req, 'resp, 'stats) net_env \<Rightarrow> 'stats put_record_command \<Rightarrow> ('req, 'resp, 'stats) swarm \<Rightarrow> 'resp cmd_handle \<Rightarrow>
   'stats put_record_command \<times> ('req, 'resp, 'stats) swarm \<times> 'resp cmd_handle" where
  "put_record_run env c sw h =
     (case put_record_result env sw (prc_record c) QuorumOne of
        Inr q \<Rightarrow> (c\<lparr>prc_query_id := Some q\<rparr>, sw @ [CallKadPutRecord (prc_record c) QuorumOne], h)
      | Inl e \<Rightarrow> (c, sw @ [CallKadPutRecord (prc_record c) QuorumOne],
                 handle_finish (Inl (KadError (''PutRecord store: '' @ to_string e))) h))"

definition put_record_on_event ::
  "('req, 'resp, 'stats) net_env \<Rightarrow> 'stats put_record_command \<Rightarrow> ('req, 'resp, 'stats) swarm_event \<Rightarrow> 'resp cmd_handle \<Rightarrow>
   ('req, 'resp, 'stats) swarm_event on_event_result \<times> 'stats put_record_command \<times> 'resp cmd_handle" where
  "put_record_on_event env c event h =
     (case event of
        Behaviour (KadEvent (OutboundQueryProgressed i (QPutRecord res) stats is_last)) \<Rightarrow>
          if prc_query_id c = Some i then
            let st = merge_stats env (prc_stats c) stats; c' = c\<lparr>prc_stats := Some st\<rparr>
            in if \<not> is_last then ((True, None), c', h)
               else case res of
                      Inr ok \<Rightarrow> ((False, None), c', handle_finish (Inr (OStats (stats_info env st))) h)
                    | Inl e \<Rightarrow> ((False, None), c', handle_finish (Inl (kad_err ''PutRecord: '' e)) h)
          else ((True, Some event), c, h)
      | _ \<Rightarrow> ((True, Some event), c, h))"

record remove_record_command =
  rrc_key :: record_key

definition remove_record_run ::
  "remove_record_command \<Rightarrow> ('req, 'resp, 'stats) swarm \<Rightarrow> 'resp cmd_handle \<Rightarrow>
   remove_record_command \<times> ('req, 'resp, 'stats) swarm \<times> 'resp cmd_handle" where
  "remove_record_run c sw h = (c, sw @ [CallKadRemoveRecord (rrc_key c)], handle_finish (Inr OUnit) h)"

section \<open>Providing\<close>

record 'stats start_provide_command =
  spc_key :: record_key
  spc_query_id :: "query_id option"
  spc_stats :: "'stats option"

definition start_provide_new :: "record_key \<Rightarrow> 'stats start_provide_command" where
  "start_provide_new k = \<lparr>spc_key = k, spc_query_id = None, spc_stats = None\<rparr>"

definition start_provide_run ::
  "('req, 'resp, 'stats) net_env \<Rightarrow> 'stats start_provide_command \<Rightarrow> ('req, 'resp, 'stats) swarm \<Rightarrow> 'resp cmd_handle \<Rightarrow>
   'stats start_provide_command \<times> ('req, 'resp, 'stats) swarm \<times> 'resp cmd_handle" where
  "start_provide_run env c sw h =
     (case start_providing_result env sw (spc_key c) of
        Inr q \<Rightarrow> (c\<lparr>spc_query_id := Some q\<rparr>, sw @ [CallKadStartProviding (spc_key c)], h)
      | Inl e \<Rightarrow> (c, sw @ [CallKadStartProviding (spc_key c)],
                 handle_finish (Inl (KadError (''StartProviding store: '' @ to_string e))) h))"

definition start_provide_on_event ::
  "('req, 'resp, 'stats) net_env \<Rightarrow> 'stats start_provide_command \<Rightarrow> ('req, 'resp, 'stats) swarm_event \<Rightarrow> 'resp cmd_handle \<Rightarrow>
   ('req, 'resp, 'stats) swarm_event on_event_result \<times> 'stats start_provide_command \<times> 'resp cmd_handle" where
  "start_provide_on_event env c event h =
     (case event of
        Behaviour (KadEvent (OutboundQueryProgressed i (QStartProviding res) stats is_last)) \<Rightarrow>
          if spc_query_id c = Some i then
            let st = merge_stats env (spc_stats c) stats; c' = c\<lparr>spc_stats := Some st\<rparr>
            in if \<not> is_last then ((True, None), c', h)
               else case res of
                      Inr ok \<Rightarrow> ((False, None), c', handle_finish (Inr (OStats (stats_info env st))) h)
                    | Inl e \<Rightarrow> ((False, None), c', handle_finish (Inl (kad_err ''Provide: '' e)) h)
          else ((True, Some event), c, h)
      | _ \<Rightarrow> ((True, Some event), c, h))"

record stop_provide_command =
  stpc_key :: record_key

definition stop_provide_run ::
  "stop_provide_command \<Rightarrow> ('req, 'resp, 'stats) swarm \<Rightarrow> 'resp cmd_handle \<Rightarrow>
   stop_provide_command \<times> ('req, 'resp, 'stats) swarm \<times> 'resp cmd_handle" where
  "stop_provide_run c sw h = (c, sw @ [CallKadStopProviding (stpc_key c)], handle_finish (Inr OUnit) h)"

section \<open>Query steps\<close>

text \<open>
  A step of a query: the result, its statistics, and whether it is the last one. \<open>own_step\<close> reads off an
  event the step of query \<open>q\<close> it carries, for the kind of result that \<open>sel\<close> selects.
\<close>

type_synonym ('ok, 'stats) query_step = "(lib_error + 'ok) \<times> 'stats \<times> bool"

definition own_step ::
  "(query_result \<Rightarrow> (lib_error + 'ok) option) \<Rightarrow> query_id option \<Rightarrow> ('req, 'resp, 'stats) swarm_event \<Rightarrow>
   ('ok, 'stats) query_step option" where
  "own_step sel q e =
     (case e of
        Behaviour (KadEvent (OutboundQueryProgressed i res stats is_last)) \<Rightarrow>
          if q = Some i then map_option (\<lambda>r. (r, stats, is_last)) (sel res) else None
      | _ \<Rightarrow> None)"

fun sel_bootstrap where
  "sel_bootstrap (QBootstrap r) = Some r" | "sel_bootstrap _ = None"
fun sel_closest where
  "sel_closest (QGetClosestPeers r) = Some r" | "sel_closest _ = None"
fun sel_providers where
  "sel_providers (QGetProviders r) = Some r" | "sel_providers _ = None"
fun sel_get_record where
  "sel_get_record (QGetRecord r) = Some r" | "sel_get_record _ = None"
fun sel_put_record where
  "sel_put_record (QPutRecord r) = Some r" | "sel_put_record _ = None"
fun sel_provide where
  "sel_provide (QStartProviding r) = Some r" | "sel_provide _ = None"

lemma own_step_None: "own_step sel None e = None"
  by (simp add: own_step_def split: swarm_event.split core_behaviour_event.split kad_event.split)

lemma own_step_own:
  "own_step sel (Some q) (Behaviour (KadEvent (OutboundQueryProgressed q res stats l))) =
     map_option (\<lambda>r. (r, stats, l)) (sel res)"
  by (simp add: own_step_def)

text \<open>What each command does with a step, in the vocabulary of the query-command contract.\<close>

fun bootstrap_advance where
  "bootstrap_advance env c (res, st, l) = c\<lparr>bs_stats := Some (merge_stats env (bs_stats c) st)\<rparr>"

fun bootstrap_verdict where
  "bootstrap_verdict env c (res, st, l) =
     (case res of
        Inl e \<Rightarrow> Some (Inl (kad_err ''Bootstrap: '' e))
      | Inr ok \<Rightarrow>
          if l then Some (Inr (OBootstrap
                 \<lparr>br_num_remaining = ok_num_remaining ok, br_stats = stats_info env (merge_stats env (bs_stats c) st)\<rparr>))
          else None)"

fun providers_of :: "lib_error + get_providers_ok \<Rightarrow> peer_id list" where
  "providers_of (Inr (FoundProviders ps)) = ps"
| "providers_of _ = []"

fun get_providers_advance where
  "get_providers_advance env c (res, st, l) =
     c\<lparr>gpc_stats := Some (merge_stats env (gpc_stats c) st), gpc_providers := gpc_providers c @ providers_of res\<rparr>"

fun get_providers_verdict where
  "get_providers_verdict env c (res, st, l) =
     (case res of
        Inl e \<Rightarrow> Some (Inl (kad_err ''GetProviders: '' e))
      | Inr ok \<Rightarrow>
          if l then Some (Inr (OGetProviders
                 \<lparr>gp_providers = gpc_providers c @ providers_of res,
                  gp_stats = stats_info env (merge_stats env (gpc_stats c) st)\<rparr>))
          else None)"

definition get_providers_final where
  "get_providers_final env c s =
     (let c' = get_providers_advance env c s in if isl (fst s) then c' else c'\<lparr>gpc_providers := []\<rparr>)"

fun closest_of :: "lib_error + peer_info list \<Rightarrow> peer_id list" where
  "closest_of (Inr infos) = map fst infos"
| "closest_of (Inl _) = []"

fun get_closest_advance where
  "get_closest_advance env c (res, st, l) =
     c\<lparr>gcpc_stats := Some (merge_stats env (gcpc_stats c) st), gcpc_peers := gcpc_peers c @ closest_of res\<rparr>"

fun get_closest_verdict where
  "get_closest_verdict env c (res, st, l) =
     (case res of
        Inl e \<Rightarrow> Some (Inl (kad_err ''GetClosestPeers: '' e))
      | Inr infos \<Rightarrow>
          if l then Some (Inr (OGetClosestPeers
                 \<lparr>gcp_peers = gcpc_peers c @ closest_of res,
                  gcp_stats = stats_info env (merge_stats env (gcpc_stats c) st)\<rparr>))
          else None)"

definition get_closest_final where
  "get_closest_final env c s =
     (let c' = get_closest_advance env c s in if isl (fst s) then c' else c'\<lparr>gcpc_peers := []\<rparr>)"

fun record_of :: "lib_error + get_record_ok \<Rightarrow> kad_record option" where
  "record_of (Inr (FoundRecord r)) = Some r"
| "record_of _ = None"

text \<open>The first of two optional values, as \<open>Option::or\<close>.\<close>

definition option_or :: "'a option \<Rightarrow> 'a option \<Rightarrow> 'a option" where
  "option_or a b = (case a of None \<Rightarrow> b | Some x \<Rightarrow> a)"

fun get_record_advance where
  "get_record_advance env c (res, st, l) =
     c\<lparr>grc_stats := Some (merge_stats env (grc_stats c) st),
       grc_record := option_or (grc_record c) (record_of res)\<rparr>"

fun get_record_verdict where
  "get_record_verdict env c (res, st, l) =
     (if \<not> l then None
      else case option_or (grc_record c) (record_of res) of
             Some r \<Rightarrow> Some (Inr (OGetRecord
                 \<lparr>gr_record = r, gr_stats = stats_info env (merge_stats env (grc_stats c) st)\<rparr>))
           | None \<Rightarrow> (case res of
                 Inl e \<Rightarrow> Some (Inl (kad_err ''GetRecord: '' e))
               | Inr ok \<Rightarrow> Some (Inl (KadError ''Record not found''))))"

definition get_record_final where
  "get_record_final env c s = (get_record_advance env c s)\<lparr>grc_record := None\<rparr>"

fun put_record_advance where
  "put_record_advance env c (res, st, l) = c\<lparr>prc_stats := Some (merge_stats env (prc_stats c) st)\<rparr>"

fun put_record_verdict where
  "put_record_verdict env c (res, st, l) =
     (if \<not> l then None
      else case res of
             Inr ok \<Rightarrow> Some (Inr (OStats (stats_info env (merge_stats env (prc_stats c) st))))
           | Inl e \<Rightarrow> Some (Inl (kad_err ''PutRecord: '' e)))"

fun start_provide_advance where
  "start_provide_advance env c (res, st, l) = c\<lparr>spc_stats := Some (merge_stats env (spc_stats c) st)\<rparr>"

fun start_provide_verdict where
  "start_provide_verdict env c (res, st, l) =
     (if \<not> l then None
      else case res of
             Inr ok \<Rightarrow> Some (Inr (OStats (stats_info env (merge_stats env (spc_stats c) st))))
           | Inl e \<Rightarrow> Some (Inl (kad_err ''Provide: '' e)))"

lemmas event_splits = swarm_event.splits core_behaviour_event.splits kad_event.splits query_result.splits

text \<open>On its own event each handler does what the step says; on any other it does nothing.\<close>

lemma bootstrap_on_event_own:
  "bootstrap_on_event env c e h =
     (case own_step sel_bootstrap (bs_query_id c) e of
        None \<Rightarrow> ((True, Some e), c, h)
      | Some s \<Rightarrow>
          (case bootstrap_verdict env c s of
             None \<Rightarrow> ((True, None), bootstrap_advance env c s, h)
           | Some r \<Rightarrow> ((False, None), bootstrap_advance env c s, handle_finish r h)))"
  by (auto simp: bootstrap_on_event_def own_step_def Let_def split: event_splits sum.splits)

lemma get_providers_on_event_own:
  "get_providers_on_event env c e h =
     (case own_step sel_providers (gpc_query_id c) e of
        None \<Rightarrow> ((True, Some e), c, h)
      | Some s \<Rightarrow>
          (case get_providers_verdict env c s of
             None \<Rightarrow> ((True, None), get_providers_advance env c s, h)
           | Some r \<Rightarrow> ((False, None), get_providers_final env c s, handle_finish r h)))"
  by (auto simp: get_providers_on_event_def own_step_def get_providers_final_def Let_def
      split: event_splits sum.splits get_providers_ok.splits)

lemma get_closest_peers_on_event_own:
  "get_closest_peers_on_event env c e h =
     (case own_step sel_closest (gcpc_query_id c) e of
        None \<Rightarrow> ((True, Some e), c, h)
      | Some s \<Rightarrow>
          (case get_closest_verdict env c s of
             None \<Rightarrow> ((True, None), get_closest_advance env c s, h)
           | Some r \<Rightarrow> ((False, None), get_closest_final env c s, handle_finish r h)))"
  by (auto simp: get_closest_peers_on_event_def own_step_def get_closest_final_def Let_def
      split: event_splits sum.splits)

lemma get_record_on_event_own:
  "get_record_on_event env c e h =
     (case own_step sel_get_record (grc_query_id c) e of
        None \<Rightarrow> ((True, Some e), c, h)
      | Some s \<Rightarrow>
          (case get_record_verdict env c s of
             None \<Rightarrow> ((True, None), get_record_advance env c s, h)
           | Some r \<Rightarrow> ((False, None), get_record_final env c s, handle_finish r h)))"
  by (auto simp: get_record_on_event_def own_step_def get_record_final_def get_record_conclude_def option_or_def Let_def
      split: event_splits sum.splits get_record_ok.splits option.splits)

lemma put_record_on_event_own:
  "put_record_on_event env c e h =
     (case own_step sel_put_record (prc_query_id c) e of
        None \<Rightarrow> ((True, Some e), c, h)
      | Some s \<Rightarrow>
          (case put_record_verdict env c s of
             None \<Rightarrow> ((True, None), put_record_advance env c s, h)
           | Some r \<Rightarrow> ((False, None), put_record_advance env c s, handle_finish r h)))"
  by (auto simp: put_record_on_event_def own_step_def Let_def split: event_splits sum.splits)

lemma start_provide_on_event_own:
  "start_provide_on_event env c e h =
     (case own_step sel_provide (spc_query_id c) e of
        None \<Rightarrow> ((True, Some e), c, h)
      | Some s \<Rightarrow>
          (case start_provide_verdict env c s of
             None \<Rightarrow> ((True, None), start_provide_advance env c s, h)
           | Some r \<Rightarrow> ((False, None), start_provide_advance env c s, handle_finish r h)))"
  by (auto simp: start_provide_on_event_def own_step_def Let_def split: event_splits sum.splits)

interpretation bootstrap: query_command "bootstrap_on_event env" "\<lambda>c. own_step sel_bootstrap (bs_query_id c)"
    "bootstrap_advance env" "bootstrap_verdict env" "bootstrap_advance env"
  by unfold_locales (auto simp: bootstrap_on_event_own)

interpretation get_providers: query_command "get_providers_on_event env" "\<lambda>c. own_step sel_providers (gpc_query_id c)"
    "get_providers_advance env" "get_providers_verdict env" "get_providers_final env"
  by unfold_locales (auto simp: get_providers_on_event_own)

interpretation get_closest: query_command "get_closest_peers_on_event env" "\<lambda>c. own_step sel_closest (gcpc_query_id c)"
    "get_closest_advance env" "get_closest_verdict env" "get_closest_final env"
  by unfold_locales (auto simp: get_closest_peers_on_event_own)

interpretation get_record: query_command "get_record_on_event env" "\<lambda>c. own_step sel_get_record (grc_query_id c)"
    "get_record_advance env" "get_record_verdict env" "get_record_final env"
  by unfold_locales (auto simp: get_record_on_event_own)

interpretation put_record: query_command "put_record_on_event env" "\<lambda>c. own_step sel_put_record (prc_query_id c)"
    "put_record_advance env" "put_record_verdict env" "put_record_advance env"
  by unfold_locales (auto simp: put_record_on_event_own)

interpretation start_provide: query_command "start_provide_on_event env" "\<lambda>c. own_step sel_provide (spc_query_id c)"
    "start_provide_advance env" "start_provide_verdict env" "start_provide_advance env"
  by unfold_locales (auto simp: start_provide_on_event_own)

section \<open>The state after a sequence of steps\<close>

definition own_steps where
  "own_steps sel q es = List.map_filter (own_step sel (Some q)) es"

definition foreign_events where
  "foreign_events sel q es = filter (\<lambda>e. own_step sel (Some q) e = None) es"

definition merged_from where
  "merged_from env acc ss = foldl (\<lambda>acc s. Some (merge_stats env acc (fst (snd s)))) acc ss"

abbreviation merged where
  "merged env ss \<equiv> merged_from env None ss"

lemma foldl_providers:
  "foldl (get_providers_advance env) c ss =
     c\<lparr>gpc_stats := merged_from env (gpc_stats c) ss,
       gpc_providers := gpc_providers c @ concat (map (providers_of \<circ> fst) ss)\<rparr>"
  by (induction ss arbitrary: c) (auto simp: merged_from_def)

lemma foldl_closest:
  "foldl (get_closest_advance env) c ss =
     c\<lparr>gcpc_stats := merged_from env (gcpc_stats c) ss,
       gcpc_peers := gcpc_peers c @ concat (map (closest_of \<circ> fst) ss)\<rparr>"
  by (induction ss arbitrary: c) (auto simp: merged_from_def)

lemma foldl_bootstrap:
  "foldl (bootstrap_advance env) c ss = c\<lparr>bs_stats := merged_from env (bs_stats c) ss\<rparr>"
  by (induction ss arbitrary: c) (auto simp: merged_from_def)

lemma foldl_get_record:
  "foldl (get_record_advance env) c ss =
     c\<lparr>grc_stats := merged_from env (grc_stats c) ss,
       grc_record := foldl option_or (grc_record c) (map (record_of \<circ> fst) ss)\<rparr>"
  by (induction ss arbitrary: c) (auto simp: merged_from_def)

lemma foldl_put_record:
  "foldl (put_record_advance env) c ss = c\<lparr>prc_stats := merged_from env (prc_stats c) ss\<rparr>"
  by (induction ss arbitrary: c) (auto simp: merged_from_def)

lemma foldl_start_provide:
  "foldl (start_provide_advance env) c ss = c\<lparr>spc_stats := merged_from env (spc_stats c) ss\<rparr>"
  by (induction ss arbitrary: c) (auto simp: merged_from_def)

text \<open>Accumulating optional values keeps the first one that is there.\<close>

definition first_of :: "'a list \<Rightarrow> 'a option" where
  "first_of xs = (case xs of [] \<Rightarrow> None | x # _ \<Rightarrow> Some x)"

lemma foldl_option_or: "foldl option_or a (map f xs) = option_or a (first_of (List.map_filter f xs))"
  by (induction xs arbitrary: a)
     (auto simp: option_or_def first_of_def List.map_filter_simps split: option.splits list.splits)

lemma first_of_append: "option_or (first_of xs) (first_of ys) = first_of (xs @ ys)"
  by (cases xs) (simp_all add: option_or_def first_of_def)

text \<open>Steps that are neither last nor errors leave the accumulating commands undecided; for the others
  not being last is enough.\<close>

definition undecided_step :: "('ok, 'stats) query_step \<Rightarrow> bool" where
  "undecided_step s \<longleftrightarrow> \<not> isl (fst s) \<and> \<not> snd (snd s)"

lemma undecided_step_verdict1: "undecided_step s \<Longrightarrow> bootstrap_verdict env c s = None"
  by (cases s) (auto simp: undecided_step_def split: sum.split)

lemma undecided_step_verdict2: "undecided_step s \<Longrightarrow> get_providers_verdict env c s = None"
  by (cases s) (auto simp: undecided_step_def split: sum.split)

lemma undecided_step_verdict3: "undecided_step s \<Longrightarrow> get_closest_verdict env c s = None"
  by (cases s) (auto simp: undecided_step_def split: sum.split)

lemma not_last_verdict1: "\<not> snd (snd s) \<Longrightarrow> get_record_verdict env c s = None"
  by (cases s) simp

lemma not_last_verdict2: "\<not> snd (snd s) \<Longrightarrow> put_record_verdict env c s = None"
  by (cases s) simp

lemma not_last_verdict3: "\<not> snd (snd s) \<Longrightarrow> start_provide_verdict env c s = None"
  by (cases s) simp

lemmas undecided_step_verdicts = undecided_step_verdict1 undecided_step_verdict2 undecided_step_verdict3
lemmas not_last_verdicts = not_last_verdict1 not_last_verdict2 not_last_verdict3

section \<open>Properties\<close>

text \<open>
  A provider lookup returns everything it was told. From the moment its query starts, whatever
  events of others are interleaved, as long as its own steps are neither errors nor last it stays
  active; at the last step it returns the providers of all steps in order, with the statistics of all
  steps merged in order, and at the first error step that error. It consumes its own events only, and
  passes the others on in order.
\<close>

theorem get_providers_collects:
  assumes "q = get_providers_query env sw k"
    and "\<forall>s \<in> set (own_steps sel_providers q es). undecided_step s"
    and "own_step sel_providers (Some q) e = Some (res, st, l)" and "isl res \<or> l"
  shows "snd (get_providers_run env (get_providers_new k) sw h) = (sw @ [CallKadGetProviders k], h)
       \<and> (\<exists>c'. feed (get_providers_on_event env) (fst (get_providers_run env (get_providers_new k) sw h)) (es @ e # es') h
            = (False, foreign_events sel_providers q es @ es', c',
               handle_finish
                 (case res of
                    Inl err \<Rightarrow> Inl (KadError (''GetProviders: '' @ debug_string err))
                  | Inr ok \<Rightarrow> Inr (OGetProviders
                      \<lparr>gp_providers = concat (map (providers_of \<circ> fst) (own_steps sel_providers q es)) @ providers_of res,
                       gp_stats = stats_info env (merge_stats env (merged env (own_steps sel_providers q es)) st)\<rparr>)) h))"
proof -
  let ?c = "(get_providers_new k)\<lparr>gpc_query_id := Some q\<rparr>"
  let ?r = "case res of
      Inl err \<Rightarrow> Inl (KadError (''GetProviders: '' @ debug_string err))
    | Inr ok \<Rightarrow> Inr (OGetProviders
        \<lparr>gp_providers = concat (map (providers_of \<circ> fst) (own_steps sel_providers q es)) @ providers_of res,
         gp_stats = stats_info env (merge_stats env (merged env (own_steps sel_providers q es)) st)\<rparr>)"
  have r: "get_providers_run env (get_providers_new k) sw h = (?c, sw @ [CallKadGetProviders k], h)"
    by (simp add: get_providers_run_def get_providers_new_def assms(1))
  have "get_providers_verdict env (foldl (get_providers_advance env) ?c (own_steps sel_providers q es)) (res, st, l) = Some ?r"
    using assms(4) by (cases res) (simp_all add: foldl_providers get_providers_new_def kad_err_def)
  then show ?thesis
    using get_providers.feed_fold [of ?c es env e "(res, st, l)" ?r es' h] assms(2,3)
    by (auto simp: r own_steps_def foreign_events_def undecided_step_verdicts)
qed

definition sample_progress where
  "sample_progress q r st l = Behaviour (KadEvent (OutboundQueryProgressed (QueryId q) r st l))"

theorem get_providers_collects_witness:
  "\<exists>c'. feed (get_providers_on_event str_env)
      (fst (get_providers_run str_env (get_providers_new [7]) [] handle_new))
      [sample_progress 0 (QGetProviders (Inr (FoundProviders [PeerId 1]))) 2 False, ListenerClosed,
       sample_progress 5 (QGetProviders (Inr (FoundProviders [PeerId 9]))) 2 False,
       sample_progress 0 (QGetProviders (Inr (FoundProviders [PeerId 2, PeerId 3]))) 3 True] handle_new
    = (False, [ListenerClosed, sample_progress 5 (QGetProviders (Inr (FoundProviders [PeerId 9]))) 2 False], c',
       handle_finish (Inr (OGetProviders
         \<lparr>gp_providers = [PeerId 1, PeerId 2, PeerId 3], gp_stats = stats_info str_env 5\<rparr>)) handle_new)"
  using get_providers_collects [of "QueryId 0" str_env "[]" "[7]"
      "[sample_progress 0 (QGetProviders (Inr (FoundProviders [PeerId 1]))) 2 False, ListenerClosed,
        sample_progress 5 (QGetProviders (Inr (FoundProviders [PeerId 9]))) 2 False]"
      "sample_progress 0 (QGetProviders (Inr (FoundProviders [PeerId 2, PeerId 3]))) 3 True"
      "Inr (FoundProviders [PeerId 2, PeerId 3])" 3 True handle_new "[]"]
  by (simp add: sample_progress_def own_steps_def own_step_def foreign_events_def undecided_step_def
      List.map_filter_simps merged_from_def merge_stats_def del: feed.simps)

text \<open>
  A closest-peers lookup returns the peers of all steps of its query in order, with their
  statistics merged in order, at the last step, or the first error; foreign events pass through.
\<close>

theorem get_closest_peers_collects:
  assumes "q = get_closest_peers_query env sw k"
    and "\<forall>s \<in> set (own_steps sel_closest q es). undecided_step s"
    and "own_step sel_closest (Some q) e = Some (res, st, l)" and "isl res \<or> l"
  shows "snd (get_closest_peers_run env (get_closest_peers_new k) sw h) = (sw @ [CallKadGetClosestPeers k], h)
       \<and> (\<exists>c'. feed (get_closest_peers_on_event env) (fst (get_closest_peers_run env (get_closest_peers_new k) sw h))
              (es @ e # es') h
            = (False, foreign_events sel_closest q es @ es', c',
               handle_finish
                 (case res of
                    Inl err \<Rightarrow> Inl (KadError (''GetClosestPeers: '' @ debug_string err))
                  | Inr ok \<Rightarrow> Inr (OGetClosestPeers
                      \<lparr>gcp_peers = concat (map (closest_of \<circ> fst) (own_steps sel_closest q es)) @ map fst ok,
                       gcp_stats = stats_info env (merge_stats env (merged env (own_steps sel_closest q es)) st)\<rparr>)) h))"
proof -
  let ?c = "(get_closest_peers_new k)\<lparr>gcpc_query_id := Some q\<rparr>"
  let ?r = "case res of
      Inl err \<Rightarrow> Inl (KadError (''GetClosestPeers: '' @ debug_string err))
    | Inr ok \<Rightarrow> Inr (OGetClosestPeers
        \<lparr>gcp_peers = concat (map (closest_of \<circ> fst) (own_steps sel_closest q es)) @ map fst ok,
         gcp_stats = stats_info env (merge_stats env (merged env (own_steps sel_closest q es)) st)\<rparr>)"
  have r: "get_closest_peers_run env (get_closest_peers_new k) sw h = (?c, sw @ [CallKadGetClosestPeers k], h)"
    by (simp add: get_closest_peers_run_def get_closest_peers_new_def assms(1))
  have "get_closest_verdict env (foldl (get_closest_advance env) ?c (own_steps sel_closest q es)) (res, st, l) = Some ?r"
    using assms(4) by (cases res) (simp_all add: foldl_closest get_closest_peers_new_def kad_err_def)
  then show ?thesis
    using get_closest.feed_fold [of ?c es env e "(res, st, l)" ?r es' h] assms(2,3)
    by (auto simp: r own_steps_def foreign_events_def undecided_step_verdicts)
qed

theorem get_closest_peers_collects_witness:
  "\<exists>c'. feed (get_closest_peers_on_event str_env)
      (fst (get_closest_peers_run str_env (get_closest_peers_new [7]) [] handle_new))
      [ListenerError, sample_progress 0 (QGetClosestPeers (Inr [(PeerId 1, [])])) 4 True] handle_new
    = (False, [ListenerError], c',
       handle_finish (Inr (OGetClosestPeers
         \<lparr>gcp_peers = [PeerId 1], gcp_stats = stats_info str_env 4\<rparr>)) handle_new)"
  using get_closest_peers_collects [of "QueryId 0" str_env "[]" "[7]"
      "[ListenerError]" "sample_progress 0 (QGetClosestPeers (Inr [(PeerId 1, [])])) 4 True"
      "Inr [(PeerId 1, [])]" 4 True handle_new "[]"]
  by (simp add: sample_progress_def own_steps_def own_step_def foreign_events_def
      List.map_filter_simps merged_from_def merge_stats_def del: feed.simps)

text \<open>
  C27: a record lookup is decided by its last step only, and returns the first record any of its steps
  found, whatever errors came before or after it, also at the last step. If no step found one, it
  fails with the error of the last step, or as not found if that step was no error.
\<close>

theorem get_record_first_found:
  assumes "q = get_record_query env sw k"
    and "\<forall>s \<in> set (own_steps sel_get_record q es). \<not> snd (snd s)"
    and "own_step sel_get_record (Some q) e = Some (res, st, True)"
  shows "snd (get_record_run env (get_record_new k) sw h) = (sw @ [CallKadGetRecord k], h)
       \<and> (\<exists>c'. feed (get_record_on_event env) (fst (get_record_run env (get_record_new k) sw h)) (es @ e # es') h
            = (False, foreign_events sel_get_record q es @ es', c',
               handle_finish
                 (case first_of (List.map_filter (record_of \<circ> fst) (own_steps sel_get_record q es @ [(res, st, True)])) of
                    Some r \<Rightarrow> Inr (OGetRecord
                      \<lparr>gr_record = r,
                       gr_stats = stats_info env (merge_stats env (merged env (own_steps sel_get_record q es)) st)\<rparr>)
                  | None \<Rightarrow> Inl (KadError (case res of
                      Inl err \<Rightarrow> ''GetRecord: '' @ debug_string err | Inr ok \<Rightarrow> ''Record not found''))) h))"
proof -
  let ?c = "(get_record_new k)\<lparr>grc_query_id := Some q\<rparr>"
  let ?ss = "own_steps sel_get_record q es"
  let ?r = "case first_of (List.map_filter (record_of \<circ> fst) (?ss @ [(res, st, True)])) of
      Some r \<Rightarrow> Inr (OGetRecord \<lparr>gr_record = r, gr_stats = stats_info env (merge_stats env (merged env ?ss) st)\<rparr>)
    | None \<Rightarrow> Inl (KadError (case res of
                      Inl err \<Rightarrow> ''GetRecord: '' @ debug_string err | Inr ok \<Rightarrow> ''Record not found''))"
  have r: "get_record_run env (get_record_new k) sw h = (?c, sw @ [CallKadGetRecord k], h)"
    by (simp add: get_record_run_def get_record_new_def assms(1))
  have o: "option_or None x = x" for x :: "kad_record option" by (simp add: option_or_def)
  have f: "option_or (first_of (List.map_filter (record_of \<circ> fst) ?ss)) (record_of res) =
      first_of (List.map_filter (record_of \<circ> fst) (?ss @ [(res, st, True)]))"
    by (cases "record_of res")
       (auto simp: first_of_def option_or_def List.map_filter_def split: list.splits)
  have "get_record_verdict env (foldl (get_record_advance env) ?c ?ss) (res, st, True) = Some ?r"
    using f by (auto simp: foldl_get_record foldl_option_or o get_record_new_def kad_err_def
        split: option.splits sum.splits)
  then show ?thesis
    using get_record.feed_fold [of ?c es env e "(res, st, True)" ?r es' h] assms(2,3)
    by (auto simp: r own_steps_def foreign_events_def not_last_verdicts)
qed

theorem get_record_first_found_witness:
  "\<exists>c'. feed (get_record_on_event str_env)
      (fst (get_record_run str_env (get_record_new [7]) [] handle_new))
      [sample_progress 0 (QGetRecord (Inl \<lparr>to_string = [], debug_string = []\<rparr>)) 2 False,
       sample_progress 0 (QGetRecord (Inr (FoundRecord
         \<lparr>record_key = [7], record_value = [1], record_publisher = None, record_expires = None\<rparr>))) 2 False,
       sample_progress 0 (QGetRecord (Inl \<lparr>to_string = [], debug_string = []\<rparr>)) 2 True] handle_new
    = (False, [], c', handle_finish (Inr (OGetRecord
         \<lparr>gr_record = \<lparr>record_key = [7], record_value = [1], record_publisher = None, record_expires = None\<rparr>,
          gr_stats = stats_info str_env 6\<rparr>)) handle_new)"
  using get_record_first_found [of "QueryId 0" str_env "[]" "[7]"
      "[sample_progress 0 (QGetRecord (Inl \<lparr>to_string = [], debug_string = []\<rparr>)) 2 False,
       sample_progress 0 (QGetRecord (Inr (FoundRecord
         \<lparr>record_key = [7], record_value = [1], record_publisher = None, record_expires = None\<rparr>))) 2 False]"
      "sample_progress 0 (QGetRecord (Inl \<lparr>to_string = [], debug_string = []\<rparr>)) 2 True"
      "Inl \<lparr>to_string = [], debug_string = []\<rparr>" 2 handle_new "[]"]
  by (simp add: sample_progress_def own_steps_def own_step_def foreign_events_def first_of_def
      List.map_filter_simps merged_from_def merge_stats_def del: feed.simps)

text \<open>
  Storing a record is judged by the last step of its query alone. Steps before it, errors included,
  only contribute their statistics; the last one decides between success with the merged statistics and
  its error. Events of others pass through.
\<close>

theorem put_record_last_decides:
  assumes "put_record_result env sw r QuorumOne = Inr q"
    and "\<forall>s \<in> set (own_steps sel_put_record q es). \<not> snd (snd s)"
    and "own_step sel_put_record (Some q) e = Some (res, st, True)"
  shows "snd (put_record_run env (put_record_new r) sw h) = (sw @ [CallKadPutRecord r QuorumOne], h)
       \<and> (\<exists>c'. feed (put_record_on_event env) (fst (put_record_run env (put_record_new r) sw h)) (es @ e # es') h
            = (False, foreign_events sel_put_record q es @ es', c',
               handle_finish
                 (case res of
                    Inr ok \<Rightarrow> Inr (OStats (stats_info env (merge_stats env (merged env (own_steps sel_put_record q es)) st)))
                  | Inl err \<Rightarrow> Inl (KadError (''PutRecord: '' @ debug_string err))) h))"
proof -
  let ?c = "(put_record_new r)\<lparr>prc_query_id := Some q\<rparr>"
  let ?r = "case res of
      Inr ok \<Rightarrow> Inr (OStats (stats_info env (merge_stats env (merged env (own_steps sel_put_record q es)) st)))
    | Inl err \<Rightarrow> Inl (KadError (''PutRecord: '' @ debug_string err))"
  have r: "put_record_run env (put_record_new r) sw h = (?c, sw @ [CallKadPutRecord r QuorumOne], h)"
    using assms(1) by (simp add: put_record_run_def put_record_new_def)
  have "put_record_verdict env (foldl (put_record_advance env) ?c (own_steps sel_put_record q es)) (res, st, True) = Some ?r"
    by (cases res) (simp_all add: foldl_put_record put_record_new_def kad_err_def)
  then show ?thesis
    using put_record.feed_fold [of ?c es env e "(res, st, True)" ?r es' h] assms(2,3)
    by (auto simp: r own_steps_def foreign_events_def not_last_verdicts)
qed

definition sample_record :: kad_record where
  "sample_record = \<lparr>record_key = [7], record_value = [1], record_publisher = None, record_expires = None\<rparr>"

definition sample_error :: lib_error where
  "sample_error = \<lparr>to_string = ''failed'', debug_string = ''Failed''\<rparr>"

theorem put_record_last_decides_witness:
  "\<exists>c'. feed (put_record_on_event str_env) (fst (put_record_run str_env (put_record_new sample_record) [] handle_new))
      [sample_progress 0 (QPutRecord (Inl sample_error)) 2 False, ListenerError,
       sample_progress 0 (QPutRecord (Inr [7])) 3 True] handle_new
    = (False, [ListenerError], c', handle_finish (Inr (OStats (stats_info str_env 5))) handle_new)"
  using put_record_last_decides [of str_env "[]" sample_record "QueryId 0"
      "[sample_progress 0 (QPutRecord (Inl sample_error)) 2 False, ListenerError]"
      "sample_progress 0 (QPutRecord (Inr [7])) 3 True" "Inr [7]" 3 handle_new "[]"]
  by (simp add: sample_progress_def own_steps_def own_step_def foreign_events_def
      List.map_filter_simps merged_from_def merge_stats_def del: feed.simps)

text \<open>
  Announcing as a provider is judged by the last step of its query alone, in the same way.
\<close>

theorem start_provide_last_decides:
  assumes "start_providing_result env sw k = Inr q"
    and "\<forall>s \<in> set (own_steps sel_provide q es). \<not> snd (snd s)"
    and "own_step sel_provide (Some q) e = Some (res, st, True)"
  shows "snd (start_provide_run env (start_provide_new k) sw h) = (sw @ [CallKadStartProviding k], h)
       \<and> (\<exists>c'. feed (start_provide_on_event env) (fst (start_provide_run env (start_provide_new k) sw h)) (es @ e # es') h
            = (False, foreign_events sel_provide q es @ es', c',
               handle_finish
                 (case res of
                    Inr ok \<Rightarrow> Inr (OStats (stats_info env (merge_stats env (merged env (own_steps sel_provide q es)) st)))
                  | Inl err \<Rightarrow> Inl (KadError (''Provide: '' @ debug_string err))) h))"
proof -
  let ?c = "(start_provide_new k)\<lparr>spc_query_id := Some q\<rparr>"
  let ?r = "case res of
      Inr ok \<Rightarrow> Inr (OStats (stats_info env (merge_stats env (merged env (own_steps sel_provide q es)) st)))
    | Inl err \<Rightarrow> Inl (KadError (''Provide: '' @ debug_string err))"
  have r: "start_provide_run env (start_provide_new k) sw h = (?c, sw @ [CallKadStartProviding k], h)"
    using assms(1) by (simp add: start_provide_run_def start_provide_new_def)
  have "start_provide_verdict env (foldl (start_provide_advance env) ?c (own_steps sel_provide q es)) (res, st, True) = Some ?r"
    by (cases res) (simp_all add: foldl_start_provide start_provide_new_def kad_err_def)
  then show ?thesis
    using start_provide.feed_fold [of ?c es env e "(res, st, True)" ?r es' h] assms(2,3)
    by (auto simp: r own_steps_def foreign_events_def not_last_verdicts)
qed

theorem start_provide_last_decides_witness:
  "\<exists>c'. feed (start_provide_on_event str_env) (fst (start_provide_run str_env (start_provide_new [7]) [] handle_new))
      [ListenerError, sample_progress 0 (QStartProviding (Inl sample_error)) 3 True] handle_new
    = (False, [ListenerError], c', handle_finish (Inl (KadError ''Provide: Failed'')) handle_new)"
  using start_provide_last_decides [of str_env "[]" "[7]" "QueryId 0" "[ListenerError]"
      "sample_progress 0 (QStartProviding (Inl sample_error)) 3 True" "Inl sample_error" 3 handle_new "[]"]
  by (simp add: sample_progress_def own_steps_def own_step_def foreign_events_def sample_error_def
      List.map_filter_simps merged_from_def merge_stats_def del: feed.simps)

text \<open>
  Joining the network. If the query cannot start, the command fails at once. Otherwise it ends at
  the first error step with that error, or at the last step with the number of peers remaining that
  this last step reports and the statistics of all steps merged in order; events of others pass.
\<close>

theorem bootstrap_outcome:
  assumes "\<forall>s \<in> set (own_steps sel_bootstrap q es). undecided_step s"
    and "own_step sel_bootstrap (Some q) e = Some (res, st, l)" and "isl res \<or> l"
  shows "(\<forall>err. bootstrap_result env sw = Inl err \<longrightarrow>
            bootstrap_run env bootstrap_new sw h =
              (bootstrap_new, sw @ [CallKadBootstrap], handle_finish (Inl (KadError ''Bootstrap failed: no known peers'')) h))
       \<and> (bootstrap_result env sw = Inr q \<longrightarrow>
            snd (bootstrap_run env bootstrap_new sw h) = (sw @ [CallKadBootstrap], h)
          \<and> (\<exists>c'. feed (bootstrap_on_event env) (fst (bootstrap_run env bootstrap_new sw h)) (es @ e # es') h
               = (False, foreign_events sel_bootstrap q es @ es', c',
                  handle_finish
                    (case res of
                       Inl err \<Rightarrow> Inl (KadError (''Bootstrap: '' @ debug_string err))
                     | Inr ok \<Rightarrow> Inr (OBootstrap
                         \<lparr>br_num_remaining = ok_num_remaining ok,
                          br_stats = stats_info env (merge_stats env (merged env (own_steps sel_bootstrap q es)) st)\<rparr>)) h)))"
proof -
  let ?c = "bootstrap_new\<lparr>bs_query_id := Some q\<rparr>"
  let ?r = "case res of
      Inl err \<Rightarrow> Inl (KadError (''Bootstrap: '' @ debug_string err))
    | Inr ok \<Rightarrow> Inr (OBootstrap
        \<lparr>br_num_remaining = ok_num_remaining ok,
         br_stats = stats_info env (merge_stats env (merged env (own_steps sel_bootstrap q es)) st)\<rparr>)"
  have "bootstrap_verdict env (foldl (bootstrap_advance env) ?c (own_steps sel_bootstrap q es)) (res, st, l) = Some ?r"
    using assms(3) by (cases res) (simp_all add: foldl_bootstrap bootstrap_new_def kad_err_def)
  then show ?thesis
    using bootstrap.feed_fold [of ?c es env e "(res, st, l)" ?r es' h] assms(1,2)
    by (auto simp: bootstrap_run_def own_steps_def foreign_events_def undecided_step_verdicts)
qed

theorem bootstrap_outcome_witness:
  "\<exists>c'. feed (bootstrap_on_event str_env) (fst (bootstrap_run str_env bootstrap_new [] handle_new))
      [sample_progress 0 (QBootstrap (Inr \<lparr>ok_peer = PeerId 4, ok_num_remaining = 9\<rparr>)) 2 False,
       sample_progress 0 (QBootstrap (Inr \<lparr>ok_peer = PeerId 4, ok_num_remaining = 0\<rparr>)) 3 True] handle_new
    = (False, [], c', handle_finish (Inr (OBootstrap
         \<lparr>br_num_remaining = 0, br_stats = stats_info str_env 5\<rparr>)) handle_new)"
  using bootstrap_outcome [of "QueryId 0"
      "[sample_progress 0 (QBootstrap (Inr \<lparr>ok_peer = PeerId 4, ok_num_remaining = 9\<rparr>)) 2 False]"
      "sample_progress 0 (QBootstrap (Inr \<lparr>ok_peer = PeerId 4, ok_num_remaining = 0\<rparr>)) 3 True"
      "Inr \<lparr>ok_peer = PeerId 4, ok_num_remaining = 0\<rparr>" 3 True str_env "[]" handle_new "[]"]
  by (simp add: sample_progress_def own_steps_def own_step_def foreign_events_def undecided_step_def
      List.map_filter_simps merged_from_def merge_stats_def del: feed.simps)

end
