(* ===== verification/Req_Resp_Commands.thy ===== *)
theory Req_Resp_Commands
  imports Command_Core
begin

text \<open>
  The request-response commands of \<^verbatim>\<open>core/src/command/req_resp/\<close>: sending a request and waiting for the
  answer that carries its identifier, and sending the response to an inbound request.
\<close>

section \<open>Sending a request\<close>

record 'req send_request_command =
  sr_peer_id :: peer_id
  sr_request :: "'req option"
  sr_request_id :: "outbound_request_id option"

definition send_request_new :: "peer_id \<Rightarrow> 'req \<Rightarrow> 'req send_request_command" where
  "send_request_new p r = \<lparr>sr_peer_id = p, sr_request = Some r, sr_request_id = None\<rparr>"

fun map_outbound_failure :: "outbound_failure \<Rightarrow> error" where
  "map_outbound_failure OutboundDialFailure = NetworkError DialFailureKind"
| "map_outbound_failure OutboundTimeout = NetworkError TimeoutKind"
| "map_outbound_failure OutboundConnectionClosed = NetworkError ConnectionClosedKind"
| "map_outbound_failure OutboundUnsupportedProtocols = NetworkError UnsupportedProtocolKind"
| "map_outbound_failure (OutboundIo e) = NetworkError UnknownKind"

definition send_request_run ::
  "('req, 'resp, 'stats) net_env \<Rightarrow> 'req send_request_command \<Rightarrow> ('req, 'resp, 'stats) swarm \<Rightarrow> 'resp cmd_handle \<Rightarrow>
   'req send_request_command \<times> ('req, 'resp, 'stats) swarm \<times> 'resp cmd_handle" where
  "send_request_run env c sw h =
     (case sr_request c of
        None \<Rightarrow> (c, sw, handle_finish (Inl (RequestResponseError ''SendRequest: run called twice'')) h)
      | Some r \<Rightarrow>
          (c\<lparr>sr_request := None, sr_request_id := Some (send_request_query env sw (sr_peer_id c) r)\<rparr>,
           sw @ [CallSendRequest (sr_peer_id c) r], h))"

definition send_request_on_event ::
  "'req send_request_command \<Rightarrow> ('req, 'resp, 'stats) swarm_event \<Rightarrow> 'resp cmd_handle \<Rightarrow>
   ('req, 'resp, 'stats) swarm_event on_event_result \<times> 'req send_request_command \<times> 'resp cmd_handle" where
  "send_request_on_event c event h =
     (case event of
        Behaviour (ReqRespEvent (Message peer (Response request_id response))) \<Rightarrow>
          if sr_request_id c = Some request_id \<and> peer = sr_peer_id c
          then ((False, None), c, handle_finish (Inr (OResponse response)) h)
          else ((True, Some event), c, h)
      | Behaviour (ReqRespEvent (OutboundFailure peer request_id err)) \<Rightarrow>
          if sr_request_id c = Some request_id \<and> peer = sr_peer_id c
          then ((False, None), c, handle_finish (Inl (map_outbound_failure err)) h)
          else ((True, Some event), c, h)
      | _ \<Rightarrow> ((True, Some event), c, h))"

section \<open>Sending a response\<close>

record 'resp send_response_command =
  srp_channel :: "response_channel option"
  srp_response :: "'resp option"

definition send_response_new :: "response_channel \<Rightarrow> 'resp \<Rightarrow> 'resp send_response_command" where
  "send_response_new ch r = \<lparr>srp_channel = Some ch, srp_response = Some r\<rparr>"

definition send_response_run ::
  "('req, 'resp, 'stats) net_env \<Rightarrow> 'resp send_response_command \<Rightarrow> ('req, 'resp, 'stats) swarm \<Rightarrow> 'resp cmd_handle \<Rightarrow>
   'resp send_response_command \<times> ('req, 'resp, 'stats) swarm \<times> 'resp cmd_handle" where
  "send_response_run env c sw h =
     (let c' = c\<lparr>srp_channel := None, srp_response := None\<rparr>
      in case (srp_channel c, srp_response c) of
           (Some ch, Some r) \<Rightarrow>
             (c', sw @ [CallSendResponse ch r],
              handle_finish
                (if send_response_ok env sw ch r then Inr OUnit
                 else Inl (RequestResponseError ''Failed to send response: channel closed'')) h)
         | _ \<Rightarrow> (c', sw, handle_finish (Inl (RequestResponseError ''SendResponse: run called twice'')) h))"

section \<open>The contract of a waiting command\<close>

definition send_request_mine :: "'req send_request_command \<Rightarrow> ('req, 'resp, 'stats) swarm_event \<Rightarrow> bool" where
  "send_request_mine c event \<longleftrightarrow>
     (case event of
        Behaviour (ReqRespEvent (Message peer (Response request_id response))) \<Rightarrow>
          sr_request_id c = Some request_id \<and> peer = sr_peer_id c
      | Behaviour (ReqRespEvent (OutboundFailure peer request_id err)) \<Rightarrow>
          sr_request_id c = Some request_id \<and> peer = sr_peer_id c
      | _ \<Rightarrow> False)"

interpretation send_request: waiting_command send_request_on_event send_request_mine
  by unfold_locales
     (auto simp: send_request_on_event_def send_request_mine_def
       split: swarm_event.splits core_behaviour_event.splits req_resp_event.splits message.splits)

section \<open>Properties\<close>

text \<open>
  C28: a request gets its own answer. Running the command sends the request once, to its peer. Then,
  whatever other events come first, responses and failures of other requests or other peers
  included, it stays active without effect, until the response with its identifier from its peer, which
  it returns, or the failure of its request, which it returns as the network failure of that kind; both
  are consumed, and all other events pass. Running the command again fails without sending anything.
\<close>

theorem request_gets_its_answer:
  assumes "q = send_request_query env sw p r"
    and "c = fst (send_request_run env (send_request_new p r) sw h)"
    and "\<forall>e \<in> set es. \<not> send_request_mine c e"
  shows "snd (send_request_run env (send_request_new p r) sw h) = (sw @ [CallSendRequest p r], h)
       \<and> feed send_request_on_event c es h = (True, es, c, h)
       \<and> feed send_request_on_event c (es @ Behaviour (ReqRespEvent (Message p (Response q resp))) # es') h =
            (False, es @ es', c, handle_finish (Inr (OResponse resp)) h)
       \<and> feed send_request_on_event c (es @ Behaviour (ReqRespEvent (OutboundFailure p q f)) # es') h =
            (False, es @ es', c, handle_finish (Inl (map_outbound_failure f)) h)
       \<and> send_request_run env c sw' h =
            (c, sw', handle_finish (Inl (RequestResponseError ''SendRequest: run called twice'')) h)"
proof -
  have c: "c = \<lparr>sr_peer_id = p, sr_request = None, sr_request_id = Some q\<rparr>"
    using assms(1,2) by (simp add: send_request_run_def send_request_new_def)
  note m = assms(3) [unfolded c]
  show ?thesis
    unfolding c using send_request.feed_foreign [OF m] send_request.feed_until_mine [OF m]
    by (simp add: send_request_run_def send_request_new_def send_request_on_event_def assms(1))
qed

definition sample_request :: "string send_request_command" where
  "sample_request = \<lparr>sr_peer_id = PeerId 1, sr_request = None, sr_request_id = Some (OutboundRequestId 0)\<rparr>"

theorem request_gets_its_answer_witness:
  "feed send_request_on_event sample_request
     [Behaviour (ReqRespEvent (Message (PeerId 2) (Response (OutboundRequestId 0) ''other''))) :: (string, string, nat) swarm_event,
      Behaviour (ReqRespEvent (OutboundFailure (PeerId 1) (OutboundRequestId 3) OutboundTimeout)),
      Behaviour (ReqRespEvent (Message (PeerId 1) (Response (OutboundRequestId 0) ''mine'')))] handle_new
   = (False,
      [Behaviour (ReqRespEvent (Message (PeerId 2) (Response (OutboundRequestId 0) ''other''))),
       Behaviour (ReqRespEvent (OutboundFailure (PeerId 1) (OutboundRequestId 3) OutboundTimeout))],
      sample_request, handle_finish (Inr (OResponse ''mine'')) handle_new)"
  using request_gets_its_answer [of "OutboundRequestId 0" str_env "[]" "PeerId 1" "''ping''" sample_request handle_new
      "[Behaviour (ReqRespEvent (Message (PeerId 2) (Response (OutboundRequestId 0) ''other'')))
          :: (string, string, nat) swarm_event,
        Behaviour (ReqRespEvent (OutboundFailure (PeerId 1) (OutboundRequestId 3) OutboundTimeout))]" "''mine''" "[]" OutboundTimeout "[]"]
  by (simp add: sample_request_def send_request_run_def send_request_new_def send_request_mine_def del: feed.simps)

text \<open>
  A response is sent at most once over its channel. The first run hands the channel and the response
  to the swarm and returns whether the channel was still open; any later run sends nothing and fails.
\<close>

theorem response_sent_once:
  "let (c, sw1, h1) = send_response_run env (send_response_new ch r) sw h;
       (c', sw2, h2) = send_response_run env c sw' h'
   in sw1 = sw @ [CallSendResponse ch r]
    \<and> handle_result h1 = Some (if send_response_ok env sw ch r then Inr OUnit
                               else Inl (RequestResponseError ''Failed to send response: channel closed''))
    \<and> sw2 = sw' \<and> c' = c
    \<and> handle_result h2 = Some (Inl (RequestResponseError ''SendResponse: run called twice''))"
  by (simp add: send_response_run_def send_response_new_def Let_def)

end
