(* ===== verification/Command_Dispatch.thy ===== *)
theory Command_Dispatch
  imports Basic_Commands Kad_Commands Req_Resp_Commands
begin

text \<open>
  The command trait of \<^verbatim>\<open>core/src/command/handler.rs\<close> as one sum of all commands with the three operations
  the event loop calls through the trait object, and the task that pairs a command with the handle it
  shares with its future. The handles live in a store indexed by their address.
\<close>

section \<open>All commands\<close>

datatype ('req, 'resp, 'stats) handler =
    HDial dial_command
  | HDisconnect disconnect_command
  | HIsConnected is_connected_command
  | HGetListenAddrs
  | HAddPeerAddrs add_peer_addrs_command
  | HAddInfrastructurePeer add_infrastructure_peer_command
  | HSendRequest "'req send_request_command"
  | HSendResponse "'resp send_response_command"
  | HBootstrap "'stats bootstrap_command"
  | HGetClosestPeers "'stats get_closest_peers_command"
  | HGetProviders "'stats get_providers_command"
  | HGetRecord "'stats get_record_command"
  | HPutRecord "'stats put_record_command"
  | HRemoveRecord remove_record_command
  | HStartProvide "'stats start_provide_command"
  | HStopProvide stop_provide_command

fun handler_run ::
  "('req, 'resp, 'stats) net_env \<Rightarrow> ('req, 'resp, 'stats) handler \<Rightarrow> ('req, 'resp, 'stats) swarm \<Rightarrow> 'resp cmd_handle \<Rightarrow>
   ('req, 'resp, 'stats) handler \<times> ('req, 'resp, 'stats) swarm \<times> 'resp cmd_handle" where
  "handler_run env (HDial c) sw h = apfst HDial (dial_run env c sw h)"
| "handler_run env (HDisconnect c) sw h = apfst HDisconnect (disconnect_run env c sw h)"
| "handler_run env (HIsConnected c) sw h = apfst HIsConnected (is_connected_run env c sw h)"
| "handler_run env HGetListenAddrs sw h = (HGetListenAddrs, get_listen_addrs_run env sw h)"
| "handler_run env (HAddPeerAddrs c) sw h = apfst HAddPeerAddrs (add_peer_addrs_run c sw h)"
| "handler_run env (HAddInfrastructurePeer c) sw h =
     apfst HAddInfrastructurePeer (add_infrastructure_peer_run env c sw h)"
| "handler_run env (HSendRequest c) sw h = apfst HSendRequest (send_request_run env c sw h)"
| "handler_run env (HSendResponse c) sw h = apfst HSendResponse (send_response_run env c sw h)"
| "handler_run env (HBootstrap c) sw h = apfst HBootstrap (bootstrap_run env c sw h)"
| "handler_run env (HGetClosestPeers c) sw h = apfst HGetClosestPeers (get_closest_peers_run env c sw h)"
| "handler_run env (HGetProviders c) sw h = apfst HGetProviders (get_providers_run env c sw h)"
| "handler_run env (HGetRecord c) sw h = apfst HGetRecord (get_record_run env c sw h)"
| "handler_run env (HPutRecord c) sw h = apfst HPutRecord (put_record_run env c sw h)"
| "handler_run env (HRemoveRecord c) sw h = apfst HRemoveRecord (remove_record_run c sw h)"
| "handler_run env (HStartProvide c) sw h = apfst HStartProvide (start_provide_run env c sw h)"
| "handler_run env (HStopProvide c) sw h = apfst HStopProvide (stop_provide_run c sw h)"

text \<open>Commands without an event handler of their own have the one of the trait: done, event passed on.\<close>

definition default_on_event :: "'e \<Rightarrow> 'e on_event_result" where
  "default_on_event event = (False, Some event)"

fun handler_on_event ::
  "('req, 'resp, 'stats) net_env \<Rightarrow> ('req, 'resp, 'stats) handler \<Rightarrow> ('req, 'resp, 'stats) swarm_event \<Rightarrow> 'resp cmd_handle \<Rightarrow>
   ('req, 'resp, 'stats) swarm_event on_event_result \<times> ('req, 'resp, 'stats) handler \<times> 'resp cmd_handle" where
  "handler_on_event env (HDial c) e h = apsnd (apfst HDial) (dial_on_event c e h)"
| "handler_on_event env (HDisconnect c) e h = apsnd (apfst HDisconnect) (disconnect_on_event c e h)"
| "handler_on_event env (HSendRequest c) e h = apsnd (apfst HSendRequest) (send_request_on_event c e h)"
| "handler_on_event env (HBootstrap c) e h = apsnd (apfst HBootstrap) (bootstrap_on_event env c e h)"
| "handler_on_event env (HGetClosestPeers c) e h =
     apsnd (apfst HGetClosestPeers) (get_closest_peers_on_event env c e h)"
| "handler_on_event env (HGetProviders c) e h = apsnd (apfst HGetProviders) (get_providers_on_event env c e h)"
| "handler_on_event env (HGetRecord c) e h = apsnd (apfst HGetRecord) (get_record_on_event env c e h)"
| "handler_on_event env (HPutRecord c) e h = apsnd (apfst HPutRecord) (put_record_on_event env c e h)"
| "handler_on_event env (HStartProvide c) e h = apsnd (apfst HStartProvide) (start_provide_on_event env c e h)"
| "handler_on_event env c e h = (default_on_event e, c, h)"

fun handler_take_relay ::
  "('req, 'resp, 'stats) handler \<Rightarrow> (peer_id \<times> multiaddr list) option \<times> ('req, 'resp, 'stats) handler" where
  "handler_take_relay (HAddInfrastructurePeer c) =
     apsnd HAddInfrastructurePeer (add_infrastructure_peer_take_relay c)"
| "handler_take_relay c = (None, c)"

section \<open>Tasks\<close>

record ('req, 'resp, 'stats) command_task =
  task_handler :: "('req, 'resp, 'stats) handler"
  task_handle :: nat

type_synonym 'resp handle_store = "nat \<Rightarrow> 'resp cmd_handle"

definition task_run where
  "task_run env t sw st =
     (case handler_run env (task_handler t) sw (st (task_handle t)) of
        (c, sw', h) \<Rightarrow> (t\<lparr>task_handler := c\<rparr>, sw', st(task_handle t := h)))"

definition task_on_event where
  "task_on_event env t e st =
     (case handler_on_event env (task_handler t) e (st (task_handle t)) of
        (r, c, h) \<Rightarrow> (r, t\<lparr>task_handler := c\<rparr>, st(task_handle t := h)))"

definition task_take_relay where
  "task_take_relay t = apsnd (\<lambda>c. t\<lparr>task_handler := c\<rparr>) (handler_take_relay (task_handler t))"

definition task_is_cancelled where
  "task_is_cancelled st t = handle_is_cancelled (st (task_handle t))"

section \<open>What an event can do to a command\<close>

text \<open>The events some command may keep for itself: query progress, responses and outbound failures.\<close>

fun consumable :: "('req, 'resp, 'stats) swarm_event \<Rightarrow> bool" where
  "consumable (Behaviour (KadEvent (OutboundQueryProgressed i r s l))) = True"
| "consumable (Behaviour (ReqRespEvent (Message p (Response i r)))) = True"
| "consumable (Behaviour (ReqRespEvent (OutboundFailure p i f))) = True"
| "consumable _ = False"

lemmas kad_on_event_own = bootstrap_on_event_own get_providers_on_event_own get_closest_peers_on_event_own
  get_record_on_event_own put_record_on_event_own start_provide_on_event_own

lemma own_step_consumable: "own_step sel q e = Some s \<Longrightarrow> consumable e"
  by (auto simp: own_step_def split: swarm_event.splits core_behaviour_event.splits kad_event.splits)

lemma own_step_not_consumable: "\<not> consumable e \<Longrightarrow> own_step sel q e = None"
  by (cases "own_step sel q e") (auto dest: own_step_consumable)

lemma send_request_mine_consumable: "send_request_mine c e \<Longrightarrow> consumable e"
  by (cases e rule: consumable.cases) (auto simp: send_request_mine_def)

lemma dial_passes: "snd (fst (dial_on_event c e h)) = Some e"
  by (auto simp: dial_on_event_def split: swarm_event.splits option.splits)

lemma disconnect_passes: "snd (fst (disconnect_on_event c e h)) = Some e"
  by (auto simp: disconnect_on_event_def split: swarm_event.splits)

lemma send_request_passes:
  "snd (fst (send_request_on_event c e h)) = (if send_request_mine c e then None else Some e)"
  by (auto simp: send_request_on_event_def send_request_mine_def
      split: swarm_event.splits core_behaviour_event.splits req_resp_event.splits message.splits)

lemma handler_returned:
  "snd (fst (handler_on_event env c e h)) \<in> {None, Some e}"
  by (cases c)
     (auto simp: dial_passes disconnect_passes send_request_passes default_on_event_def kad_on_event_own
       split: option.splits)

lemma handler_passes:
  assumes "\<not> consumable e"
  shows "snd (fst (handler_on_event env c e h)) = Some e"
  using assms send_request_mine_consumable [of _ e]
  by (cases c)
     (auto simp: dial_passes disconnect_passes send_request_passes default_on_event_def kad_on_event_own
       own_step_not_consumable)

section \<open>The results of the commands\<close>

text \<open>The result type each command declares, as the shape of the values it finishes with.\<close>

fun has_result_type :: "('req, 'resp, 'stats) handler \<Rightarrow> 'resp cmd_output \<Rightarrow> bool" where
  "has_result_type (HDial _) v \<longleftrightarrow> v = OUnit"
| "has_result_type (HDisconnect _) v \<longleftrightarrow> v = OUnit"
| "has_result_type (HIsConnected _) v \<longleftrightarrow> (\<exists>b. v = OBool b)"
| "has_result_type HGetListenAddrs v \<longleftrightarrow> (\<exists>as. v = OAddrs as)"
| "has_result_type (HAddPeerAddrs _) v \<longleftrightarrow> v = OUnit"
| "has_result_type (HAddInfrastructurePeer _) v \<longleftrightarrow> v = OUnit"
| "has_result_type (HSendRequest _) v \<longleftrightarrow> (\<exists>r. v = OResponse r)"
| "has_result_type (HSendResponse _) v \<longleftrightarrow> v = OUnit"
| "has_result_type (HBootstrap _) v \<longleftrightarrow> (\<exists>r. v = OBootstrap r)"
| "has_result_type (HGetClosestPeers _) v \<longleftrightarrow> (\<exists>r. v = OGetClosestPeers r)"
| "has_result_type (HGetProviders _) v \<longleftrightarrow> (\<exists>r. v = OGetProviders r)"
| "has_result_type (HGetRecord _) v \<longleftrightarrow> (\<exists>r. v = OGetRecord r)"
| "has_result_type (HPutRecord _) v \<longleftrightarrow> (\<exists>s. v = OStats s)"
| "has_result_type (HRemoveRecord _) v \<longleftrightarrow> v = OUnit"
| "has_result_type (HStartProvide _) v \<longleftrightarrow> (\<exists>s. v = OStats s)"
| "has_result_type (HStopProvide _) v \<longleftrightarrow> v = OUnit"

definition well_typed :: "('req, 'resp, 'stats) handler \<Rightarrow> 'resp cmd_handle \<Rightarrow> bool" where
  "well_typed c h \<longleftrightarrow> (\<forall>v. handle_result h = Some (Inr v) \<longrightarrow> has_result_type c v)"

lemma well_typed_finish [simp]:
  "well_typed c (handle_finish r h) \<longleftrightarrow> (\<forall>v. r = Inr v \<longrightarrow> has_result_type c v)"
  by (auto simp: well_typed_def)

lemma well_typed_new [simp]: "well_typed c handle_new"
  by (simp add: well_typed_def)

lemma well_typed_same: "has_result_type c = has_result_type c' \<Longrightarrow> well_typed c h = well_typed c' h"
  by (simp add: well_typed_def)

lemma handler_run_typed:
  assumes "handler_run env c sw h = (c', sw', h')" and "well_typed c h"
  shows "well_typed c' h' \<and> has_result_type c' = has_result_type c"
  using assms
  by (cases c)
     (auto simp: dial_run_def disconnect_run_def is_connected_run_def get_listen_addrs_run_def
       add_peer_addrs_run_def add_infrastructure_peer_run_def send_request_run_def send_response_run_def
       bootstrap_run_def get_closest_peers_run_def get_providers_run_def get_record_run_def put_record_run_def
       remove_record_run_def start_provide_run_def stop_provide_run_def apfst_def map_prod_def Let_def
       well_typed_def swarm_call_defs fun_eq_iff
       split: option.splits if_splits sum.splits bool.splits)

lemma handler_on_event_typed:
  assumes "handler_on_event env c e h = (r, c', h')" and "well_typed c h"
  shows "well_typed c' h' \<and> has_result_type c' = has_result_type c"
  using assms
  by (cases c)
     (auto simp: dial_on_event_def disconnect_on_event_def send_request_on_event_def kad_on_event_own
       default_on_event_def well_typed_def fun_eq_iff
       split: sum.splits option.splits if_splits swarm_event.splits core_behaviour_event.splits req_resp_event.splits
         message.splits)

section \<open>Properties\<close>

text \<open>A command's whole life: one run, then any events, with the final handler and handle.\<close>

fun handler_feed where
  "handler_feed env c [] h = (c, h)"
| "handler_feed env c (e # es) h = (case handler_on_event env c e h of (r, c', h') \<Rightarrow> handler_feed env c' es h')"

lemma handler_feed_typed:
  assumes "handler_feed env c es h = (c', h')" and "well_typed c h"
  shows "well_typed c' h' \<and> has_result_type c' = has_result_type c"
  using assms
proof (induction es arbitrary: c h)
  case (Cons e es)
  obtain r c1 h1 where s: "handler_on_event env c e h = (r, c1, h1)" by (metis prod_cases3)
  with Cons show ?case using handler_on_event_typed [OF s] by auto
qed simp

text \<open>
  Every command finishes only with values of its own result type. Whatever the network answers when
  it runs and whatever events it is offered afterwards, a success in its handle has the shape its
  handler declares: a dial returns unit, a provider lookup a provider list, a request a response.
\<close>

theorem command_results_typed:
  assumes "handler_run env c sw handle_new = (c1, sw1, h1)"
    and "handler_feed env c1 es h1 = (c2, h2)"
    and "handle_result h2 = Some (Inr v)"
  shows "has_result_type c v"
  using handler_run_typed [OF assms(1)] handler_feed_typed [OF assms(2)] assms(3)
  by (auto simp: well_typed_def)

theorem command_results_typed_witness:
  "has_result_type (HDial \<lparr>dial_peer = PeerId 1\<rparr> :: (string, string, nat) handler) OUnit"
  using command_results_typed [of str_env "HDial \<lparr>dial_peer = PeerId 1\<rparr>" "[]" "HDial \<lparr>dial_peer = PeerId 1\<rparr>"
      "[CallDial (PeerId 1)]" handle_new "[ListenerError, ConnectionEstablished (PeerId 1) 1]"
      "HDial \<lparr>dial_peer = PeerId 1\<rparr>" "handle_finish (Inr OUnit) handle_new" OUnit]
  by (simp add: dial_run_def dial_on_event_def swarm_dial_def)

text \<open>
  Commands never take an event from the application. A command can keep only query progress, a
  response or an outbound failure, and only one of its own; every other event, new connections, inbound
  requests, identification, addresses and all the rest, it hands back exactly as it got it.
\<close>

theorem commands_pass_application_events:
  "snd (fst (handler_on_event env c e h)) \<in> {None, Some e}
   \<and> (snd (fst (handler_on_event env c e h)) = None \<longrightarrow> consumable e)"
  using handler_returned [of env c e h] handler_passes [of e env c h] by (cases "consumable e") simp_all

theorem commands_pass_application_events_witness:
  "snd (fst (handler_on_event str_env (HBootstrap bootstrap_new) ListenerClosed handle_new)) = Some ListenerClosed"
  using commands_pass_application_events [of str_env "HBootstrap bootstrap_new" ListenerClosed handle_new] by auto

end
