(* ===== verification/Command_Chain.thy ===== *)
theory Command_Chain
  imports Command_Dispatch
begin

text \<open>
  The chain of responsibility of \<open>handle_swarm_event\<close> in \<^verbatim>\<open>core/src/runtime/event_loop.rs\<close>: an event is offered
  to the active commands in turn until one keeps it; completed commands are taken out by
  \<open>swap_remove\<close> while the loop is running. The theorems say that in spite of the reordering every
  command sees the event exactly once, and that an event claimed by one command reaches that one only.
\<close>

section \<open>The chain\<close>

text \<open>\<open>Vec::swap_remove\<close>: the last element takes the place of the removed one.\<close>

definition swap_remove :: "nat \<Rightarrow> 'a list \<Rightarrow> 'a list" where
  "swap_remove i xs = butlast (xs[i := last xs])"

lemma length_swap_remove [simp]: "length (swap_remove i xs) = length xs - 1"
  by (simp add: swap_remove_def)

text \<open>The loop of \<open>handle_swarm_event\<close> over the active commands.\<close>

function command_chain ::
  "('req, 'resp, 'stats) net_env \<Rightarrow> nat \<Rightarrow> ('req, 'resp, 'stats) command_task list \<Rightarrow>
   ('req, 'resp, 'stats) swarm_event option \<Rightarrow> 'resp handle_store \<Rightarrow>
   ('req, 'resp, 'stats) command_task list \<times> ('req, 'resp, 'stats) swarm_event option \<times> 'resp handle_store" where
  "command_chain env i cmds remaining st =
     (if i < length cmds then
        (case remaining of
           None \<Rightarrow> (cmds, None, st)
         | Some event \<Rightarrow>
             (case task_on_event env (cmds ! i) event st of
                ((keep, ret), cmd, st') \<Rightarrow>
                  if keep then command_chain env (Suc i) (cmds[i := cmd]) ret st'
                  else command_chain env i (swap_remove i (cmds[i := cmd])) ret st'))
      else (cmds, remaining, st))"
  by auto
termination
  by (relation "measure (\<lambda>(env, i, cmds, remaining, st). length cmds - i)") auto

declare command_chain.simps [simp del]

section \<open>Removal by swapping\<close>

lemma swap_remove_split:
  assumes "i < length xs"
  shows "take i (swap_remove i xs) = take i xs"
    and "mset (drop i (swap_remove i xs)) = mset (drop (Suc i) xs)"
proof -
  have "take i (swap_remove i xs) = take i xs \<and> mset (drop i (swap_remove i xs)) = mset (drop (Suc i) xs)"
  proof (cases "Suc i = length xs")
    case True
    then have "last xs = xs ! i" using assms by (metis diff_Suc_1 last_conv_nth length_greater_0_conv less_nat_zero_code list.size(3))
    then have "swap_remove i xs = butlast xs" by (simp add: swap_remove_def)
    with True show ?thesis by (simp add: butlast_conv_take take_butlast)
  next
    case False
    then have l: "Suc i < length xs" using assms by simp
    then have "drop (Suc i) xs \<noteq> []" by simp
    then have d: "drop (Suc i) xs = butlast (drop (Suc i) xs) @ [last xs]"
      using l by (metis append_butlast_last_id last_drop)
    have e: "swap_remove i xs = take i xs @ last xs # butlast (drop (Suc i) xs)"
      using assms l by (simp add: swap_remove_def upd_conv_take_nth_drop butlast_append)
    have "mset (drop (Suc i) xs) = mset (butlast (drop (Suc i) xs) @ [last xs])" using d by simp
    then show ?thesis using e assms by simp
  qed
  then show "take i (swap_remove i xs) = take i xs"
    and "mset (drop i (swap_remove i xs)) = mset (drop (Suc i) xs)" by blast+
qed

section \<open>One command's answer\<close>

definition task_keeps where
  "task_keeps env e st t = fst (fst (task_on_event env t e st))"

definition task_returns where
  "task_returns env e st t = snd (fst (task_on_event env t e st))"

definition task_after where
  "task_after env e st t = fst (snd (task_on_event env t e st))"

definition handle_after where
  "handle_after env e st t = snd (snd (handler_on_event env (task_handler t) e (st (task_handle t))))"

lemmas task_answer_defs = task_keeps_def task_returns_def task_after_def handle_after_def

lemma task_on_event_answer:
  "task_on_event env t e st =
     ((task_keeps env e st t, task_returns env e st t), task_after env e st t,
      st(task_handle t := handle_after env e st t))"
  by (simp add: task_answer_defs task_on_event_def case_prod_beta)

lemma task_handle_after [simp]: "task_handle (task_after env e st t) = task_handle t"
  by (simp add: task_after_def task_on_event_def case_prod_beta)

text \<open>The answer of a command depends on its own handle only.\<close>

lemma task_answer_cong:
  assumes "st (task_handle t) = st' (task_handle t)"
  shows "task_keeps env e st t = task_keeps env e st' t" "task_returns env e st t = task_returns env e st' t"
    "task_after env e st t = task_after env e st' t" "handle_after env e st t = handle_after env e st' t"
  using assms by (simp_all add: task_answer_defs task_on_event_def case_prod_beta)

lemma chain_step:
  assumes "i < length cmds"
  shows "command_chain env i cmds (Some e) st =
     (let t = cmds ! i; st' = st(task_handle t := handle_after env e st t)
      in if task_keeps env e st t
         then command_chain env (Suc i) (cmds[i := task_after env e st t]) (task_returns env e st t) st'
         else command_chain env i (swap_remove i (cmds[i := task_after env e st t])) (task_returns env e st t) st')"
  using assms by (subst command_chain.simps) (simp add: task_on_event_answer Let_def)

lemma chain_end:
  "length cmds \<le> i \<Longrightarrow> command_chain env i cmds r st = (cmds, r, st)"
  "command_chain env i cmds None st = (cmds, None, st)"
  by (subst command_chain.simps; simp)+

text \<open>
  One step as far as the order of the commands does not matter: the visited command joins the ones
  behind the cursor if it stays active, and those ahead of the cursor are the other ones.
\<close>

lemma chain_step_mset:
  assumes "i < length cmds"
  obtains j cmds1 where
    "command_chain env i cmds (Some e) st =
       command_chain env j cmds1 (task_returns env e st (cmds ! i))
         (st(task_handle (cmds ! i) := handle_after env e st (cmds ! i)))"
    "mset (take j cmds1) =
       mset (take i cmds) + (if task_keeps env e st (cmds ! i) then {#task_after env e st (cmds ! i)#} else {#})"
    "mset (drop j cmds1) = mset (drop (Suc i) cmds)" "length cmds1 - j < length cmds - i"
proof (cases "task_keeps env e st (cmds ! i)")
  case True
  let ?c = "cmds[i := task_after env e st (cmds ! i)]"
  show ?thesis
  proof (rule that [of "Suc i" ?c])
    show "mset (take (Suc i) ?c) = mset (take i cmds) +
        (if task_keeps env e st (cmds ! i) then {#task_after env e st (cmds ! i)#} else {#})"
      using assms True by (simp add: take_Suc_conv_app_nth)
  qed (use assms True in \<open>simp_all add: chain_step Let_def\<close>)
next
  case False
  let ?c = "cmds[i := task_after env e st (cmds ! i)]"
  show ?thesis
  proof (rule that [of i "swap_remove i ?c"])
    show "mset (drop i (swap_remove i ?c)) = mset (drop (Suc i) cmds)"
      using assms swap_remove_split(2) [of i ?c] by simp
  qed (use assms False swap_remove_split(1) [of i ?c] in \<open>simp_all add: chain_step Let_def\<close>)
qed

text \<open>
  What holds before the chain and is kept when one active command is asked holds after it. The command that
  is asked is any of them, and what is left are the others, with its answer if it stays.
\<close>

lemma chain_invariant:
  assumes "command_chain env i cmds r st = (cmds', r', st')" and "P cmds r st"
    and visit: "\<And>e t A cmds cmds1 st. P cmds (Some e) st \<Longrightarrow> mset cmds = add_mset t A \<Longrightarrow>
       mset cmds1 = A + (if task_keeps env e st t then {#task_after env e st t#} else {#}) \<Longrightarrow>
       P cmds1 (task_returns env e st t) (st(task_handle t := handle_after env e st t))"
  shows "P cmds' r' st'"
  using assms(1,2)
proof (induction "length cmds - i" arbitrary: i cmds r st rule: less_induct)
  case less
  show ?case
  proof (cases "i < length cmds \<and> r \<noteq> None")
    case False
    then have "cmds' = cmds \<and> r' = r \<and> st' = st" using less.prems(1) by (cases r) (auto simp: chain_end)
    with less.prems(2) show ?thesis by simp
  next
    case True
    then obtain e where i: "i < length cmds" and r: "r = Some e" by auto
    let ?t = "cmds ! i"
    let ?new = "if task_keeps env e st ?t then {#task_after env e st ?t#} else {#}"
    let ?A = "mset (take i cmds) + mset (drop (Suc i) cmds)"
    obtain j cmds1 where s: "command_chain env i cmds (Some e) st =
        command_chain env j cmds1 (task_returns env e st ?t) (st(task_handle ?t := handle_after env e st ?t))"
      and tk: "mset (take j cmds1) = mset (take i cmds) + ?new"
      and dr: "mset (drop j cmds1) = mset (drop (Suc i) cmds)" and l: "length cmds1 - j < length cmds - i"
      using chain_step_mset [OF i, of env e st] by metis
    have m0: "mset cmds = add_mset ?t ?A"
      using arg_cong [OF id_take_nth_drop [OF i], of mset] by simp
    have "mset cmds1 = mset (take j cmds1) + mset (drop j cmds1)" by (metis append_take_drop_id mset_append)
    then have m1: "mset cmds1 = ?A + ?new" using tk dr by simp
    show ?thesis
      using less.hyps [OF l _ visit [OF _ m0 m1]] less.prems s r by simp
  qed
qed

lemma distinct_map_mset_cong: "mset xs = mset ys \<Longrightarrow> distinct (map f xs) = distinct (map f ys)"
  by (metis mset_eq_imp_distinct_iff mset_map)

lemma image_filter_mset_cong:
  "(\<And>x. x \<in> set xs \<Longrightarrow> f x = g x \<and> P x = Q x) \<Longrightarrow>
   image_mset f (filter_mset P (mset xs)) = image_mset g (filter_mset Q (mset xs))"
  by (induction xs) auto

text \<open>The same step when the commands have handles of their own: the ones ahead of the cursor are other commands.\<close>

lemma chain_step_distinct:
  assumes i: "i < length cmds" and dist: "distinct (map task_handle (drop i cmds))"
  obtains j cmds1 where
    "command_chain env i cmds (Some e) st =
       command_chain env j cmds1 (task_returns env e st (cmds ! i))
         (st(task_handle (cmds ! i) := handle_after env e st (cmds ! i)))"
    "mset (take j cmds1) =
       mset (take i cmds) + (if task_keeps env e st (cmds ! i) then {#task_after env e st (cmds ! i)#} else {#})"
    "mset (drop i cmds) = add_mset (cmds ! i) (mset (drop j cmds1))" "length cmds1 - j < length cmds - i"
    "distinct (map task_handle (drop j cmds1))" "\<forall>u \<in> set (drop j cmds1). task_handle u \<noteq> task_handle (cmds ! i)"
proof -
  obtain j cmds1 where s: "command_chain env i cmds (Some e) st =
        command_chain env j cmds1 (task_returns env e st (cmds ! i))
          (st(task_handle (cmds ! i) := handle_after env e st (cmds ! i)))"
    and tk: "mset (take j cmds1) =
       mset (take i cmds) + (if task_keeps env e st (cmds ! i) then {#task_after env e st (cmds ! i)#} else {#})"
    and dr: "mset (drop j cmds1) = mset (drop (Suc i) cmds)" and l: "length cmds1 - j < length cmds - i"
    using chain_step_mset [OF i, of env e st] by metis
  have d: "drop i cmds = cmds ! i # drop (Suc i) cmds" using i by (simp add: Cons_nth_drop_Suc)
  have "distinct (map task_handle (drop j cmds1))"
    using dist d distinct_map_mset_cong [OF dr, of task_handle] by simp
  moreover have "\<forall>u \<in> set (drop j cmds1). task_handle u \<noteq> task_handle (cmds ! i)"
    using dist unfolding mset_eq_setD [OF dr] d by (auto dest: sym)
  ultimately show ?thesis using that [OF s tk _ l] d dr by simp
qed

text \<open>A command with another handle gives the same answer afterwards.\<close>

lemma answer_of_other:
  assumes "task_handle u \<noteq> a"
  shows "task_keeps env e (st(a := h)) u = task_keeps env e st u"
    "task_returns env e (st(a := h)) u = task_returns env e st u"
    "task_after env e (st(a := h)) u = task_after env e st u"
    "handle_after env e (st(a := h)) u = handle_after env e st u"
  using assms by (simp_all add: task_answer_cong [of "st(a := h)" u st env e])

section \<open>Every command is asked once\<close>

lemma chain_visits:
  assumes "distinct (map task_handle (drop i cmds))"
    and "\<forall>t \<in> set (drop i cmds). task_returns env e st t = Some e"
  shows "\<exists>cmds' st'. command_chain env i cmds (Some e) st = (cmds', Some e, st')
     \<and> mset cmds' = mset (take i cmds) +
         image_mset (task_after env e st) (filter_mset (task_keeps env e st) (mset (drop i cmds)))
     \<and> (\<forall>t \<in> set (drop i cmds). st' (task_handle t) = handle_after env e st t)
     \<and> (\<forall>a. a \<notin> task_handle ` set (drop i cmds) \<longrightarrow> st' a = st a)"
  using assms
proof (induction "length cmds - i" arbitrary: i cmds st rule: less_induct)
  case less
  show ?case
  proof (cases "i < length cmds")
    case False
    then show ?thesis by (simp add: chain_end)
  next
    case True
    let ?t = "cmds ! i"
    let ?st = "st(task_handle ?t := handle_after env e st ?t)"
    obtain j cmds1 where s: "command_chain env i cmds (Some e) st = command_chain env j cmds1 (task_returns env e st ?t) ?st"
      and tk: "mset (take j cmds1) = mset (take i cmds) + (if task_keeps env e st ?t then {#task_after env e st ?t#} else {#})"
      and d: "mset (drop i cmds) = add_mset ?t (mset (drop j cmds1))" and l: "length cmds1 - j < length cmds - i"
      and dist: "distinct (map task_handle (drop j cmds1))" "\<forall>u \<in> set (drop j cmds1). task_handle u \<noteq> task_handle ?t"
      using chain_step_distinct [OF True less.prems(1), of env e st] by metis
    have sd: "set (drop i cmds) = insert ?t (set (drop j cmds1))" using arg_cong [OF d, of set_mset] by simp
    have ne: "task_handle u \<noteq> task_handle ?t" if "u \<in> set (drop j cmds1)" for u using dist(2) that by simp
    have "\<forall>u \<in> set (drop j cmds1). task_returns env e ?st u = Some e"
      using answer_of_other(2) [OF ne] less.prems(2) sd by simp
    from less.hyps [OF l dist(1) this] obtain cmds' st' where
      c: "command_chain env j cmds1 (Some e) ?st = (cmds', Some e, st')"
      and m: "mset cmds' = mset (take j cmds1) +
         image_mset (task_after env e ?st) (filter_mset (task_keeps env e ?st) (mset (drop j cmds1)))"
      and h: "\<forall>u \<in> set (drop j cmds1). st' (task_handle u) = handle_after env e ?st u"
      and o: "\<forall>a. a \<notin> task_handle ` set (drop j cmds1) \<longrightarrow> st' a = ?st a"
      by blast
    have "image_mset (task_after env e ?st) (filter_mset (task_keeps env e ?st) (mset (drop j cmds1))) =
        image_mset (task_after env e st) (filter_mset (task_keeps env e st) (mset (drop j cmds1)))"
      using answer_of_other(1,3) [OF ne] by (intro image_filter_mset_cong) blast
    with m tk have "mset cmds' = mset (take i cmds) +
         image_mset (task_after env e st) (filter_mset (task_keeps env e st) (mset (drop i cmds)))"
      unfolding d by simp
    moreover have "task_handle ?t \<notin> task_handle ` set (drop j cmds1)" using dist(2) by fastforce
    then have "\<forall>t \<in> set (drop i cmds). st' (task_handle t) = handle_after env e st t"
      using h o answer_of_other(4) [OF ne] unfolding sd by simp
    moreover have "\<forall>a. a \<notin> task_handle ` set (drop i cmds) \<longrightarrow> st' a = st a" using o unfolding sd by simp
    ultimately show ?thesis using s c less.prems(2) sd by simp
  qed
qed

section \<open>A claimed event\<close>

text \<open>A command an event does not concern: it passes it on and stays as it is, though it may retire.\<close>

definition task_inert where
  "task_inert env e st t \<longleftrightarrow>
     task_returns env e st t = Some e \<and> task_after env e st t = t \<and> handle_after env e st t = st (task_handle t)"

lemma chain_claimed:
  assumes "distinct (map task_handle (drop i cmds))" and "t \<in> set (drop i cmds)"
    and "task_returns env e st t = None"
    and "\<forall>u \<in> set (drop i cmds). u \<noteq> t \<longrightarrow> task_inert env e st u"
  shows "\<exists>cmds'. command_chain env i cmds (Some e) st = (cmds', None, st(task_handle t := handle_after env e st t))
     \<and> set cmds' \<subseteq> set (take i cmds) \<union> set (drop i cmds) \<union> {task_after env e st t}
     \<and> (task_keeps env e st t \<longrightarrow> task_after env e st t \<in> set cmds')
     \<and> (\<not> task_keeps env e st t \<longrightarrow> set cmds' \<inter> {u. u \<notin> set (take i cmds) \<and> task_handle u = task_handle t} = {})"
  using assms
proof (induction "length cmds - i" arbitrary: i cmds rule: less_induct)
  case less
  have i: "i < length cmds" using less.prems(2) by (cases "i < length cmds") simp_all
  let ?t = "cmds ! i"
  obtain j cmds1 where s: "command_chain env i cmds (Some e) st =
        command_chain env j cmds1 (task_returns env e st ?t) (st(task_handle ?t := handle_after env e st ?t))"
    and tk: "mset (take j cmds1) = mset (take i cmds) + (if task_keeps env e st ?t then {#task_after env e st ?t#} else {#})"
    and d: "mset (drop i cmds) = add_mset ?t (mset (drop j cmds1))" and l: "length cmds1 - j < length cmds - i"
    and dist: "distinct (map task_handle (drop j cmds1))" "\<forall>u \<in> set (drop j cmds1). task_handle u \<noteq> task_handle ?t"
    using chain_step_distinct [OF i less.prems(1), of env e st] by metis
  have sd: "set (drop i cmds) = insert ?t (set (drop j cmds1))" using arg_cong [OF d, of set_mset] by simp
  have sk: "set (take j cmds1) = set (take i cmds) \<union> (if task_keeps env e st ?t then {task_after env e st ?t} else {})"
    using arg_cong [OF tk, of set_mset] by (simp split: if_splits)
  show ?case
  proof (cases "?t = t")
    case True
    have "set cmds1 = set (take j cmds1) \<union> set (drop j cmds1)" by (metis append_take_drop_id set_append)
    with True s less.prems(3) sk sd dist(2) show ?thesis by (auto simp: chain_end)
  next
    case False
    then have inert: "task_inert env e st ?t" using less.prems(4) sd by simp
    then have s': "command_chain env i cmds (Some e) st = command_chain env j cmds1 (Some e) st"
      using s by (simp add: task_inert_def)
    have tj: "t \<in> set (drop j cmds1)" and ne: "task_handle ?t \<noteq> task_handle t"
      using False less.prems(2) sd dist(2) by auto
    have oj: "\<forall>u \<in> set (drop j cmds1). u \<noteq> t \<longrightarrow> task_inert env e st u"
      using less.prems(4) sd by simp
    from less.hyps [OF l dist(1) tj less.prems(3) oj] show ?thesis
      using s' sk sd inert ne by (auto simp: task_inert_def split: if_splits)
  qed
qed

section \<open>Properties\<close>

text \<open>
  C18: the event chain asks every active command exactly once. For an event that every command passes on,
  although finished commands are taken out by swapping the last one into their place while the loop
  runs, the commands left are the answers of those that stay, each handle is what its own command made
  of it, all other handles are untouched, and the event itself comes out for the application.
\<close>

theorem chain_asks_each_once:
  assumes "distinct (map task_handle cmds)" and "\<forall>t \<in> set cmds. task_returns env e st t = Some e"
  shows "\<exists>cmds' st'. command_chain env 0 cmds (Some e) st = (cmds', Some e, st')
     \<and> mset cmds' = image_mset (task_after env e st) (filter_mset (task_keeps env e st) (mset cmds))
     \<and> (\<forall>t \<in> set cmds. st' (task_handle t) = handle_after env e st t)
     \<and> (\<forall>a. a \<notin> task_handle ` set cmds \<longrightarrow> st' a = st a)"
  using chain_visits [of 0 cmds env e st] assms by simp

definition sample_commands :: "(string, string, nat) command_task list" where
  "sample_commands =
     [\<lparr>task_handler = HIsConnected \<lparr>is_connected_peer = PeerId 1\<rparr>, task_handle = 0\<rparr>,
      \<lparr>task_handler = HDial \<lparr>dial_peer = PeerId 1\<rparr>, task_handle = 1\<rparr>,
      \<lparr>task_handler = HDial \<lparr>dial_peer = PeerId 2\<rparr>, task_handle = 2\<rparr>]"

theorem chain_asks_each_once_witness:
  "\<exists>cmds' st'. command_chain str_env 0 sample_commands (Some (ConnectionEstablished (PeerId 1) 1)) (\<lambda>_. handle_new)
       = (cmds', Some (ConnectionEstablished (PeerId 1) 1), st')
     \<and> mset cmds' = {#\<lparr>task_handler = HDial \<lparr>dial_peer = PeerId 2\<rparr>, task_handle = 2\<rparr>#}
     \<and> st' 1 = handle_finish (Inr OUnit) handle_new"
  using chain_asks_each_once [of sample_commands str_env "ConnectionEstablished (PeerId 1) 1" "\<lambda>_. handle_new"]
  by (auto simp: sample_commands_def task_answer_defs task_on_event_def dial_on_event_def default_on_event_def)

lemma request_own_answer:
  assumes "task_handler t = HSendRequest c" and "sr_request_id c = Some q" and "sr_peer_id c = p"
    and "e = Behaviour (ReqRespEvent (Message p (Response q resp)))"
  shows "\<not> task_keeps env e st t" "task_returns env e st t = None" "task_after env e st t = t"
    "handle_after env e st t = handle_finish (Inr (OResponse resp)) (st (task_handle t))"
  using assms by (simp_all add: task_answer_defs task_on_event_def send_request_on_event_def)

lemma response_inert:
  assumes "e = Behaviour (ReqRespEvent (Message p (Response q resp)))"
    and "\<forall>c. task_handler u = HSendRequest c \<longrightarrow> sr_request_id c \<noteq> Some q"
  shows "task_inert env e st u"
  using assms
  by (cases "task_handler u")
     (auto simp: task_inert_def task_answer_defs task_on_event_def dial_on_event_def disconnect_on_event_def
       send_request_on_event_def bootstrap_on_event_def get_closest_peers_on_event_def get_providers_on_event_def
       get_record_on_event_def put_record_on_event_def start_provide_on_event_def default_on_event_def)

lemma response_delivered:
  assumes "distinct (map task_handle cmds)" and "t \<in> set cmds"
    and "task_handler t = HSendRequest c" and "sr_request_id c = Some q" and "sr_peer_id c = p"
    and "\<forall>u \<in> set cmds. u \<noteq> t \<longrightarrow> (\<forall>c'. task_handler u = HSendRequest c' \<longrightarrow> sr_request_id c' \<noteq> Some q)"
  shows "\<exists>cmds'. command_chain env 0 cmds (Some (Behaviour (ReqRespEvent (Message p (Response q resp))))) st =
       (cmds', None, st(task_handle t := handle_finish (Inr (OResponse resp)) (st (task_handle t))))
     \<and> set cmds' \<subseteq> set cmds - {t}"
proof -
  let ?e = "Behaviour (ReqRespEvent (Message p (Response q resp)))"
  note own = request_own_answer [OF assms(3-5) refl]
  have "\<forall>u \<in> set (drop 0 cmds). u \<noteq> t \<longrightarrow> task_inert env ?e st u"
    by (intro ballI impI response_inert [OF refl]) (use assms(6) in simp)
  then obtain cmds' where
    c: "command_chain env 0 cmds (Some ?e) st = (cmds', None, st(task_handle t := handle_after env ?e st t))"
    and sub: "set cmds' \<subseteq> set (take 0 cmds) \<union> set (drop 0 cmds) \<union> {task_after env ?e st t}"
    and gone: "\<not> task_keeps env ?e st t \<longrightarrow>
       set cmds' \<inter> {u. u \<notin> set (take 0 cmds) \<and> task_handle u = task_handle t} = {}"
    using chain_claimed [of 0 cmds t env ?e st, OF _ _ own(2)] assms(1,2) by (auto simp only: drop_0)
  have "t \<notin> set cmds'" using gone own(1) by auto
  moreover have "set cmds' \<subseteq> set cmds" using sub own(3) assms(2) by auto
  ultimately show ?thesis using c own(4) by auto
qed

text \<open>
  C19: concurrent requests are told apart. When a response arrives whose identifier one active request
  waits for, with that request's peer, and no other active command has a request of that identifier,
  the response goes to that request, wherever it stands in the list and whatever else is active: its
  handle gets the response, it leaves the list, no other handle changes, nobody else and not the
  application sees the response.
\<close>

theorem response_reaches_its_request:
  assumes "distinct (map task_handle cmds)" and "t \<in> set cmds"
    and "task_handler t = HSendRequest c" and "sr_request_id c = Some q" and "sr_peer_id c = p"
    and "\<forall>u \<in> set cmds. u \<noteq> t \<longrightarrow> (\<forall>c'. task_handler u = HSendRequest c' \<longrightarrow> sr_request_id c' \<noteq> Some q)"
  shows "\<exists>cmds'. command_chain env 0 cmds (Some (Behaviour (ReqRespEvent (Message p (Response q resp))))) st =
       (cmds', None, st(task_handle t := handle_finish (Inr (OResponse resp)) (st (task_handle t))))
     \<and> set cmds' \<subseteq> set cmds - {t}"
  by (rule response_delivered [OF assms])

definition sample_requests :: "(string, string, nat) command_task list" where
  "sample_requests =
     [\<lparr>task_handler = HIsConnected \<lparr>is_connected_peer = PeerId 1\<rparr>, task_handle = 0\<rparr>,
      \<lparr>task_handler = HSendRequest \<lparr>sr_peer_id = PeerId 1, sr_request = None, sr_request_id = Some (OutboundRequestId 4)\<rparr>, task_handle = 1\<rparr>,
      \<lparr>task_handler = HSendRequest \<lparr>sr_peer_id = PeerId 1, sr_request = None, sr_request_id = Some (OutboundRequestId 5)\<rparr>, task_handle = 2\<rparr>]"

theorem response_reaches_its_request_witness:
  "\<exists>cmds'. command_chain str_env 0 sample_requests
       (Some (Behaviour (ReqRespEvent (Message (PeerId 1) (Response (OutboundRequestId 5) ''pong''))))) (\<lambda>_. handle_new) =
       (cmds', None, (\<lambda>_. handle_new)(2 := handle_finish (Inr (OResponse ''pong'')) handle_new))
     \<and> set cmds' \<subseteq> set sample_requests - {sample_requests ! 2}"
  using response_reaches_its_request [of sample_requests "sample_requests ! 2"
      "\<lparr>sr_peer_id = PeerId 1, sr_request = None, sr_request_id = Some (OutboundRequestId 5)\<rparr>"
      "OutboundRequestId 5" "PeerId 1" str_env "''pong''" "\<lambda>_. handle_new"]
  by (simp add: sample_requests_def)

end
