(* ===== verification/Channel_Registry.thy ===== *)
theory Channel_Registry
  imports Api_Types
begin

text \<open>
  Data channels and their quota (\<^verbatim>\<open>core/src/data_channel.rs\<close>): the process-wide channel ids, the channel
  handle, and the registry that counts the active channels per peer, per direction and per protocol.
  The registry is shared behind a mutex, so each operation is one atomic step on the one registry;
  its limits never change. Dropping a guard is an operation of its own.
\<close>

section \<open>Ids, directions, limits\<close>

datatype data_channel_id = DataChannelId u64

definition data_channel_id_next :: "u64 \<Rightarrow> data_channel_id \<times> u64" where
  "data_channel_id_next c = (let (i, c') = fetch_add_one c in (DataChannelId i, c'))"

fun data_channel_id_display :: "data_channel_id \<Rightarrow> string" where
  "data_channel_id_display (DataChannelId i) = ''dc#'' @ show_nat (unat i)"

datatype direction = Outbound | Inbound

record data_channel_limits =
  max_inbound_per_peer :: usize
  max_outbound_per_peer :: usize
  max_per_protocol :: usize

definition data_channel_limits_default :: data_channel_limits where
  "data_channel_limits_default =
     \<lparr>max_inbound_per_peer = 4, max_outbound_per_peer = 4, max_per_protocol = 64\<rparr>"

section \<open>The registry\<close>

record registry_inner =
  inbound_per_peer :: "peer_id \<rightharpoonup> usize"
  outbound_per_peer :: "peer_id \<rightharpoonup> usize"
  per_protocol :: "stream_protocol \<rightharpoonup> usize"

definition registry_inner_default :: registry_inner where
  "registry_inner_default =
     \<lparr>inbound_per_peer = Map.empty, outbound_per_peer = Map.empty, per_protocol = Map.empty\<rparr>"

text \<open>A guard records what it has to give back; the registry it points to is the shared one.\<close>

record channel_guard =
  guard_peer :: peer_id
  guard_protocol :: stream_protocol
  guard_direction :: direction

text \<open>\<open>map.get(&k).copied().unwrap_or(0)\<close> and \<open>*map.entry(k).or_default() += 1\<close>.\<close>

definition counter_get :: "('k \<rightharpoonup> usize) \<Rightarrow> 'k \<Rightarrow> usize" where
  "counter_get m k = (case m k of None \<Rightarrow> 0 | Some c \<Rightarrow> c)"

definition counter_bump :: "'k \<Rightarrow> ('k \<rightharpoonup> usize) \<Rightarrow> ('k \<rightharpoonup> usize)" where
  "counter_bump k m = m(k \<mapsto> counter_get m k + 1)"

definition saturating_sub :: "usize \<Rightarrow> usize \<Rightarrow> usize" where
  "saturating_sub a b = (if a < b then 0 else a - b)"

definition try_acquire ::
  "data_channel_limits \<Rightarrow> peer_id \<Rightarrow> stream_protocol \<Rightarrow> direction \<Rightarrow> registry_inner \<Rightarrow>
   channel_guard option \<times> registry_inner" where
  "try_acquire limits peer protocol direction inner =
     (let per_peer_limit = (case direction of Inbound \<Rightarrow> max_inbound_per_peer limits
                                            | Outbound \<Rightarrow> max_outbound_per_peer limits);
          per_peer_count = (case direction of Inbound \<Rightarrow> counter_get (inbound_per_peer inner) peer
                                            | Outbound \<Rightarrow> counter_get (outbound_per_peer inner) peer);
          per_protocol_count = counter_get (per_protocol inner) protocol
      in if per_peer_limit \<le> per_peer_count \<or> max_per_protocol limits \<le> per_protocol_count
         then (None, inner)
         else
           let inner1 = (case direction of
                 Inbound \<Rightarrow> inner\<lparr>inbound_per_peer := counter_bump peer (inbound_per_peer inner)\<rparr>
               | Outbound \<Rightarrow> inner\<lparr>outbound_per_peer := counter_bump peer (outbound_per_peer inner)\<rparr>);
               inner2 = inner1\<lparr>per_protocol := counter_bump protocol (per_protocol inner1)\<rparr>
           in (Some \<lparr>guard_peer = peer, guard_protocol = protocol, guard_direction = direction\<rparr>, inner2))"

text \<open>The body of \<open>Drop for ChannelGuard\<close>: decrement, and remove a counter that reaches zero.\<close>

definition counter_release :: "'k \<Rightarrow> ('k \<rightharpoonup> usize) \<Rightarrow> ('k \<rightharpoonup> usize)" where
  "counter_release k m =
     (case m k of
        None \<Rightarrow> m
      | Some c \<Rightarrow> let c' = saturating_sub c 1 in if c' = 0 then m(k := None) else m(k \<mapsto> c'))"

definition guard_drop :: "channel_guard \<Rightarrow> registry_inner \<Rightarrow> registry_inner" where
  "guard_drop g inner =
     (let inner1 = (case guard_direction g of
            Inbound \<Rightarrow> inner\<lparr>inbound_per_peer := counter_release (guard_peer g) (inbound_per_peer inner)\<rparr>
          | Outbound \<Rightarrow> inner\<lparr>outbound_per_peer := counter_release (guard_peer g) (outbound_per_peer inner)\<rparr>)
      in inner1\<lparr>per_protocol := counter_release (guard_protocol g) (per_protocol inner1)\<rparr>)"

section \<open>Channel handles\<close>

record data_channel =
  dc_id :: data_channel_id
  dc_peer :: peer_id
  dc_protocol :: stream_protocol
  dc_direction :: direction
  dc_stream :: stream
  dc_guard :: "channel_guard option"

definition data_channel_new ::
  "data_channel_id \<Rightarrow> peer_id \<Rightarrow> stream_protocol \<Rightarrow> direction \<Rightarrow> stream \<Rightarrow> channel_guard option \<Rightarrow>
   data_channel" where
  "data_channel_new i p q d s g =
     \<lparr>dc_id = i, dc_peer = p, dc_protocol = q, dc_direction = d, dc_stream = s, dc_guard = g\<rparr>"

text \<open>Dropping a handle drops its guard, if it has one.\<close>

definition data_channel_drop :: "data_channel \<Rightarrow> registry_inner \<Rightarrow> registry_inner" where
  "data_channel_drop c inner = (case dc_guard c of None \<Rightarrow> inner | Some g \<Rightarrow> guard_drop g inner)"

text \<open>
  \<open>into_stream(self)\<close> moves the stream out of the handle; the remaining fields, the guard among them,
  are dropped when the method returns.
\<close>

definition data_channel_into_stream :: "data_channel \<Rightarrow> registry_inner \<Rightarrow> stream \<times> registry_inner" where
  "data_channel_into_stream c inner = (dc_stream c, data_channel_drop c inner)"

section \<open>Specification: the bag of live guards\<close>

text \<open>
  The abstract registry is the multiset of guards that have been handed out and not dropped. The
  counters are determined by it.
\<close>

definition live_peer :: "direction \<Rightarrow> peer_id \<Rightarrow> channel_guard multiset \<Rightarrow> nat" where
  "live_peer d p G = size (filter_mset (\<lambda>g. guard_direction g = d \<and> guard_peer g = p) G)"

definition live_protocol :: "stream_protocol \<Rightarrow> channel_guard multiset \<Rightarrow> nat" where
  "live_protocol q G = size (filter_mset (\<lambda>g. guard_protocol g = q) G)"

fun peer_limit :: "data_channel_limits \<Rightarrow> direction \<Rightarrow> nat" where
  "peer_limit limits Inbound = unat (max_inbound_per_peer limits)"
| "peer_limit limits Outbound = unat (max_outbound_per_peer limits)"

definition protocol_limit :: "data_channel_limits \<Rightarrow> nat" where
  "protocol_limit limits = unat (max_per_protocol limits)"

definition within_limits :: "data_channel_limits \<Rightarrow> channel_guard multiset \<Rightarrow> bool" where
  "within_limits limits G \<longleftrightarrow>
     (\<forall>d p. live_peer d p G \<le> peer_limit limits d) \<and> (\<forall>q. live_protocol q G \<le> protocol_limit limits)"

definition admits :: "data_channel_limits \<Rightarrow> peer_id \<Rightarrow> stream_protocol \<Rightarrow> direction \<Rightarrow> channel_guard multiset \<Rightarrow> bool" where
  "admits limits p q d G \<longleftrightarrow>
     live_peer d p G < peer_limit limits d \<and> live_protocol q G < protocol_limit limits"

abbreviation mk_guard :: "peer_id \<Rightarrow> stream_protocol \<Rightarrow> direction \<Rightarrow> channel_guard" where
  "mk_guard p q d \<equiv> \<lparr>guard_peer = p, guard_protocol = q, guard_direction = d\<rparr>"

definition counter_of :: "nat \<Rightarrow> usize option" where
  "counter_of n = (if n = 0 then None else Some (word_of_nat n))"

definition registry_of :: "channel_guard multiset \<Rightarrow> registry_inner" where
  "registry_of G =
     \<lparr>inbound_per_peer = (\<lambda>p. counter_of (live_peer Inbound p G)),
      outbound_per_peer = (\<lambda>p. counter_of (live_peer Outbound p G)),
      per_protocol = (\<lambda>q. counter_of (live_protocol q G))\<rparr>"

section \<open>Counters\<close>

lemma registry_of_sel [simp]:
  "inbound_per_peer (registry_of G) = (\<lambda>p. counter_of (live_peer Inbound p G))"
  "outbound_per_peer (registry_of G) = (\<lambda>p. counter_of (live_peer Outbound p G))"
  "per_protocol (registry_of G) = (\<lambda>q. counter_of (live_protocol q G))"
  by (simp_all add: registry_of_def)

lemma live_peer_empty [simp]: "live_peer d p {#} = 0"
  and live_protocol_empty [simp]: "live_protocol q {#} = 0"
  by (simp_all add: live_peer_def live_protocol_def)

lemma live_peer_add [simp]:
  "live_peer d p (add_mset g G) =
     (if guard_direction g = d \<and> guard_peer g = p then Suc (live_peer d p G) else live_peer d p G)"
  by (simp add: live_peer_def)

lemma live_protocol_add [simp]:
  "live_protocol q (add_mset g G) =
     (if guard_protocol g = q then Suc (live_protocol q G) else live_protocol q G)"
  by (simp add: live_protocol_def)

lemma registry_of_empty: "registry_of {#} = registry_inner_default"
  by (simp add: registry_of_def registry_inner_default_def counter_of_def)

lemma unat_word_of_nat64: "n < 2 ^ 64 \<Longrightarrow> unat (word_of_nat n :: usize) = n"
  by (simp add: unat_of_nat take_bit_nat_eq_self)

lemma counter_get_counter_of: "counter_get (\<lambda>k. counter_of (f k)) k = word_of_nat (f k)"
  by (simp add: counter_get_def counter_of_def)

lemma limit_le_counter:
  "n < 2 ^ 64 \<Longrightarrow> (l :: usize) \<le> word_of_nat n \<longleftrightarrow> unat l \<le> n"
  by (simp add: word_le_nat_alt unat_word_of_nat64)

lemma counter_bump_of:
  "counter_bump k (\<lambda>k. counter_of (f k)) = (\<lambda>k'. counter_of (if k' = k then Suc (f k) else f k'))"
  if "Suc (f k) < 2 ^ 64"
  by (auto simp: counter_bump_def counter_get_def counter_of_def fun_eq_iff add.commute)

lemma counter_release_of:
  assumes "Suc (f k) < 2 ^ 64"
  shows "counter_release k (\<lambda>k'. counter_of (if k' = k then Suc (f k) else f k')) = (\<lambda>k'. counter_of (f k'))"
proof -
  let ?c = "word_of_nat (Suc (f k)) :: usize"
  have u: "unat ?c = Suc (f k)" using assms by (rule unat_word_of_nat64)
  have "\<not> ?c < 1" using u by (simp add: word_less_nat_alt)
  then have s: "saturating_sub ?c 1 = word_of_nat (f k)" by (simp add: saturating_sub_def)
  have z: "(word_of_nat (f k) :: usize) = 0 \<longleftrightarrow> f k = 0"
    using assms word_of_nat_inj_below [of "f k" 0] by simp
  show ?thesis
    using s z by (auto simp: counter_release_def counter_of_def fun_eq_iff Let_def simp del: of_nat_Suc)
qed

section \<open>Refinement of the single operations\<close>

lemma limits_lt: "peer_limit limits d < 2 ^ 64" "protocol_limit limits < 2 ^ 64"
proof -
  show "peer_limit limits d < 2 ^ 64"
    using unsigned_less [of "max_inbound_per_peer limits"] unsigned_less [of "max_outbound_per_peer limits"]
    by (cases d) simp_all
  show "protocol_limit limits < 2 ^ 64"
    using unsigned_less [of "max_per_protocol limits"] by (simp add: protocol_limit_def)
qed

lemma within_limits_lt:
  assumes "within_limits limits G"
  shows "live_peer d p G < 2 ^ 64" and "live_protocol q G < 2 ^ 64"
  using assms limits_lt [of limits] by (auto simp: within_limits_def intro: le_less_trans)

lemma admits_lt:
  assumes "admits limits p q d G"
  shows "Suc (live_peer d p G) < 2 ^ 64" and "Suc (live_protocol q G) < 2 ^ 64"
  using assms limits_lt(1) [of limits d] limits_lt(2) [of limits] unfolding admits_def
  by linarith+

lemma registry_of_add:
  "registry_of (add_mset g G) =
     \<lparr>inbound_per_peer = (\<lambda>p. counter_of (if guard_direction g = Inbound \<and> guard_peer g = p
                                then Suc (live_peer Inbound p G) else live_peer Inbound p G)),
      outbound_per_peer = (\<lambda>p. counter_of (if guard_direction g = Outbound \<and> guard_peer g = p
                                then Suc (live_peer Outbound p G) else live_peer Outbound p G)),
      per_protocol = (\<lambda>q. counter_of (if guard_protocol g = q then Suc (live_protocol q G)
                                else live_protocol q G))\<rparr>"
  by (simp add: registry_of_def)

lemma try_acquire_registry_of:
  assumes "within_limits limits G"
  shows "try_acquire limits p q d (registry_of G) =
     (if admits limits p q d G then (Some (mk_guard p q d), registry_of (add_mset (mk_guard p q d) G))
      else (None, registry_of G))"
proof (cases "admits limits p q d G")
  case True
  note lt = admits_lt [OF True]
  show ?thesis
    using True lt within_limits_lt [OF assms]
    by (cases d) (simp_all add: try_acquire_def counter_get_counter_of limit_le_counter admits_def
        protocol_limit_def not_le counter_bump_of registry_of_add registry_of_def fun_eq_iff cong: if_cong)
next
  case False
  then show ?thesis
    using within_limits_lt [OF assms]
    by (cases d) (auto simp: try_acquire_def counter_get_counter_of limit_le_counter admits_def
        protocol_limit_def not_le not_less Let_def)
qed

lemma within_limits_empty [simp]: "within_limits limits {#}"
  by (simp add: within_limits_def)

lemma within_limits_add:
  "within_limits limits G \<Longrightarrow> admits limits p q d G \<Longrightarrow> within_limits limits (add_mset (mk_guard p q d) G)"
  by (auto simp: within_limits_def admits_def)

lemma within_limits_remove:
  assumes "within_limits limits (add_mset g G)"
  shows "within_limits limits G"
proof -
  have "live_peer d p G \<le> live_peer d p (add_mset g G)"
    and "live_protocol q G \<le> live_protocol q (add_mset g G)" for d p q
    by simp_all
  with assms show ?thesis unfolding within_limits_def by (meson order_trans)
qed

lemma guard_drop_registry_of:
  assumes "within_limits limits (add_mset g G)"
  shows "guard_drop g (registry_of (add_mset g G)) = registry_of G"
proof -
  note lt = within_limits_lt(1) [OF assms, of "guard_direction g" "guard_peer g"]
    within_limits_lt(2) [OF assms, of "guard_protocol g"]
  show ?thesis
    using lt counter_release_of [of "\<lambda>p. live_peer Inbound p G" "guard_peer g"]
      counter_release_of [of "\<lambda>p. live_peer Outbound p G" "guard_peer g"]
      counter_release_of [of "\<lambda>q. live_protocol q G" "guard_protocol g"]
    by (cases "guard_direction g")
      (simp_all add: guard_drop_def registry_of_add registry_of_def Let_def eq_commute cong: if_cong)
qed

section \<open>The quota interface\<close>

text \<open>
  What the users of the registry rely on (the outbound open future and the inbound handler):
  a successful acquisition adds one live guard, a rejected one changes nothing, and dropping a live
  guard removes exactly it.
\<close>

locale quota_registry =
  fixes acquire :: "'a \<Rightarrow> 'r \<Rightarrow> 'g option \<times> 'r"
    and release :: "'g \<Rightarrow> 'r \<Rightarrow> 'r"
    and empty_registry :: 'r
    and holds :: "'r \<Rightarrow> 'g multiset \<Rightarrow> bool"
  assumes holds_empty: "holds empty_registry {#}"
    and holds_acquire: "holds r G \<Longrightarrow> acquire x r = (Some g, r') \<Longrightarrow> holds r' (add_mset g G)"
    and holds_reject: "holds r G \<Longrightarrow> acquire x r = (None, r') \<Longrightarrow> r' = r"
    and holds_release: "holds r (add_mset g G) \<Longrightarrow> holds (release g r) G"
begin

lemma holds_release_member: "holds r G \<Longrightarrow> g \<in># G \<Longrightarrow> holds (release g r) (G - {#g#})"
  by (metis holds_release insert_DiffM)

lemma acquire_then_release: "holds r G \<Longrightarrow> acquire x r = (Some g, r') \<Longrightarrow> holds (release g r') G"
  by (rule holds_release [OF holds_acquire])

lemma release_all: "holds r (mset gs + G) \<Longrightarrow> holds (fold release gs r) G"
proof (induction gs arbitrary: r)
  case (Cons g gs)
  then have "holds (release g r) (mset gs + G)" by (auto intro: holds_release)
  then show ?case using Cons.IH by simp
qed simp

end

definition reg_holds :: "data_channel_limits \<Rightarrow> registry_inner \<Rightarrow> channel_guard multiset \<Rightarrow> bool" where
  "reg_holds limits r G \<longleftrightarrow> r = registry_of G \<and> within_limits limits G"

interpretation quota: quota_registry
  "\<lambda>(p, q, d). try_acquire limits p q d" guard_drop registry_inner_default "reg_holds limits" for limits
proof
  show "reg_holds limits registry_inner_default {#}"
    by (simp add: reg_holds_def registry_of_empty)
next
  fix r G x g r'
  assume "reg_holds limits r G" and "(case x of (p, q, d) \<Rightarrow> try_acquire limits p q d) r = (Some g, r')"
  then show "reg_holds limits r' (add_mset g G)"
    by (cases x) (auto simp: reg_holds_def try_acquire_registry_of within_limits_add split: if_splits)
next
  fix r G x r'
  assume "reg_holds limits r G" and "(case x of (p, q, d) \<Rightarrow> try_acquire limits p q d) r = (None, r')"
  then show "r' = r"
    by (cases x) (auto simp: reg_holds_def try_acquire_registry_of split: if_splits)
next
  fix r g G
  assume "reg_holds limits r (add_mset g G)"
  then show "reg_holds limits (guard_drop g r) G"
    by (auto simp: reg_holds_def guard_drop_registry_of intro: within_limits_remove)
qed

lemmas try_acquire_holds = quota.holds_acquire [where x = "(p, q, d)" for p q d, simplified]
lemmas try_acquire_rejects = quota.holds_reject [where x = "(p, q, d)" for p q d, simplified]

section \<open>Reachable registries\<close>

text \<open>
  Any sequence of acquisitions by any task and of drops of live guards, starting from the registry
  that \<open>ChannelRegistry::new\<close> creates.
\<close>

inductive quota_reach :: "data_channel_limits \<Rightarrow> registry_inner \<Rightarrow> channel_guard multiset \<Rightarrow> bool"
  for limits where
  quota_start: "quota_reach limits registry_inner_default {#}"
| quota_acquire: "quota_reach limits r G \<Longrightarrow> try_acquire limits p q d r = (Some g, r') \<Longrightarrow>
     quota_reach limits r' (add_mset g G)"
| quota_reject: "quota_reach limits r G \<Longrightarrow> try_acquire limits p q d r = (None, r') \<Longrightarrow>
     quota_reach limits r' G"
| quota_drop: "quota_reach limits r G \<Longrightarrow> g \<in># G \<Longrightarrow> quota_reach limits (guard_drop g r) (G - {#g#})"

lemma quota_reach_holds: "quota_reach limits r G \<Longrightarrow> reg_holds limits r G"
proof (induction rule: quota_reach.induct)
  case quota_start
  show ?case by (rule quota.holds_empty)
next
  case (quota_acquire r G p q d g r')
  then show ?case by (blast intro: try_acquire_holds)
next
  case (quota_reject r G p q d r')
  then show ?case using try_acquire_rejects by blast
next
  case (quota_drop r G g)
  then show ?case by (blast intro: quota.holds_release_member)
qed

text \<open>A concrete run of one acquisition, for the witnesses below.\<close>

abbreviation sample_guard :: channel_guard where
  "sample_guard \<equiv> mk_guard (PeerId 7) ''/d/1'' Inbound"

abbreviation sample_registry :: registry_inner where
  "sample_registry \<equiv>
     \<lparr>inbound_per_peer = [PeerId 7 \<mapsto> 1], outbound_per_peer = Map.empty, per_protocol = [''/d/1'' \<mapsto> 1]\<rparr>"

lemma sample_acquire:
  "try_acquire data_channel_limits_default (PeerId 7) ''/d/1'' Inbound registry_inner_default
     = (Some sample_guard, sample_registry)"
  by (simp add: try_acquire_def counter_get_def counter_bump_def registry_inner_default_def data_channel_limits_default_def)

lemma sample_reach: "quota_reach data_channel_limits_default sample_registry {#sample_guard#}"
  by (rule quota_acquire [OF quota_start sample_acquire])

section \<open>Properties\<close>

text \<open>
  C22: the three hash maps of the registry always are the exact census of the live guards: in every
  reachable state each counter is the number of live guards of its peer and direction, or of its
  protocol over both directions, and a key is absent precisely when that number is zero.
\<close>

theorem registry_counts_live_guards:
  assumes "quota_reach limits r G"
  shows "inbound_per_peer r p = (if live_peer Inbound p G = 0 then None else Some (word_of_nat (live_peer Inbound p G)))
       \<and> outbound_per_peer r p = (if live_peer Outbound p G = 0 then None else Some (word_of_nat (live_peer Outbound p G)))
       \<and> per_protocol r q = (if live_protocol q G = 0 then None else Some (word_of_nat (live_protocol q G)))"
  using quota_reach_holds [OF assms] by (simp add: reg_holds_def counter_of_def)

theorem registry_counts_live_guards_witness:
  "per_protocol sample_registry ''/d/1'' = Some 1 \<and> outbound_per_peer sample_registry (PeerId 7) = None"
  using registry_counts_live_guards [OF sample_reach, of "PeerId 7" "''/d/1''"] by simp

text \<open>
  The limits are never exceeded. In every reachable state no peer has more live channels in a
  direction than the limit of that direction, and no protocol more than its limit over both
  directions together.
\<close>

theorem quota_never_exceeded:
  assumes "quota_reach limits r G"
  shows "live_peer Inbound p G \<le> unat (max_inbound_per_peer limits)
       \<and> live_peer Outbound p G \<le> unat (max_outbound_per_peer limits)
       \<and> live_protocol q G \<le> unat (max_per_protocol limits)"
  using quota_reach_holds [OF assms] peer_limit.simps protocol_limit_def
  unfolding reg_holds_def within_limits_def by metis

theorem quota_never_exceeded_witness:
  "live_peer Inbound (PeerId 7) {#sample_guard#} = 1
   \<and> live_peer Inbound (PeerId 7) {#sample_guard#} \<le> unat (max_inbound_per_peer data_channel_limits_default)"
  using quota_never_exceeded [OF sample_reach, of "PeerId 7" "''/d/1''"] by simp

text \<open>
  Acquisition is exact. In every reachable state \<open>try_acquire\<close> hands out the guard for the asked
  peer, protocol and direction if and only if both the peer's live channels in that direction and the
  protocol's live channels are below their limits; otherwise it returns nothing and changes nothing.
\<close>

theorem try_acquire_exact:
  assumes "quota_reach limits r G"
  shows "fst (try_acquire limits p q d r) =
       (if live_peer d p G < peer_limit limits d \<and> live_protocol q G < unat (max_per_protocol limits)
        then Some (mk_guard p q d) else None)
     \<and> (fst (try_acquire limits p q d r) = None \<longrightarrow> snd (try_acquire limits p q d r) = r)"
  using quota_reach_holds [OF assms]
  by (auto simp: reg_holds_def try_acquire_registry_of admits_def protocol_limit_def)

theorem try_acquire_exact_witness:
  "fst (try_acquire \<lparr>max_inbound_per_peer = 0, max_outbound_per_peer = 1, max_per_protocol = 64\<rparr>
      (PeerId 1) ''/d/1'' Inbound registry_inner_default) = None
   \<and> fst (try_acquire \<lparr>max_inbound_per_peer = 0, max_outbound_per_peer = 1, max_per_protocol = 64\<rparr>
      (PeerId 1) ''/d/1'' Outbound registry_inner_default) = Some (mk_guard (PeerId 1) ''/d/1'' Outbound)"
  using try_acquire_exact [OF quota_start, of "\<lparr>max_inbound_per_peer = 0, max_outbound_per_peer = 1, max_per_protocol = 64\<rparr>"
      "PeerId 1" "''/d/1''" Inbound]
    try_acquire_exact [OF quota_start, of "\<lparr>max_inbound_per_peer = 0, max_outbound_per_peer = 1, max_per_protocol = 64\<rparr>"
      "PeerId 1" "''/d/1''" Outbound]
  by simp

text \<open>
  The \<open>usize\<close> counters do not overflow. A successful acquisition raises the peer's counter and the
  protocol's counter by exactly one as natural numbers.
\<close>

theorem try_acquire_no_overflow:
  assumes "quota_reach limits r G" and "try_acquire limits p q d r = (Some g, r')"
  shows "unat (counter_get (per_protocol r') q) = Suc (unat (counter_get (per_protocol r) q))
       \<and> unat (counter_get (case d of Inbound \<Rightarrow> inbound_per_peer r' | Outbound \<Rightarrow> outbound_per_peer r') p)
         = Suc (unat (counter_get (case d of Inbound \<Rightarrow> inbound_per_peer r | Outbound \<Rightarrow> outbound_per_peer r) p))"
proof -
  have r: "r = registry_of G" and lim: "within_limits limits G"
    using quota_reach_holds [OF assms(1)] by (simp_all add: reg_holds_def)
  then have ad: "admits limits p q d G" and r': "r' = registry_of (add_mset (mk_guard p q d) G)"
    using assms(2) by (auto simp: try_acquire_registry_of split: if_splits)
  note lt = admits_lt [OF ad]
  show ?thesis
    using lt unfolding r r'
    by (cases d) (simp_all add: counter_get_counter_of unat_word_of_nat64 del: of_nat_Suc)
qed

theorem try_acquire_no_overflow_witness:
  "unat (counter_get (per_protocol sample_registry) ''/d/1'') = 1"
  using try_acquire_no_overflow [OF quota_start sample_acquire]
  by (simp add: registry_inner_default_def counter_get_def)

text \<open>
  Nothing leaks. Acquiring a guard and dropping it restores the registry exactly, and once every
  guard has been dropped, in whatever order, all three maps are empty again.
\<close>

theorem quota_released:
  assumes "quota_reach limits r G"
  shows "(\<forall>p q d g r'. try_acquire limits p q d r = (Some g, r') \<longrightarrow> guard_drop g r' = r)
       \<and> (\<forall>gs. mset gs = G \<longrightarrow> fold guard_drop gs r = registry_inner_default)"
proof (intro conjI allI impI)
  note h = quota_reach_holds [OF assms]
  fix p q d g r'
  assume "try_acquire limits p q d r = (Some g, r')"
  with h have "reg_holds limits (guard_drop g r') G"
    using quota.acquire_then_release [of limits r G "(p, q, d)" g r'] by simp
  with h show "guard_drop g r' = r" by (simp add: reg_holds_def)
next
  fix gs
  assume "mset gs = G"
  with quota_reach_holds [OF assms] have "reg_holds limits (fold guard_drop gs r) {#}"
    using quota.release_all [of limits r gs "{#}"] by simp
  then show "fold guard_drop gs r = registry_inner_default"
    by (simp add: reg_holds_def registry_of_empty)
qed

theorem quota_released_witness:
  "guard_drop sample_guard sample_registry = registry_inner_default"
  using quota_released [OF quota_start, of data_channel_limits_default] sample_acquire by blast

section \<open>Channel ids\<close>

text \<open>The ids that \<open>n\<close> successive calls of \<open>DataChannelId::next\<close> return.\<close>

fun channel_ids :: "nat \<Rightarrow> u64 \<Rightarrow> data_channel_id list \<times> u64" where
  "channel_ids 0 c = ([], c)"
| "channel_ids (Suc n) c =
     (let (i, c') = data_channel_id_next c; (is, c'') = channel_ids n c' in (i # is, c''))"

lemma channel_ids_draw: "channel_ids n c = map_prod (map DataChannelId) id (draw_ids n c)"
  by (induction n arbitrary: c) (simp_all add: data_channel_id_next_def case_prod_beta)

text \<open>
  Channel ids are unique within the process: \<open>2^64\<close> calls of \<open>DataChannelId::next\<close> return pairwise
  different ids, wherever the counter starts.
\<close>

theorem channel_ids_distinct:
  assumes "n \<le> 2 ^ 64"
  shows "distinct (fst (channel_ids n c))"
  using distinct_draw_ids [OF assms, of c] by (simp add: channel_ids_draw distinct_map inj_on_def)

theorem channel_ids_distinct_witness:
  "distinct (fst (channel_ids 3 (- 1))) \<and> fst (channel_ids 3 (- 1)) = [DataChannelId (- 1), DataChannelId 0, DataChannelId 1]"
proof -
  have "fst (channel_ids 3 (- 1)) = [DataChannelId (- 1), DataChannelId 0, DataChannelId 1]"
    by (simp add: channel_ids_draw draw_ids_eq upt_rec)
  with channel_ids_distinct [of 3 "- 1"] show ?thesis by simp
qed

section \<open>Taking the stream out of a channel\<close>

text \<open>
  A consumer that opens one channel per given stream, in one direction to one peer, and takes the
  stream out of each handle with \<open>into_stream\<close>, keeping the streams. \<open>None\<close> is a rejected acquisition.
\<close>

fun hoard_streams ::
  "data_channel_limits \<Rightarrow> peer_id \<Rightarrow> stream_protocol \<Rightarrow> direction \<Rightarrow> stream list \<Rightarrow> u64 \<Rightarrow> registry_inner \<Rightarrow>
   (stream list \<times> registry_inner) option" where
  "hoard_streams limits p q d [] c r = Some ([], r)"
| "hoard_streams limits p q d (s # ss) c r =
     (case try_acquire limits p q d r of
        (None, r1) \<Rightarrow> None
      | (Some g, r1) \<Rightarrow>
          let (i, c') = data_channel_id_next c;
              (s', r2) = data_channel_into_stream (data_channel_new i p q d s (Some g)) r1
          in map_option (\<lambda>(held, r3). (s' # held, r3)) (hoard_streams limits p q d ss c' r2))"

text \<open>
  C36: \<open>into_stream\<close> gives the quota back while the stream lives on. With limits of at least one
  channel, a consumer that takes the stream out of every channel it opens collects any number of
  simultaneously open streams to one peer, and the registry ends up as if none were open.
\<close>

theorem into_stream_escapes_quota:
  assumes "quota_reach limits r G" and "admits limits p q d G"
  shows "hoard_streams limits p q d ss c r = Some (ss, r)"
proof (induction ss arbitrary: c)
  case (Cons s ss)
  have "r = registry_of G" "within_limits limits G"
    using quota_reach_holds [OF assms(1)] by (simp_all add: reg_holds_def)
  then obtain r' where acq: "try_acquire limits p q d r = (Some (mk_guard p q d), r')"
    using assms(2) by (simp add: try_acquire_registry_of)
  then have "reg_holds limits (guard_drop (mk_guard p q d) r') G"
    using quota.acquire_then_release [of limits r G "(p, q, d)"] quota_reach_holds [OF assms(1)] by simp
  then have "guard_drop (mk_guard p q d) r' = r"
    using \<open>r = registry_of G\<close> by (simp add: reg_holds_def)
  then show ?case
    using acq Cons.IH
    by (simp add: data_channel_into_stream_def data_channel_drop_def data_channel_new_def
        data_channel_id_next_def fetch_add_one_def)
qed simp

theorem into_stream_escapes_quota_witness:
  "hoard_streams \<lparr>max_inbound_per_peer = 1, max_outbound_per_peer = 1, max_per_protocol = 1\<rparr>
     (PeerId 1) ''/d/1'' Outbound [Stream 1, Stream 2, Stream 3] 0 registry_inner_default
   = Some ([Stream 1, Stream 2, Stream 3], registry_inner_default)"
  by (rule into_stream_escapes_quota [OF quota_start]) (simp add: admits_def protocol_limit_def)

end
