(* ===== verification/Channel_Open.thy ===== *)
theory Channel_Open
  imports Channel_Registry Result_Handle
begin

text \<open>
  Opening and accepting data channels: the hand-written future of
  \<^verbatim>\<open>core/src/client/data_channel_open.rs\<close>, the inbound handler of \<^verbatim>\<open>core/src/runtime/event_loop.rs\<close>, and
  the system of all open futures and channel handles that share one registry. What the stream
  library does with \<open>open_stream\<close> under its timeout at one poll is an argument.
\<close>

section \<open>State of an opening future\<close>

datatype open_stream_error =
    OpenUnsupportedProtocol stream_protocol
  | OpenIo lib_error
  | OpenOther

text \<open>What polling \<open>timeout(open_timeout, control.open_stream(..))\<close> gives.\<close>

datatype open_outcome =
    StillOpening
  | Opened stream
  | OpenFailed open_stream_error
  | Elapsed

record open_init =
  init_peer :: peer_id
  init_protocol :: stream_protocol
  init_timeout :: duration

text \<open>
  The boxed future of \<open>open_stream_with_guard\<close>: its captured arguments, and the channel id once the body
  has started to run.
\<close>

record opening_stream =
  op_peer :: peer_id
  op_protocol :: stream_protocol
  op_timeout :: duration
  op_guard :: channel_guard
  op_id :: "data_channel_id option"

datatype open_state =
    Init open_init
  | Opening opening_stream
  | Finished

text \<open>The process state the future works on: the shared registry and the static id counter.\<close>

record dc_world =
  registry :: registry_inner
  id_counter :: u64

section \<open>Operations\<close>

definition open_future_new :: "peer_id \<Rightarrow> stream_protocol \<Rightarrow> duration \<Rightarrow> open_state" where
  "open_future_new p q t = Init \<lparr>init_peer = p, init_protocol = q, init_timeout = t\<rparr>"

fun map_open_stream_error :: "open_stream_error \<Rightarrow> error" where
  "map_open_stream_error (OpenUnsupportedProtocol q) = DataChannelError UnsupportedProtocolReason"
| "map_open_stream_error (OpenIo e) = DataChannelError (IoReason (to_string e))"
| "map_open_stream_error OpenOther = NetworkError UnknownKind"

definition into_opening_future ::
  "data_channel_limits \<Rightarrow> open_init \<Rightarrow> dc_world \<Rightarrow> (error + opening_stream) \<times> dc_world" where
  "into_opening_future limits i w =
     (case try_acquire limits (init_peer i) (init_protocol i) Outbound (registry w) of
        (None, r) \<Rightarrow> (Inl (DataChannelError ResourceLimitExceededReason), w\<lparr>registry := r\<rparr>)
      | (Some g, r) \<Rightarrow>
          (Inr \<lparr>op_peer = init_peer i, op_protocol = init_protocol i, op_timeout = init_timeout i,
                op_guard = g, op_id = None\<rparr>,
           w\<lparr>registry := r\<rparr>))"

text \<open>
  One poll of \<open>open_stream_with_guard\<close>. The first poll draws the channel id. A return with an error
  drops the captured guard; a return with a channel moves the guard into it.
\<close>

definition open_stream_with_guard ::
  "open_outcome \<Rightarrow> opening_stream \<Rightarrow> dc_world \<Rightarrow> data_channel res poll \<times> opening_stream \<times> dc_world" where
  "open_stream_with_guard out o0 w0 =
     (let (cid, w) = (case op_id o0 of
            Some i \<Rightarrow> (i, w0)
          | None \<Rightarrow> let (i, c) = data_channel_id_next (id_counter w0) in (i, w0\<lparr>id_counter := c\<rparr>));
          o1 = o0\<lparr>op_id := Some cid\<rparr>;
          released = w\<lparr>registry := guard_drop (op_guard o0) (registry w)\<rparr>
      in case out of
           StillOpening \<Rightarrow> (Pending, o1, w)
         | Opened s \<Rightarrow>
             (Ready (Inr (data_channel_new cid (op_peer o0) (op_protocol o0) Outbound s (Some (op_guard o0)))), o1, w)
         | OpenFailed e \<Rightarrow> (Ready (Inl (map_open_stream_error e)), o1, released)
         | Elapsed \<Rightarrow> (Ready (Inl (NetworkError TimeoutKind)), o1, released))"

text \<open>
  \<open>DataChannelOpenFuture::poll\<close>, a loop over the state machine; \<open>None\<close> is the panic of polling a finished
  future.
\<close>

function open_future_poll ::
  "data_channel_limits \<Rightarrow> open_outcome \<Rightarrow> open_state \<Rightarrow> dc_world \<Rightarrow>
   data_channel res poll option \<times> open_state \<times> dc_world" where
  "open_future_poll limits out (Init i) w =
     (case into_opening_future limits i w of
        (Inr f, w') \<Rightarrow> open_future_poll limits out (Opening f) w'
      | (Inl e, w') \<Rightarrow> (Some (Ready (Inl e)), Finished, w'))"
| "open_future_poll limits out (Opening f) w =
     (case open_stream_with_guard out f w of
        (Ready r, f', w') \<Rightarrow> (Some (Ready r), Finished, w')
      | (Pending, f', w') \<Rightarrow> (Some Pending, Opening f', w'))"
| "open_future_poll limits out Finished w = (None, Finished, w)"
  by pat_completeness auto
termination
  by (relation "measure (\<lambda>(limits, out, st, w). case st of Init i \<Rightarrow> 1 | _ \<Rightarrow> 0)") simp_all

text \<open>Dropping the future drops the boxed future with its guard, if it is opening.\<close>

fun open_future_drop :: "open_state \<Rightarrow> dc_world \<Rightarrow> dc_world" where
  "open_future_drop (Init i) w = w"
| "open_future_drop (Opening f) w = w\<lparr>registry := guard_drop (op_guard f) (registry w)\<rparr>"
| "open_future_drop Finished w = w"

text \<open>
  \<open>handle_inbound_channel\<close>: a stream over the limit is dropped; otherwise the handle is offered to the
  consumer without blocking, and dropped, guard included, when the consumer's queue is full or closed.
\<close>

definition handle_inbound_channel ::
  "data_channel_limits \<Rightarrow> try_send_outcome \<Rightarrow> stream_protocol \<Rightarrow> peer_id \<Rightarrow> stream \<Rightarrow> dc_world \<Rightarrow>
   data_channel option \<times> dc_world" where
  "handle_inbound_channel limits out protocol peer s w =
     (case try_acquire limits peer protocol Inbound (registry w) of
        (None, r) \<Rightarrow> (None, w\<lparr>registry := r\<rparr>)
      | (Some g, r) \<Rightarrow>
          let (i, c) = data_channel_id_next (id_counter w);
              ch = data_channel_new i peer protocol Inbound s (Some g)
          in case out of
               SendOk \<Rightarrow> (Some ch, w\<lparr>registry := r, id_counter := c\<rparr>)
             | SendFull \<Rightarrow> (None, w\<lparr>registry := data_channel_drop ch r, id_counter := c\<rparr>)
             | SendClosed \<Rightarrow> (None, w\<lparr>registry := data_channel_drop ch r, id_counter := c\<rparr>))"

section \<open>The guards each value owns\<close>

fun open_state_guards :: "open_state \<Rightarrow> channel_guard multiset" where
  "open_state_guards (Opening f) = {#op_guard f#}"
| "open_state_guards _ = {#}"

definition channel_guards :: "data_channel \<Rightarrow> channel_guard multiset" where
  "channel_guards c = (case dc_guard c of None \<Rightarrow> {#} | Some g \<Rightarrow> {#g#})"

fun polled_guards :: "data_channel res poll option \<Rightarrow> channel_guard multiset" where
  "polled_guards (Some (Ready (Inr c))) = channel_guards c"
| "polled_guards _ = {#}"

lemma channel_guards_new [quota_simps, simp]:
  "channel_guards (data_channel_new i p q d s g) = (case g of None \<Rightarrow> {#} | Some g \<Rightarrow> {#g#})"
  by (simp add: channel_guards_def data_channel_new_def)

lemma data_channel_drop_new [quota_simps, simp]:
  "data_channel_drop (data_channel_new i p q d s (Some g)) r = guard_drop g r"
  by (simp add: data_channel_drop_def data_channel_new_def)

lemma data_channel_drop_holds:
  "reg_holds limits r (channel_guards c + G) \<Longrightarrow> reg_holds limits (data_channel_drop c r) G"
  by (cases "dc_guard c") (simp_all add: channel_guards_def data_channel_drop_def quota.holds_release)

text \<open>Each operation moves guards between the registry's accounts and the values that own them.\<close>

lemma open_stream_holds:
  assumes "reg_holds limits (registry w) (add_mset (op_guard f) G)"
    and "open_stream_with_guard out f w = (p, f', w')"
  shows "reg_holds limits (registry w')
     ((case p of Pending \<Rightarrow> {#op_guard f'#} | Ready r \<Rightarrow> polled_guards (Some (Ready r))) + G)"
  using assms
  by (auto simp: open_stream_with_guard_def Let_def case_prod_beta quota.holds_release
      split: open_outcome.splits option.splits)

lemma open_opening_holds:
  assumes "reg_holds limits (registry w) (add_mset (op_guard f) G)"
    and "open_future_poll limits out (Opening f) w = (p, st', w')"
  shows "reg_holds limits (registry w') (polled_guards p + open_state_guards st' + G)"
proof -
  obtain q f' w1 where o: "open_stream_with_guard out f w = (q, f', w1)" by (metis prod_cases3)
  from open_stream_holds [OF assms(1) o] assms(2) o show ?thesis
    by (auto split: poll.splits)
qed

lemma open_future_poll_holds:
  assumes "reg_holds limits (registry w) (open_state_guards st + G)"
    and "open_future_poll limits out st w = (p, st', w')"
  shows "reg_holds limits (registry w') (polled_guards p + open_state_guards st' + G)"
proof (cases st)
  case (Init i)
  obtain g r where acq: "try_acquire limits (init_peer i) (init_protocol i) Outbound (registry w) = (g, r)"
    by (cases "try_acquire limits (init_peer i) (init_protocol i) Outbound (registry w)")
  from assms(1) Init have h: "reg_holds limits (registry w) G" by simp
  show ?thesis
  proof (cases g)
    case None
    with acq h have "r = registry w" using try_acquire_rejects by blast
    with assms(2) Init None acq h show ?thesis by (auto simp: into_opening_future_def)
  next
    case (Some g')
    with acq h have h': "reg_holds limits r (add_mset g' G)" using try_acquire_holds by blast
    let ?f = "\<lparr>op_peer = init_peer i, op_protocol = init_protocol i, op_timeout = init_timeout i,
               op_guard = g', op_id = None\<rparr>"
    have "open_future_poll limits out (Opening ?f) (w\<lparr>registry := r\<rparr>) = (p, st', w')"
      using assms(2) Init Some acq by (simp add: into_opening_future_def)
    from open_opening_holds [OF _ this] h' show ?thesis by simp
  qed
next
  case (Opening f)
  with assms open_opening_holds show ?thesis by auto
next
  case Finished
  with assms show ?thesis by auto
qed

lemma open_future_drop_holds:
  "reg_holds limits (registry w) (open_state_guards st + G) \<Longrightarrow>
   reg_holds limits (registry (open_future_drop st w)) G"
  by (cases st) (simp_all add: quota.holds_release)

lemma handle_inbound_holds:
  assumes "reg_holds limits (registry w) G"
    and "handle_inbound_channel limits out q p s w = (d, w')"
  shows "reg_holds limits (registry w') ((case d of None \<Rightarrow> {#} | Some c \<Rightarrow> channel_guards c) + G)"
proof -
  obtain g r where acq: "try_acquire limits p q Inbound (registry w) = (g, r)"
    by (cases "try_acquire limits p q Inbound (registry w)")
  show ?thesis
  proof (cases g)
    case None
    with acq assms(1) have "r = registry w" using try_acquire_rejects by blast
    with None acq assms show ?thesis by (auto simp: handle_inbound_channel_def)
  next
    case (Some g')
    with acq assms(1) have "reg_holds limits r (add_mset g' G)" using try_acquire_holds by blast
    with assms(2) Some acq show ?thesis
      by (auto simp: handle_inbound_channel_def Let_def case_prod_beta quota.holds_release
          split: try_send_outcome.splits)
  qed
qed

section \<open>The system of futures and handles over one registry\<close>

record dc_sys =
  world :: dc_world
  futures :: "open_state list"
  handles :: "data_channel list"

definition dc_sys_init :: "u64 \<Rightarrow> dc_sys" where
  "dc_sys_init c =
     \<lparr>world = \<lparr>registry = registry_inner_default, id_counter = c\<rparr>, futures = [], handles = []\<rparr>"

definition remove_at :: "nat \<Rightarrow> 'a list \<Rightarrow> 'a list" where
  "remove_at i xs = take i xs @ drop (Suc i) xs"

text \<open>
  The steps of client tasks, of the event loop and of the consumer of inbound channels: creating,
  polling and dropping an open future, an arriving stream, dropping a handle.
\<close>

inductive dc_step :: "data_channel_limits \<Rightarrow> dc_sys \<Rightarrow> dc_sys \<Rightarrow> bool" for limits where
  open_new: "dc_step limits s (s\<lparr>futures := futures s @ [open_future_new p q t]\<rparr>)"
| open_poll: "i < length (futures s) \<Longrightarrow>
     open_future_poll limits out (futures s ! i) (world s) = (Some r, st, w) \<Longrightarrow>
     dc_step limits s (s\<lparr>world := w, futures := (futures s)[i := st],
       handles := handles s @ (case r of Ready (Inr c) \<Rightarrow> [c] | _ \<Rightarrow> [])\<rparr>)"
| open_drop: "i < length (futures s) \<Longrightarrow>
     dc_step limits s (s\<lparr>world := open_future_drop (futures s ! i) (world s), futures := remove_at i (futures s)\<rparr>)"
| inbound: "handle_inbound_channel limits out q p st (world s) = (d, w) \<Longrightarrow>
     dc_step limits s (s\<lparr>world := w, handles := handles s @ (case d of None \<Rightarrow> [] | Some c \<Rightarrow> [c])\<rparr>)"
| handle_drop: "i < length (handles s) \<Longrightarrow>
     dc_step limits s (s\<lparr>world := (world s)\<lparr>registry := data_channel_drop (handles s ! i) (registry (world s))\<rparr>,
       handles := remove_at i (handles s)\<rparr>)"

inductive dc_reach :: "data_channel_limits \<Rightarrow> dc_sys \<Rightarrow> bool" for limits where
  dc_init: "dc_reach limits (dc_sys_init c)"
| dc_next: "dc_reach limits s \<Longrightarrow> dc_step limits s t \<Longrightarrow> dc_reach limits t"

definition owned_guards :: "dc_sys \<Rightarrow> channel_guard multiset" where
  "owned_guards s =
     sum_list (map open_state_guards (futures s)) + sum_list (map channel_guards (handles s))"

lemma sum_list_remove_at:
  fixes f :: "'a \<Rightarrow> 'b multiset"
  assumes "i < length xs"
  shows "sum_list (map f xs) = f (xs ! i) + sum_list (map f (remove_at i xs))"
proof -
  have "sum_list (map f xs) = sum_list (map f (take i xs @ xs ! i # drop (Suc i) xs))"
    using id_take_nth_drop [OF assms] by simp
  then show ?thesis by (simp add: remove_at_def ac_simps)
qed

lemma sum_list_update_at:
  fixes f :: "'a \<Rightarrow> 'b multiset"
  assumes "i < length xs"
  shows "sum_list (map f (xs[i := y])) = f y + sum_list (map f (remove_at i xs))"
  using assms by (simp add: upd_conv_take_nth_drop remove_at_def ac_simps)

lemma dc_step_holds:
  "dc_step limits s t \<Longrightarrow> reg_holds limits (registry (world s)) (owned_guards s) \<Longrightarrow>
   reg_holds limits (registry (world t)) (owned_guards t)"
proof (induction rule: dc_step.induct)
  case (open_new s p q t)
  then show ?case by (simp add: owned_guards_def open_future_new_def)
next
  case (open_poll i s out r st w)
  have "reg_holds limits (registry (world s)) (open_state_guards (futures s ! i) +
      (sum_list (map open_state_guards (remove_at i (futures s))) + sum_list (map channel_guards (handles s))))"
    using open_poll(3) sum_list_remove_at [OF open_poll(1), of open_state_guards]
    by (simp add: owned_guards_def ac_simps)
  from open_future_poll_holds [OF this open_poll(2)]
  show ?case
    using sum_list_update_at [OF open_poll(1), of open_state_guards st]
    by (auto simp: owned_guards_def ac_simps split: poll.splits sum.splits)
next
  case (open_drop i s)
  have "reg_holds limits (registry (world s)) (open_state_guards (futures s ! i) +
      (sum_list (map open_state_guards (remove_at i (futures s))) + sum_list (map channel_guards (handles s))))"
    using open_drop sum_list_remove_at [OF open_drop(1), of open_state_guards]
    by (simp add: owned_guards_def ac_simps)
  from open_future_drop_holds [OF this] show ?case by (simp add: owned_guards_def)
next
  case (inbound out q p st s d w)
  from handle_inbound_holds [OF inbound(2,1)] show ?case
    by (auto simp: owned_guards_def ac_simps split: option.splits)
next
  case (handle_drop i s)
  have "reg_holds limits (registry (world s)) (channel_guards (handles s ! i) +
      (sum_list (map open_state_guards (futures s)) + sum_list (map channel_guards (remove_at i (handles s)))))"
    using handle_drop sum_list_remove_at [OF handle_drop(1), of channel_guards]
    by (simp add: owned_guards_def ac_simps)
  from data_channel_drop_holds [OF this] show ?case by (simp add: owned_guards_def)
qed

lemma dc_reach_holds: "dc_reach limits s \<Longrightarrow> reg_holds limits (registry (world s)) (owned_guards s)"
proof (induction rule: dc_reach.induct)
  case (dc_init c)
  then show ?case using quota.holds_empty by (simp add: dc_sys_init_def owned_guards_def)
next
  case (dc_next s t)
  then show ?case by (blast intro: dc_step_holds)
qed

section \<open>Guards match the values that own them\<close>

fun opening_to :: "peer_id \<Rightarrow> open_state \<Rightarrow> bool" where
  "opening_to p (Opening f) \<longleftrightarrow> op_peer f = p"
| "opening_to p _ \<longleftrightarrow> False"

fun opening_with :: "stream_protocol \<Rightarrow> open_state \<Rightarrow> bool" where
  "opening_with q (Opening f) \<longleftrightarrow> op_protocol f = q"
| "opening_with q _ \<longleftrightarrow> False"

fun open_state_ok :: "open_state \<Rightarrow> bool" where
  "open_state_ok (Opening f) \<longleftrightarrow> op_guard f = mk_guard (op_peer f) (op_protocol f) Outbound"
| "open_state_ok _ \<longleftrightarrow> True"

definition handle_ok :: "data_channel \<Rightarrow> bool" where
  "handle_ok c \<longleftrightarrow> dc_guard c = Some (mk_guard (dc_peer c) (dc_protocol c) (dc_direction c))"

definition dc_ok :: "dc_sys \<Rightarrow> bool" where
  "dc_ok s \<longleftrightarrow> (\<forall>st \<in> set (futures s). open_state_ok st) \<and> (\<forall>c \<in> set (handles s). handle_ok c)"

lemma handle_ok_new [simp]:
  "handle_ok (data_channel_new i p q d s g) \<longleftrightarrow> g = Some (mk_guard p q d)"
  by (auto simp: handle_ok_def data_channel_new_def)

lemma try_acquire_guard: "try_acquire limits p q d r = (Some g, r') \<Longrightarrow> g = mk_guard p q d"
  by (auto simp: try_acquire_def Let_def split: if_splits)

fun polled_ok :: "data_channel res poll option \<Rightarrow> bool" where
  "polled_ok (Some (Ready (Inr c))) \<longleftrightarrow> handle_ok c"
| "polled_ok _ \<longleftrightarrow> True"

lemma open_stream_ok:
  assumes "op_guard f = mk_guard (op_peer f) (op_protocol f) Outbound"
    and "open_stream_with_guard out f w = (p, f', w')"
  shows "open_state_ok (Opening f') \<and> polled_ok (Some p)"
  using assms
  by (auto simp: open_stream_with_guard_def Let_def case_prod_beta split: open_outcome.splits option.splits)

lemma open_future_poll_ok:
  assumes "open_state_ok st" and "open_future_poll limits out st w = (p, st', w')"
  shows "open_state_ok st' \<and> polled_ok p"
  using assms
proof (induction limits out st w rule: open_future_poll.induct)
  case (1 limits out i w)
  obtain res w1 where r: "into_opening_future limits i w = (res, w1)"
    by (cases "into_opening_future limits i w")
  show ?case
  proof (cases res)
    case (Inl e)
    with r "1.prems" show ?thesis by auto
  next
    case (Inr f)
    then have "open_state_ok (Opening f)"
      using r by (auto simp: into_opening_future_def try_acquire_guard split: prod.splits option.splits)
    with r Inr "1.prems" "1.IH" [OF r [symmetric] Inr] show ?thesis by simp
  qed
next
  case (2 limits out f w)
  obtain p1 f1 w1 where o: "open_stream_with_guard out f w = (p1, f1, w1)" by (metis prod_cases3)
  have "open_state_ok (Opening f1) \<and> polled_ok (Some p1)"
    using open_stream_ok [OF _ o] "2.prems"(1) by simp
  with o "2.prems"(2) show ?case by (auto split: poll.splits)
next
  case (3 limits out w)
  then show ?case by auto
qed

lemma set_remove_at: "set (remove_at i xs) \<subseteq> set xs"
  by (auto simp: remove_at_def dest: in_set_takeD in_set_dropD)

lemma dc_step_ok: "dc_step limits s t \<Longrightarrow> dc_ok s \<Longrightarrow> dc_ok t"
proof (induction rule: dc_step.induct)
  case (open_new s p q t)
  then show ?case by (auto simp: dc_ok_def open_future_new_def)
next
  case (open_poll i s out r st w)
  then have "open_state_ok (futures s ! i)" by (simp add: dc_ok_def)
  from open_future_poll_ok [OF this open_poll(2)] open_poll(3) show ?case
    by (auto simp: dc_ok_def split: poll.splits sum.splits dest!: set_update_subset_insert [THEN subsetD])
next
  case (open_drop i s)
  then show ?case using set_remove_at [of i "futures s"] by (auto simp: dc_ok_def)
next
  case (inbound out q p st s d w)
  then show ?case
    by (auto simp: dc_ok_def handle_inbound_channel_def Let_def
        split: option.splits prod.splits try_send_outcome.splits dest: try_acquire_guard)
next
  case (handle_drop i s)
  then show ?case using set_remove_at [of i "handles s"] by (auto simp: dc_ok_def)
qed

lemma dc_reach_ok: "dc_reach limits s \<Longrightarrow> dc_ok s"
proof (induction rule: dc_reach.induct)
  case (dc_init c)
  then show ?case by (simp add: dc_ok_def dc_sys_init_def)
qed (rule dc_step_ok)

lemma live_peer_plus [simp]: "live_peer d p (G + H) = live_peer d p G + live_peer d p H"
  and live_protocol_plus [simp]: "live_protocol q (G + H) = live_protocol q G + live_protocol q H"
  by (simp_all add: live_peer_def live_protocol_def)

lemma live_handles:
  assumes "\<forall>c \<in> set hs. handle_ok c"
  shows "live_peer d p (sum_list (map channel_guards hs)) =
           length (filter (\<lambda>c. dc_direction c = d \<and> dc_peer c = p) hs)"
    and "live_protocol q (sum_list (map channel_guards hs)) =
           length (filter (\<lambda>c. dc_protocol c = q) hs)"
  using assms by (induction hs) (auto simp: handle_ok_def channel_guards_def)

lemma live_opening:
  assumes "\<forall>st \<in> set fs. open_state_ok st"
  shows "live_peer d p (sum_list (map open_state_guards fs)) =
           (if d = Outbound then length (filter (opening_to p) fs) else 0)"
    and "live_protocol q (sum_list (map open_state_guards fs)) = length (filter (opening_with q) fs)"
  using assms by (induction fs) (auto elim!: open_state_ok.elims)

lemma dc_reach_bounded:
  assumes "dc_reach limits s"
  shows "length (filter (\<lambda>c. dc_direction c = Inbound \<and> dc_peer c = p) (handles s))
           \<le> unat (max_inbound_per_peer limits)
       \<and> length (filter (\<lambda>c. dc_direction c = Outbound \<and> dc_peer c = p) (handles s))
           + length (filter (opening_to p) (futures s)) \<le> unat (max_outbound_per_peer limits)
       \<and> length (filter (\<lambda>c. dc_protocol c = q) (handles s))
           + length (filter (opening_with q) (futures s)) \<le> unat (max_per_protocol limits)"
proof -
  have w: "within_limits limits (owned_guards s)"
    using dc_reach_holds [OF assms] by (simp add: reg_holds_def)
  have ok: "\<forall>c \<in> set (handles s). handle_ok c" "\<forall>st \<in> set (futures s). open_state_ok st"
    using dc_reach_ok [OF assms] by (simp_all add: dc_ok_def)
  have "live_peer d p (owned_guards s) \<le> peer_limit limits d"
    and "live_protocol q (owned_guards s) \<le> unat (max_per_protocol limits)" for d
    using w by (simp_all add: within_limits_def protocol_limit_def)
  from this(1) [of Inbound] this(1) [of Outbound] this(2) show ?thesis
    using ok by (simp add: owned_guards_def live_handles live_opening add.commute)
qed

section \<open>Properties\<close>

text \<open>
  The number of open data channels is bounded, over all client tasks and the event loop together.
  In every reachable state, counting channel handles and outbound opens still in progress, no peer and
  no protocol exceeds its limit.
\<close>

theorem open_channels_bounded:
  assumes "dc_reach limits s"
  shows "length (filter (\<lambda>c. dc_direction c = Inbound \<and> dc_peer c = p) (handles s))
           \<le> unat (max_inbound_per_peer limits)
       \<and> length (filter (\<lambda>c. dc_direction c = Outbound \<and> dc_peer c = p) (handles s))
           + length (filter (opening_to p) (futures s)) \<le> unat (max_outbound_per_peer limits)
       \<and> length (filter (\<lambda>c. dc_protocol c = q) (handles s))
           + length (filter (opening_with q) (futures s)) \<le> unat (max_per_protocol limits)"
  by (rule dc_reach_bounded [OF assms])

lemma sample_open_reach:
  "dc_reach data_channel_limits_default
     \<lparr>world = \<lparr>registry = sample_registry, id_counter = 1\<rparr>, futures = [],
      handles = [data_channel_new (DataChannelId 0) (PeerId 7) ''/d/1'' Inbound (Stream 3) (Some sample_guard)]\<rparr>"
proof -
  have "handle_inbound_channel data_channel_limits_default SendOk ''/d/1'' (PeerId 7) (Stream 3) (world (dc_sys_init 0))
      = (Some (data_channel_new (DataChannelId 0) (PeerId 7) ''/d/1'' Inbound (Stream 3) (Some sample_guard)),
         \<lparr>registry = sample_registry, id_counter = 1\<rparr>)"
    using sample_acquire
    by (simp add: handle_inbound_channel_def dc_sys_init_def data_channel_id_next_def fetch_add_one_def)
  from dc_next [OF dc_init inbound [OF this]] show ?thesis by (simp add: dc_sys_init_def)
qed

theorem open_channels_bounded_witness:
  "length (filter (\<lambda>c. dc_direction c = Inbound \<and> dc_peer c = PeerId 7)
      [data_channel_new (DataChannelId 0) (PeerId 7) ''/d/1'' Inbound (Stream 3) (Some sample_guard)])
    \<le> unat (max_inbound_per_peer data_channel_limits_default)"
  using open_channels_bounded [OF sample_open_reach, of "PeerId 7"] by simp

text \<open>An open future to a peer for a protocol: not yet polled, or opening under a guard for them.\<close>

fun opens :: "peer_id \<Rightarrow> stream_protocol \<Rightarrow> open_state \<Rightarrow> bool" where
  "opens p q (Init i) \<longleftrightarrow> init_peer i = p \<and> init_protocol i = q"
| "opens p q (Opening f) \<longleftrightarrow> op_peer f = p \<and> op_protocol f = q \<and> op_guard f = mk_guard p q Outbound"
| "opens p q Finished \<longleftrightarrow> False"

text \<open>
  What a poll that is not turned away does with the quota. Before it the future may hold its guard already, or
  acquire it in this very poll; \<open>G\<close> are the guards of everybody else.
\<close>

definition open_poll_spec where
  "open_poll_spec limits p q G out w r st' w' \<longleftrightarrow>
     (case out of
        StillOpening \<Rightarrow> r = Pending \<and> opens p q st' \<and> open_state_guards st' = {#mk_guard p q Outbound#}
          \<and> reg_holds limits (registry w') (add_mset (mk_guard p q Outbound) G)
      | Opened sm \<Rightarrow> (\<exists>c. r = Ready (Inr c) \<and> st' = Finished \<and> dc_peer c = p \<and> dc_protocol c = q
          \<and> dc_direction c = Outbound \<and> dc_stream c = sm \<and> dc_guard c = Some (mk_guard p q Outbound)
          \<and> reg_holds limits (registry w') (add_mset (mk_guard p q Outbound) G))
      | OpenFailed e \<Rightarrow> r = Ready (Inl (map_open_stream_error e)) \<and> st' = Finished \<and> reg_holds limits (registry w') G
      | Elapsed \<Rightarrow> r = Ready (Inl (NetworkError TimeoutKind)) \<and> st' = Finished \<and> reg_holds limits (registry w') G)"

lemma opening_poll_spec:
  assumes "reg_holds limits (registry w) (add_mset (mk_guard p q Outbound) G)" and "opens p q (Opening f)"
  shows "\<exists>r st' w'. open_future_poll limits out (Opening f) w = (Some r, st', w') \<and> open_poll_spec limits p q G out w r st' w'"
proof -
  have "reg_holds limits (guard_drop (mk_guard p q Outbound) (registry w)) G" by (rule quota.holds_release [OF assms(1)])
  with assms show ?thesis
    by (cases out; cases "op_id f")
       (auto simp: open_poll_spec_def open_stream_with_guard_def data_channel_id_next_def fetch_add_one_def data_channel_new_def)
qed

lemma open_poll_admitted:
  assumes "reg_holds limits (registry w) (open_state_guards st + G)" and "opens p q st"
    and "open_state_guards st = {#} \<Longrightarrow> admits limits p q Outbound G"
  shows "\<exists>r st' w'. open_future_poll limits out st w = (Some r, st', w') \<and> open_poll_spec limits p q G out w r st' w'"
proof (cases st)
  case (Init i)
  with assms have h: "reg_holds limits (registry w) G" and a: "admits limits p q Outbound G"
    and i: "init_peer i = p" "init_protocol i = q" by simp_all
  let ?r = "registry_of (add_mset (mk_guard p q Outbound) G)"
  let ?f = "\<lparr>op_peer = p, op_protocol = q, op_timeout = init_timeout i, op_guard = mk_guard p q Outbound, op_id = None\<rparr>"
  have acq: "try_acquire limits p q Outbound (registry w) = (Some (mk_guard p q Outbound), ?r)"
    using try_acquire_registry_of [of limits G p q Outbound] h a by (simp add: reg_holds_def)
  then have p: "open_future_poll limits out st w = open_future_poll limits out (Opening ?f) (w\<lparr>registry := ?r\<rparr>)"
    by (simp add: Init into_opening_future_def i)
  have "reg_holds limits ?r (add_mset (mk_guard p q Outbound) G)"
    using h within_limits_add [OF _ a] by (simp add: reg_holds_def)
  then have "\<exists>r st' w'. open_future_poll limits out (Opening ?f) (w\<lparr>registry := ?r\<rparr>) = (Some r, st', w') \<and>
      open_poll_spec limits p q G out (w\<lparr>registry := ?r\<rparr>) r st' w'"
    by (intro opening_poll_spec) simp_all
  then show ?thesis unfolding p by (simp add: open_poll_spec_def)
next
  case (Opening f)
  with assms opening_poll_spec [of limits w p q G f out] show ?thesis by simp
next
  case Finished
  with assms(2) show ?thesis by simp
qed

lemma open_poll_rejected:
  assumes "reg_holds limits (registry w) G" and "opens p q st" and "open_state_guards st = {#}"
    and "\<not> admits limits p q Outbound G"
  shows "open_future_poll limits out st w =
    (Some (Ready (Inl (DataChannelError ResourceLimitExceededReason))), Finished, w)"
proof (cases st)
  case (Init i)
  have "try_acquire limits p q Outbound (registry w) = (None, registry w)"
    using try_acquire_registry_of [of limits G p q Outbound] assms(1,4) by (simp add: reg_holds_def)
  with Init assms(2) show ?thesis by (simp add: into_opening_future_def)
qed (use assms(2,3) in simp_all)

text \<open>
  C24: an open future holds quota exactly while it is opening, at every poll of its life. Take a future to a
  peer in any state, never polled or left pending by any number of earlier polls, and a registry that accounts
  for the guard the future holds (none before its first poll) and for the guards \<open>G\<close> of everybody else, who may
  have opened and closed channels since the last poll. Dropping the future leaves exactly \<open>G\<close> in the registry,
  and changes nothing at all if it was never polled. A first poll over the limit returns the resource-limit error
  and changes nothing. Every other poll, the first or a later one: while the stream library is still opening
  it stays pending, and the future holds exactly its one guard; when the library fails or the timeout elapses it
  returns the mapped error and exactly \<open>G\<close> is left; when the stream has opened it returns a channel that owns the
  guard. A future that has returned holds nothing.
\<close>

theorem open_future_quota:
  assumes "reg_holds limits (registry w) (open_state_guards st + G)" and "opens p q st"
  shows "registry (open_future_drop st w) = registry_of G
       \<and> (open_state_guards st = {#} \<longrightarrow> open_future_drop st w = w)
       \<and> (open_state_guards st = {#} \<and> \<not> admits limits p q Outbound G \<longrightarrow>
            open_future_poll limits out st w =
              (Some (Ready (Inl (DataChannelError ResourceLimitExceededReason))), Finished, w))
       \<and> (open_state_guards st \<noteq> {#} \<or> admits limits p q Outbound G \<longrightarrow>
            (\<exists>r st' w'. open_future_poll limits out st w = (Some r, st', w') \<and>
              (case out of
                 StillOpening \<Rightarrow> r = Pending \<and> opens p q st' \<and> open_state_guards st' = {#mk_guard p q Outbound#}
                   \<and> reg_holds limits (registry w') (add_mset (mk_guard p q Outbound) G)
               | Opened sm \<Rightarrow> (\<exists>c. r = Ready (Inr c) \<and> st' = Finished \<and> dc_peer c = p \<and> dc_protocol c = q
                   \<and> dc_direction c = Outbound \<and> dc_stream c = sm \<and> dc_guard c = Some (mk_guard p q Outbound)
                   \<and> reg_holds limits (registry w') (add_mset (mk_guard p q Outbound) G))
               | OpenFailed e \<Rightarrow> r = Ready (Inl (map_open_stream_error e)) \<and> st' = Finished
                   \<and> registry w' = registry_of G
               | Elapsed \<Rightarrow> r = Ready (Inl (NetworkError TimeoutKind)) \<and> st' = Finished
                   \<and> registry w' = registry_of G)))"
proof (intro conjI impI)
  show "registry (open_future_drop st w) = registry_of G"
    using open_future_drop_holds [OF assms(1)] by (simp add: reg_holds_def)
  show "open_future_drop st w = w" if "open_state_guards st = {#}"
    using that by (cases st) simp_all
  show "open_future_poll limits out st w = (Some (Ready (Inl (DataChannelError ResourceLimitExceededReason))), Finished, w)"
    if "open_state_guards st = {#} \<and> \<not> admits limits p q Outbound G"
    using that assms(1) by (intro open_poll_rejected [OF _ assms(2), where G = G]) auto
  assume "open_state_guards st \<noteq> {#} \<or> admits limits p q Outbound G"
  then obtain r st' w' where "open_future_poll limits out st w = (Some r, st', w')"
    and "open_poll_spec limits p q G out w r st' w'"
    using open_poll_admitted [OF assms, of out] by blast
  then show "\<exists>r st' w'. open_future_poll limits out st w = (Some r, st', w') \<and>
    (case out of
       StillOpening \<Rightarrow> r = Pending \<and> opens p q st' \<and> open_state_guards st' = {#mk_guard p q Outbound#}
         \<and> reg_holds limits (registry w') (add_mset (mk_guard p q Outbound) G)
     | Opened sm \<Rightarrow> (\<exists>c. r = Ready (Inr c) \<and> st' = Finished \<and> dc_peer c = p \<and> dc_protocol c = q
         \<and> dc_direction c = Outbound \<and> dc_stream c = sm \<and> dc_guard c = Some (mk_guard p q Outbound)
         \<and> reg_holds limits (registry w') (add_mset (mk_guard p q Outbound) G))
     | OpenFailed e \<Rightarrow> r = Ready (Inl (map_open_stream_error e)) \<and> st' = Finished \<and> registry w' = registry_of G
     | Elapsed \<Rightarrow> r = Ready (Inl (NetworkError TimeoutKind)) \<and> st' = Finished \<and> registry w' = registry_of G)"
    unfolding open_poll_spec_def reg_holds_def by (cases out) fastforce+
qed

text \<open>A first poll that stays pending, then one in which the timeout has elapsed.\<close>

theorem open_future_quota_witness:
  "\<exists>st w r. open_future_poll data_channel_limits_default StillOpening (open_future_new (PeerId 1) ''/d/1'' 30)
        \<lparr>registry = registry_inner_default, id_counter = 0\<rparr> = (Some Pending, st, w)
     \<and> open_state_guards st = {#mk_guard (PeerId 1) ''/d/1'' Outbound#}
     \<and> registry w = registry_of {#mk_guard (PeerId 1) ''/d/1'' Outbound#}
     \<and> open_future_poll data_channel_limits_default Elapsed st w = (Some (Ready (Inl (NetworkError TimeoutKind))), Finished, r)
     \<and> registry r = registry_inner_default"
proof -
  let ?w = "\<lparr>registry = registry_inner_default, id_counter = 0\<rparr>" and ?st = "open_future_new (PeerId 1) ''/d/1'' 30"
  have a: "admits data_channel_limits_default (PeerId 1) ''/d/1'' Outbound {#}"
    by (simp add: admits_def protocol_limit_def data_channel_limits_default_def)
  have h: "reg_holds data_channel_limits_default (registry ?w) (open_state_guards ?st + {#})" "opens (PeerId 1) ''/d/1'' ?st"
    using quota.holds_empty by (simp_all add: open_future_new_def)
  obtain st w where 1: "open_future_poll data_channel_limits_default StillOpening ?st ?w = (Some Pending, st, w)"
    "opens (PeerId 1) ''/d/1'' st" "open_state_guards st = {#mk_guard (PeerId 1) ''/d/1'' Outbound#}"
    "reg_holds data_channel_limits_default (registry w) {#mk_guard (PeerId 1) ''/d/1'' Outbound#}"
    using open_future_quota [OF h, of StillOpening] a by auto
  obtain r where 2: "open_future_poll data_channel_limits_default Elapsed st w =
      (Some (Ready (Inl (NetworkError TimeoutKind))), Finished, r)" "registry r = registry_inner_default"
    using open_future_quota [of data_channel_limits_default w st "{#}" "PeerId 1" "''/d/1''" Elapsed] 1
    by (auto simp: registry_of_empty)
  from 1 2 show ?thesis by (auto simp: reg_holds_def)
qed

text \<open>
  C32: accepting an inbound stream never leaks quota. The handler delivers a handle for the stream
  exactly when the limits admit it and the consumer's queue takes it, and then one more guard is
  live; a stream over the limit changes nothing at all, and a handle that the full or closed queue
  refuses leaves the registry as it was, only the id counter has moved.
\<close>

theorem inbound_channel_exact:
  assumes "reg_holds limits (registry w) G"
  shows "handle_inbound_channel limits out q p s w =
     (if \<not> admits limits p q Inbound G then (None, w)
      else if out = SendOk then
        (Some \<lparr>dc_id = DataChannelId (id_counter w), dc_peer = p, dc_protocol = q, dc_direction = Inbound,
               dc_stream = s, dc_guard = Some (mk_guard p q Inbound)\<rparr>,
         w\<lparr>registry := registry_of (add_mset (mk_guard p q Inbound) G), id_counter := id_counter w + 1\<rparr>)
      else (None, w\<lparr>id_counter := id_counter w + 1\<rparr>))"
proof -
  have r: "registry w = registry_of G" and lim: "within_limits limits G"
    using assms by (simp_all add: reg_holds_def)
  have restored: "admits limits p q Inbound G \<Longrightarrow>
      guard_drop (mk_guard p q Inbound) (registry_of (add_mset (mk_guard p q Inbound) G)) = registry_of G"
    using lim by (intro guard_drop_registry_of within_limits_add)
  note acq = try_acquire_registry_of [OF lim, of p q Inbound, folded r]
  show ?thesis
    using acq restored r
    by (cases out) (auto simp: handle_inbound_channel_def data_channel_id_next_def fetch_add_one_def
        data_channel_new_def data_channel_drop_def)
qed

theorem inbound_channel_exact_witness:
  "handle_inbound_channel data_channel_limits_default SendFull ''/d/1'' (PeerId 7) (Stream 3)
     \<lparr>registry = registry_inner_default, id_counter = 0\<rparr>
   = (None, \<lparr>registry = registry_inner_default, id_counter = 1\<rparr>)"
  using inbound_channel_exact [of data_channel_limits_default "\<lparr>registry = registry_inner_default, id_counter = 0\<rparr>"
      "{#}" SendFull "''/d/1''" "PeerId 7" "Stream 3"] quota.holds_empty
  by (simp add: admits_def protocol_limit_def data_channel_limits_default_def)

text \<open>What one poll of a state leads to.\<close>

definition poll_shape :: "open_state \<Rightarrow> data_channel res poll option \<Rightarrow> open_state \<Rightarrow> bool" where
  "poll_shape st p st' \<longleftrightarrow>
     (p = None \<longleftrightarrow> st = Finished) \<and> (\<forall>r. p = Some (Ready r) \<longrightarrow> st' = Finished) \<and>
     (p = Some Pending \<longrightarrow> (\<exists>f i. st' = Opening f \<and> op_id f = Some i))"

lemma poll_shape_opening:
  "open_future_poll limits out (Opening f) w = (p, st', w') \<Longrightarrow> poll_shape (Opening f) p st'"
  by (auto simp: poll_shape_def open_stream_with_guard_def Let_def case_prod_beta
      split: open_outcome.splits option.splits poll.splits)

lemma poll_shape_any:
  assumes "open_future_poll limits out st w = (p, st', w')"
  shows "poll_shape st p st'"
proof (cases st)
  case (Init i)
  obtain res w1 where r: "into_opening_future limits i w = (res, w1)"
    by (cases "into_opening_future limits i w")
  show ?thesis
  proof (cases res)
    case (Inl e)
    with r Init assms show ?thesis by (auto simp: poll_shape_def)
  next
    case (Inr f)
    with r Init assms have "open_future_poll limits out (Opening f) w1 = (p, st', w')" by simp
    from poll_shape_opening [OF this] Init show ?thesis by (simp add: poll_shape_def)
  qed
next
  case (Opening f)
  with assms poll_shape_opening show ?thesis by blast
next
  case Finished
  with assms show ?thesis by (auto simp: poll_shape_def)
qed

text \<open>
  The open future's state machine is sound. A poll panics exactly when the future has already
  returned; a poll that returns a result finishes the future; and once a future is opening, its polls
  stay pending with the same guard and the same channel id until the stream library answers.
\<close>

theorem open_future_state_machine:
  "(fst (open_future_poll limits out st w) = None \<longleftrightarrow> st = Finished)
   \<and> (\<forall>r st' w'. open_future_poll limits out st w = (Some (Ready r), st', w') \<longrightarrow> st' = Finished)
   \<and> (\<forall>st' w'. open_future_poll limits out st w = (Some Pending, st', w') \<longrightarrow>
        (\<exists>f i. st' = Opening f \<and> op_id f = Some i
            \<and> open_future_poll limits StillOpening st' w' = (Some Pending, st', w')))"
proof (intro conjI allI impI)
  obtain p st' w' where p: "open_future_poll limits out st w = (p, st', w')" by (metis prod_cases3)
  with poll_shape_any [OF p] show "fst (open_future_poll limits out st w) = None \<longleftrightarrow> st = Finished"
    by (simp add: poll_shape_def)
next
  fix r st' w'
  assume "open_future_poll limits out st w = (Some (Ready r), st', w')"
  from poll_shape_any [OF this] show "st' = Finished" by (simp add: poll_shape_def)
next
  fix st' w'
  assume "open_future_poll limits out st w = (Some Pending, st', w')"
  from poll_shape_any [OF this] obtain f i where "st' = Opening f" and "op_id f = Some i"
    by (auto simp: poll_shape_def)
  then show "\<exists>f i. st' = Opening f \<and> op_id f = Some i
      \<and> open_future_poll limits StillOpening st' w' = (Some Pending, st', w')"
    by (simp add: open_stream_with_guard_def)
qed

theorem open_future_state_machine_witness:
  "fst (open_future_poll data_channel_limits_default Elapsed Finished
     \<lparr>registry = registry_inner_default, id_counter = 0\<rparr>) = None"
  using open_future_state_machine by blast

end
