(* ===== verification/Pending_Map.thy ===== *)
theory Pending_Map
  imports Prelude
begin

text \<open>
  The expiring one-shot map of \<^verbatim>\<open>core/src/pending_map.rs\<close>. The hash table is an association list
  (its entries in some order) with distinct keys; every operation takes the lock once, so an
  execution of several threads and of the background cleanup task is a sequence of operations.
  \<open>Instant::now()\<close> is the argument \<open>now\<close> of the operations that read the clock. Cloning the map
  shares the table, so all clones act on the one state.
\<close>

section \<open>State and operations\<close>

definition DEFAULT_CLEANUP_INTERVAL :: duration where
  "DEFAULT_CLEANUP_INTERVAL = duration_from_secs 10"

record 'v pending_entry =
  entry_value :: 'v
  created_at :: instant

record ('k, 'v) pending_map =
  entries :: "('k \<times> 'v pending_entry) list"
  ttl :: duration

definition pm_new :: "duration \<Rightarrow> ('k, 'v) pending_map" where
  "pm_new d = \<lparr>entries = [], ttl = d\<rparr>"

definition pm_insert :: "instant \<Rightarrow> 'k \<Rightarrow> 'v \<Rightarrow> ('k, 'v) pending_map \<Rightarrow> ('k, 'v) pending_map" where
  "pm_insert now k v m =
     m\<lparr>entries := AList.update k \<lparr>entry_value = v, created_at = now\<rparr> (entries m)\<rparr>"

definition pm_take :: "'k \<Rightarrow> ('k, 'v) pending_map \<Rightarrow> 'v option \<times> ('k, 'v) pending_map" where
  "pm_take k m =
     (map_option entry_value (map_of (entries m) k), m\<lparr>entries := AList.delete k (entries m)\<rparr>)"

definition pm_len :: "('k, 'v) pending_map \<Rightarrow> nat" where
  "pm_len m = length (entries m)"

definition pm_is_empty :: "('k, 'v) pending_map \<Rightarrow> bool" where
  "pm_is_empty m \<longleftrightarrow> entries m = []"

text \<open>\<open>HashMap::retain\<close> with the freshness test, and the number of entries it dropped.\<close>

definition purge_expired_entries ::
  "instant \<Rightarrow> duration \<Rightarrow> ('k \<times> 'v pending_entry) list \<Rightarrow> nat \<times> ('k \<times> 'v pending_entry) list" where
  "purge_expired_entries now d es =
     (let es' = filter (\<lambda>(k, e). duration_since now (created_at e) < d) es
      in (length es - length es', es'))"

definition pm_purge_expired :: "instant \<Rightarrow> ('k, 'v) pending_map \<Rightarrow> nat \<times> ('k, 'v) pending_map" where
  "pm_purge_expired now m =
     (let (n, es) = purge_expired_entries now (ttl m) (entries m) in (n, m\<lparr>entries := es\<rparr>))"

text \<open>
  The background task of \<open>with_cleanup_interval\<close> purges at every tick of its interval; the tick
  times are an argument, since the runtime decides when the task runs.
\<close>

definition cleanup_task :: "instant list \<Rightarrow> ('k, 'v) pending_map \<Rightarrow> ('k, 'v) pending_map" where
  "cleanup_task ticks m = fold (\<lambda>now m. snd (pm_purge_expired now m)) ticks m"

text \<open>
  The ticks of \<open>time::interval(cleanup_interval)\<close> up to time \<open>t\<close>: the first at once, then one per
  interval.
\<close>

definition interval_ticks :: "instant \<Rightarrow> duration \<Rightarrow> instant \<Rightarrow> instant list" where
  "interval_ticks start i t = map (\<lambda>n. start + n * i) [0..<Suc ((t - start) div i)]"

section \<open>Executions\<close>

datatype ('k, 'v) pm_op = Insert 'k 'v | Take 'k | Purge

fun pm_apply :: "instant \<Rightarrow> ('k, 'v) pm_op \<Rightarrow> ('k, 'v) pending_map \<Rightarrow> ('k, 'v) pending_map" where
  "pm_apply now (Insert k v) m = pm_insert now k v m"
| "pm_apply now (Take k) m = snd (pm_take k m)"
| "pm_apply now Purge m = snd (pm_purge_expired now m)"

definition pm_exec ::
  "(instant \<times> ('k, 'v) pm_op) list \<Rightarrow> ('k, 'v) pending_map \<Rightarrow> ('k, 'v) pending_map" where
  "pm_exec ops m = fold (\<lambda>(now, op) m. pm_apply now op m) ops m"

fun op_key :: "('k, 'v) pm_op \<Rightarrow> 'k option" where
  "op_key (Insert k v) = Some k"
| "op_key (Take k) = Some k"
| "op_key Purge = None"

section \<open>Well-formedness and abstraction\<close>

definition pm_wf :: "('k, 'v) pending_map \<Rightarrow> bool" where
  "pm_wf m \<longleftrightarrow> distinct (map fst (entries m))"

definition pm_abs :: "('k, 'v) pending_map \<Rightarrow> 'k \<rightharpoonup> 'v pending_entry" where
  "pm_abs m = map_of (entries m)"

lemma pm_wf_new [simp]: "pm_wf (pm_new d)"
  by (simp add: pm_wf_def pm_new_def)

lemma pm_wf_insert [simp]: "pm_wf m \<Longrightarrow> pm_wf (pm_insert now k v m)"
  by (simp add: pm_wf_def pm_insert_def distinct_update)

lemma pm_wf_take [simp]: "pm_wf m \<Longrightarrow> pm_wf (snd (pm_take k m))"
  by (simp add: pm_wf_def pm_take_def distinct_delete)

lemma purge_entries_eq:
  "purge_expired_entries now d es =
     (length (filter (\<lambda>(k, e). d \<le> duration_since now (created_at e)) es),
      filter (\<lambda>(k, e). duration_since now (created_at e) < d) es)"
proof -
  have "length (filter (\<lambda>(k, e). d \<le> duration_since now (created_at e)) es)
      = length es - length (filter (\<lambda>(k, e). duration_since now (created_at e) < d) es)"
    using sum_length_filter_compl [of "\<lambda>(k, e). duration_since now (created_at e) < d" es]
    by (simp add: case_prod_unfold not_less)
  then show ?thesis by (simp add: purge_expired_entries_def Let_def)
qed

lemma pm_purge_eq:
  "pm_purge_expired now m =
     (length (filter (\<lambda>(k, e). ttl m \<le> duration_since now (created_at e)) (entries m)),
      m\<lparr>entries := filter (\<lambda>(k, e). duration_since now (created_at e) < ttl m) (entries m)\<rparr>)"
  by (simp add: pm_purge_expired_def purge_entries_eq)

lemma pm_wf_purge [simp]: "pm_wf m \<Longrightarrow> pm_wf (snd (pm_purge_expired now m))"
  by (simp add: pm_wf_def pm_purge_eq distinct_map_filter)

lemma ttl_frame [simp]:
  "ttl (pm_new d) = d"
  "ttl (pm_insert now k v m) = ttl m"
  "ttl (snd (pm_take k m)) = ttl m"
  "ttl (snd (pm_purge_expired now m)) = ttl m"
  by (simp_all add: pm_new_def pm_insert_def pm_take_def pm_purge_eq)

lemma pm_abs_new [simp]: "pm_abs (pm_new d) = Map.empty"
  by (simp add: pm_abs_def pm_new_def)

lemma pm_abs_insert [simp]:
  "pm_abs (pm_insert now k v m) = (pm_abs m)(k \<mapsto> \<lparr>entry_value = v, created_at = now\<rparr>)"
  by (simp add: pm_abs_def pm_insert_def update_conv')

lemma pm_take_value [simp]: "fst (pm_take k m) = map_option entry_value (pm_abs m k)"
  by (simp add: pm_abs_def pm_take_def)

lemma pm_abs_take [simp]: "pm_abs (snd (pm_take k m)) = (pm_abs m)(k := None)"
  by (simp add: pm_abs_def pm_take_def delete_conv')

lemma map_of_filter_value:
  "distinct (map fst xs) \<Longrightarrow>
   map_of (filter (\<lambda>(k, v). P v) xs) k = Option.bind (map_of xs k) (\<lambda>v. if P v then Some v else None)"
proof (induction xs)
  case Nil
  then show ?case by simp
next
  case (Cons x xs)
  obtain k' v where x: "x = (k', v)" by (cases x)
  from Cons.prems x have "k' \<notin> fst ` set xs" and IH: "distinct (map fst xs)" by auto
  then have none: "map_of xs k' = None" by (simp add: map_of_eq_None_iff)
  show ?case using Cons.IH [OF IH] x none by auto
qed

lemma pm_abs_purge:
  assumes "pm_wf m"
  shows "pm_abs (snd (pm_purge_expired now m)) k =
     Option.bind (pm_abs m k)
       (\<lambda>e. if duration_since now (created_at e) < ttl m then Some e else None)"
  using assms by (simp add: pm_abs_def pm_purge_eq pm_wf_def map_of_filter_value)

lemma card_dom_pm_abs: "pm_wf m \<Longrightarrow> card (dom (pm_abs m)) = pm_len m"
  by (simp add: pm_abs_def pm_wf_def pm_len_def dom_map_of_conv_image_fst
        distinct_card [of "map fst (entries m)", simplified])

section \<open>The interface the request-response path relies on\<close>

text \<open>
  A one-shot store: what is put under a key is handed out once. The client of the interface is
  the reply path, which stores a response channel under a fresh id and takes it when the
  application answers.
\<close>

locale one_shot_store =
  fixes put :: "instant \<Rightarrow> 'k \<Rightarrow> 'v \<Rightarrow> 's \<Rightarrow> 's"
    and take_out :: "'k \<Rightarrow> 's \<Rightarrow> 'v option \<times> 's"
    and contents :: "'s \<Rightarrow> 'k \<rightharpoonup> 'v"
    and invar :: "'s \<Rightarrow> bool"
  assumes contents_put: "invar s \<Longrightarrow> contents (put t k v s) = (contents s)(k \<mapsto> v)"
    and take_result: "invar s \<Longrightarrow> fst (take_out k s) = contents s k"
    and contents_take: "invar s \<Longrightarrow> contents (snd (take_out k s)) = (contents s)(k := None)"
    and invar_put: "invar s \<Longrightarrow> invar (put t k v s)"
    and invar_take: "invar s \<Longrightarrow> invar (snd (take_out k s))"
begin

lemma take_put_same: "invar s \<Longrightarrow> fst (take_out k (put t k v s)) = Some v"
  by (simp add: take_result invar_put contents_put)

lemma take_put_other: "invar s \<Longrightarrow> k \<noteq> k' \<Longrightarrow> fst (take_out k (put t k' v s)) = fst (take_out k s)"
  by (simp add: take_result invar_put contents_put)

lemma take_once: "invar s \<Longrightarrow> fst (take_out k (snd (take_out k s))) = None"
  by (simp add: take_result invar_take contents_take)

lemma take_keeps_others:
  "invar s \<Longrightarrow> k \<noteq> k' \<Longrightarrow> fst (take_out k (snd (take_out k' s))) = fst (take_out k s)"
  by (simp add: take_result invar_take contents_take)

end

definition pm_contents :: "('k, 'v) pending_map \<Rightarrow> 'k \<rightharpoonup> 'v" where
  "pm_contents m k = map_option entry_value (pm_abs m k)"

interpretation pm: one_shot_store pm_insert pm_take pm_contents pm_wf
  by unfold_locales (auto simp: pm_contents_def fun_eq_iff)

section \<open>Lifetime of an entry\<close>

lemma pm_wf_apply [simp]: "pm_wf m \<Longrightarrow> pm_wf (pm_apply now op m)"
  by (cases op) simp_all

lemma ttl_apply [simp]: "ttl (pm_apply now op m) = ttl m"
  by (cases op) simp_all

lemma pm_exec_Nil [simp]: "pm_exec [] m = m"
  and pm_exec_Cons [simp]: "pm_exec ((now, op) # ops) m = pm_exec ops (pm_apply now op m)"
  by (simp_all add: pm_exec_def)

lemma pm_wf_exec: "pm_wf m \<Longrightarrow> pm_wf (pm_exec ops m)"
  by (induction ops arbitrary: m) (auto simp: case_prod_beta pm_exec_def)

text \<open>What one operation on other keys does to the entry of \<open>k\<close>.\<close>

definition expires_at :: "('k, 'v) pm_op \<Rightarrow> instant \<Rightarrow> instant \<Rightarrow> duration \<Rightarrow> bool" where
  "expires_at op now t0 d \<longleftrightarrow> op = Purge \<and> d \<le> duration_since now t0"

lemma pm_abs_apply_other:
  assumes "pm_wf m" and "op_key op \<noteq> Some k"
  shows "pm_abs (pm_apply now op m) k =
     Option.bind (pm_abs m k) (\<lambda>e. if expires_at op now (created_at e) (ttl m) then None else Some e)"
proof (cases op)
  case Purge
  with assms show ?thesis
    by (cases "pm_abs m k") (simp_all add: expires_at_def pm_abs_purge not_le [symmetric])
qed (use assms in \<open>simp_all add: expires_at_def\<close>)

lemma pm_abs_exec_other:
  assumes "pm_wf m" and "\<forall>(now, op) \<in> set ops. op_key op \<noteq> Some k"
  shows "pm_abs (pm_exec ops m) k =
     Option.bind (pm_abs m k)
       (\<lambda>e. if \<exists>(now, op) \<in> set ops. expires_at op now (created_at e) (ttl m) then None else Some e)"
  using assms
proof (induction ops arbitrary: m)
  case Nil
  then show ?case by (cases "pm_abs m k") simp_all
next
  case (Cons x ops)
  obtain now op where x: "x = (now, op)" by (cases x)
  with Cons.prems have "op_key op \<noteq> Some k" by simp
  from pm_abs_apply_other [OF Cons.prems(1) this, of now]
  show ?case
    using Cons.IH [of "pm_apply now op m"] Cons.prems x
    by (cases "pm_abs m k") auto
qed

section \<open>Abstract specification and properties\<close>

text \<open>
  The specification: a partial map from keys to a value and its insertion time. A purge keeps
  exactly the entries younger than the time to live.
\<close>

fun pmspec_apply ::
  "duration \<Rightarrow> instant \<Rightarrow> ('k, 'v) pm_op \<Rightarrow> ('k \<rightharpoonup> 'v pending_entry) \<Rightarrow> ('k \<rightharpoonup> 'v pending_entry)" where
  "pmspec_apply d now (Insert k v) M = M(k \<mapsto> \<lparr>entry_value = v, created_at = now\<rparr>)"
| "pmspec_apply d now (Take k) M = M(k := None)"
| "pmspec_apply d now Purge M =
     (\<lambda>k. case M k of None \<Rightarrow> None
        | Some e \<Rightarrow> if now - created_at e < d then Some e else None)"

lemma pm_apply_refines:
  "pm_wf m \<Longrightarrow> pm_abs (pm_apply now op m) = pmspec_apply (ttl m) now op (pm_abs m)"
  by (cases op)
    (auto simp: fun_eq_iff pm_abs_purge duration_since_def split: option.splits Option.bind_splits)

text \<open>
  C23: every interleaving of insertions, takes and purges on the hash table computes what the
  specification computes on the abstract map, keeps the keys distinct and the length equal to the
  number of live keys.
\<close>

theorem pm_exec_refines:
  assumes "pm_wf m"
  shows "pm_abs (pm_exec ops m) = fold (\<lambda>(now, op). pmspec_apply (ttl m) now op) ops (pm_abs m)
       \<and> pm_wf (pm_exec ops m)
       \<and> pm_len (pm_exec ops m) = card (dom (pm_abs (pm_exec ops m)))"
proof -
  have "pm_abs (pm_exec ops m) = fold (\<lambda>(now, op). pmspec_apply (ttl m) now op) ops (pm_abs m)"
    using assms
  proof (induction ops arbitrary: m)
    case (Cons x ops)
    obtain now op where x: "x = (now, op)" by (cases x)
    show ?case
      using Cons.IH [of "pm_apply now op m"] Cons.prems by (simp add: x pm_apply_refines)
  qed simp
  with pm_wf_exec [OF assms, of ops] card_dom_pm_abs [of "pm_exec ops m"] show ?thesis by simp
qed

theorem pm_exec_refines_witness:
  "pm_wf (pm_new 5 :: (nat, string) pending_map) \<and>
   pm_len (pm_exec [(0, Insert 1 ''a''), (3, Insert 2 ''b''), (6, Purge)] (pm_new 5 :: (nat, string) pending_map)) = 1 \<and>
   pm_wf (pm_exec [(0, Insert 1 ''a''), (3, Insert 2 ''b''), (6, Purge)] (pm_new 5 :: (nat, string) pending_map))"
  using pm_exec_refines [of "pm_new 5 :: (nat, string) pending_map"
      "[(0, Insert 1 ''a''), (3, Insert 2 ''b''), (6, Purge)]"]
  by (simp add: pm_len_def) (simp add: pm_insert_def pm_purge_eq pm_new_def duration_since_def)

lemma take_after_exec:
  assumes "pm_wf m" and "\<forall>(now, op) \<in> set ops. op_key op \<noteq> Some k"
  shows "fst (pm_take k (pm_exec ops (pm_insert t0 k v m))) =
     (if \<exists>(now, op) \<in> set ops. op = Purge \<and> ttl m \<le> now - t0 then None else Some v)"
proof -
  have "pm_abs (pm_exec ops (pm_insert t0 k v m)) k =
      (if \<exists>(now, op) \<in> set ops. expires_at op now t0 (ttl m) then None
       else Some \<lparr>entry_value = v, created_at = t0\<rparr>)"
    using pm_abs_exec_other [of "pm_insert t0 k v m" ops k] assms by simp
  then show ?thesis by (simp add: expires_at_def duration_since_def)
qed

text \<open>
  The exact lifetime of a stored value. While no operation touches its key, a value inserted
  at time \<open>t0\<close> is handed out by a later take unless some purge ran at least \<open>ttl\<close> after \<open>t0\<close>: it is
  never purged early, and it does not survive a purge that runs after it expired.
\<close>

theorem pm_lifetime:
  assumes "pm_wf m" and "\<forall>(now, op) \<in> set ops. op_key op \<noteq> Some k"
  shows "fst (pm_take k (pm_exec ops (pm_insert t0 k v m))) =
     (if \<exists>(now, op) \<in> set ops. op = Purge \<and> ttl m \<le> now - t0 then None else Some v)"
  by (rule take_after_exec [OF assms])

theorem pm_lifetime_witness:
  "fst (pm_take 1 (pm_exec [(60, Purge), (61, Insert 2 ''x'')]
      (pm_insert 10 1 ''chan'' (pm_new 50 :: (nat, string) pending_map)))) = None \<and>
   fst (pm_take 1 (pm_exec [(59, Purge), (61, Insert 2 ''x'')]
      (pm_insert 10 1 ''chan'' (pm_new 50 :: (nat, string) pending_map)))) = Some ''chan''"
  using pm_lifetime [of "pm_new 50 :: (nat, string) pending_map" "[(60, Purge), (61, Insert 2 ''x'')]" 1 10 "''chan''"]
    pm_lifetime [of "pm_new 50 :: (nat, string) pending_map" "[(59, Purge), (61, Insert 2 ''x'')]" 1 10 "''chan''"]
  by simp

text \<open>
  A value is consumed once. After a take of \<open>k\<close>, whatever other operations run, a further take
  of \<open>k\<close> yields nothing until somebody inserts under \<open>k\<close> again.
\<close>

theorem pm_one_shot:
  assumes "pm_wf m" and "\<forall>(now, op) \<in> set ops. \<forall>v. op \<noteq> Insert k v"
  shows "fst (pm_take k (pm_exec ops (snd (pm_take k m)))) = None"
proof -
  have "pm_abs m' k = None \<Longrightarrow> pm_wf m' \<Longrightarrow> pm_abs (pm_exec ops m') k = None" for m'
    using assms(2)
  proof (induction ops arbitrary: m')
    case (Cons x ops)
    obtain now op where x: "x = (now, op)" by (cases x)
    have "pm_abs (pm_apply now op m') k = None"
      using Cons.prems x by (cases op) (auto simp: pm_abs_purge)
    then show ?case using Cons.IH [of "pm_apply now op m'"] Cons.prems x by auto
  qed simp
  from this [of "snd (pm_take k m)"] assms(1) show ?thesis by simp
qed

theorem pm_one_shot_witness:
  "fst (pm_take 1 (pm_insert 0 1 ''chan'' (pm_new 50 :: (nat, string) pending_map))) = Some ''chan'' \<and>
   fst (pm_take 1 (pm_exec [(1, Take 1), (2, Insert 2 ''y'')]
     (snd (pm_take 1 (pm_insert 0 1 ''chan'' (pm_new 50 :: (nat, string) pending_map)))))) = None"
  using pm_one_shot [of "pm_insert 0 1 ''chan'' (pm_new 50 :: (nat, string) pending_map)"
      "[(1, Take 1), (2, Insert 2 ''y'')]" 1]
  by simp

text \<open>
  A purge reports how many entries it removed, removes exactly the entries whose age has
  reached the time to live, and leaves nothing for a second purge at the same instant.
\<close>

theorem pm_purge_exact:
  "fst (pm_purge_expired now m) + pm_len (snd (pm_purge_expired now m)) = pm_len m
   \<and> set (entries (snd (pm_purge_expired now m))) =
       {(k, e) \<in> set (entries m). now < created_at e + ttl m \<and> 0 < ttl m}
   \<and> fst (pm_purge_expired now (snd (pm_purge_expired now m))) = 0"
proof -
  have "fst (pm_purge_expired now m) + pm_len (snd (pm_purge_expired now m)) = pm_len m"
    using sum_length_filter_compl [of "\<lambda>(k, e). ttl m \<le> duration_since now (created_at e)" "entries m"]
    by (simp add: pm_purge_eq pm_len_def case_prod_unfold not_le)
  moreover have "set (entries (snd (pm_purge_expired now m))) =
       {(k, e) \<in> set (entries m). now < created_at e + ttl m \<and> 0 < ttl m}"
    by (auto simp: pm_purge_eq duration_since_def)
  moreover have "fst (pm_purge_expired now (snd (pm_purge_expired now m))) = 0"
    by (simp add: pm_purge_eq filter_empty_conv case_prod_unfold)
  ultimately show ?thesis by blast
qed

lemma interval_tick_in_window:
  assumes "0 < i" and "start \<le> x" and "x + i \<le> t"
  shows "\<exists>now \<in> set (interval_ticks start i t). x \<le> now \<and> now \<le> x + i"
proof -
  define n where "n = Suc ((x - start) div i)"
  have "(x - start) div i * i \<le> x - start" and "x - start < n * i"
    using assms(1) by (simp_all add: n_def dividend_less_div_times add.commute)
  then have x: "x \<le> start + n * i" "start + n * i \<le> x + i"
    using assms(2) unfolding n_def mult_Suc by linarith+
  then have "n * i \<le> t - start" using assms(3) by linarith
  then have "n \<le> (t - start) div i" using assms(1) by (simp add: less_eq_div_iff_mult_less_eq)
  then have "start + n * i \<in> set (interval_ticks start i t)"
    by (auto simp: interval_ticks_def simp del: upt_Suc)
  with x show ?thesis by blast
qed

text \<open>
  C33: the background task bounds staleness. When the cleanup task has been ticking since before a
  value was inserted, the value is gone one cleanup interval after its time to live ran out.
\<close>

theorem cleanup_bounds_staleness:
  assumes "pm_wf m" and "0 < i" and "start \<le> t0" and "t0 + ttl m + i \<le> t"
  shows "fst (pm_take k (cleanup_task (interval_ticks start i t) (pm_insert t0 k v m))) = None"
proof -
  let ?ticks = "interval_ticks start i t"
  have "cleanup_task ts m' = pm_exec (map (\<lambda>t. (t, Purge)) ts) m'" for ts and m' :: "('a, 'b) pending_map"
    by (induction ts arbitrary: m') (simp_all add: cleanup_task_def)
  moreover obtain now where "now \<in> set ?ticks" and "t0 + ttl m \<le> now"
    using interval_tick_in_window [of i start "t0 + ttl m" t] assms by auto
  then have "\<exists>(now, op) \<in> set (map (\<lambda>t. (t, Purge)) ?ticks). op = Purge \<and> ttl m \<le> now - t0"
    by force
  ultimately show ?thesis
    using take_after_exec [OF assms(1), of "map (\<lambda>t. (t, Purge)) ?ticks" k t0 v] by auto
qed

theorem cleanup_bounds_staleness_witness:
  "fst (pm_take 7 (cleanup_task (interval_ticks 0 DEFAULT_CLEANUP_INTERVAL 13000000000)
     (pm_insert 5 7 ''chan'' (pm_new 2000000000 :: (nat, string) pending_map)))) = None"
  using cleanup_bounds_staleness [of "pm_new 2000000000 :: (nat, string) pending_map"
      DEFAULT_CLEANUP_INTERVAL 0 5 13000000000 7 "''chan''"]
  by (simp add: DEFAULT_CLEANUP_INTERVAL_def duration_from_secs_def)

end
