(* ===== verification/Config.thy ===== *)
theory Config
  imports Channel_Registry Basic_Commands
begin

text \<open>
  The node configuration of \<^verbatim>\<open>core/src/config.rs\<close> with its defaults and builder methods, and the
  behaviour that \<^verbatim>\<open>core/src/runtime/behaviour.rs\<close> assembles from it: which protocols are on and with
  which parameters. Building the protocol objects themselves belongs to the networking library; whether
  mDNS initialises and whether a protocol name is accepted are arguments.
\<close>

section \<open>Configuration data\<close>

record relay_limits =
  max_reservations :: usize
  max_reservations_per_peer :: usize
  reservation_duration :: duration
  max_circuits :: usize
  max_circuits_per_peer :: usize
  max_circuit_duration :: duration
  max_circuit_bytes :: u64

definition relay_limits_default :: relay_limits where
  "relay_limits_default =
     \<lparr>max_reservations = 16, max_reservations_per_peer = 2,
      reservation_duration = duration_from_secs (30 * 60), max_circuits = 8, max_circuits_per_peer = 2,
      max_circuit_duration = duration_from_secs (30 * 60), max_circuit_bytes = 64 * 1024 * 1024\<rparr>"

record lan_helper_config =
  enable_kad_server :: bool
  helper_relay_limits :: relay_limits
  announce_private_addrs :: bool

definition lan_helper_config_default :: lan_helper_config where
  "lan_helper_config_default =
     \<lparr>enable_kad_server = True, helper_relay_limits = relay_limits_default, announce_private_addrs = True\<rparr>"

datatype infrastructure_mode = Off | LanHelper lan_helper_config

definition roles_kad_server :: infrastructure_roles where
  "roles_kad_server = \<lparr>kad_server = True, relay_server = False\<rparr>"

definition roles_relay_server :: infrastructure_roles where
  "roles_relay_server = \<lparr>kad_server = False, relay_server = True\<rparr>"

definition roles_kad_and_relay :: infrastructure_roles where
  "roles_kad_and_relay = \<lparr>kad_server = True, relay_server = True\<rparr>"

record node_config =
  protocol_version :: string
  agent_version :: string
  listen_addrs :: "multiaddr list"
  bootstrap_peers :: "(peer_id \<times> multiaddr) list"
  enable_mdns :: bool
  enable_relay_client :: bool
  enable_dcutr :: bool
  enable_autonat :: bool
  idle_connection_timeout :: duration
  ping_interval :: duration
  ping_timeout :: duration
  kad_query_timeout :: duration
  kad_server_mode :: bool
  infrastructure_mode :: infrastructure_mode
  req_resp_protocol :: string
  req_resp_timeout :: duration
  data_channel_protocols :: "stream_protocol list"
  data_channel_open_timeout :: duration
  data_channel_idle_timeout :: duration
  data_channel_limits :: data_channel_limits

text \<open>\<open>/ip4/0.0.0.0/tcp/0\<close>, \<open>/ip6/::/tcp/0\<close>, and the version in the crate manifest.\<close>

definition node_config_default :: node_config where
  "node_config_default =
     \<lparr>protocol_version = ''/swarm-p2p/1.0.0'', agent_version = ''swarm-p2p/0.1.0'',
      listen_addrs = [[Ip4 0, Tcp 0], [Ip6 0, Tcp 0]], bootstrap_peers = [],
      enable_mdns = True, enable_relay_client = True, enable_dcutr = True, enable_autonat = True,
      idle_connection_timeout = duration_from_secs 60, ping_interval = duration_from_secs 15,
      ping_timeout = duration_from_secs 10, kad_query_timeout = duration_from_secs 60,
      kad_server_mode = False, infrastructure_mode = Off,
      req_resp_protocol = ''/swarm-p2p/req/1.0.0'', req_resp_timeout = duration_from_secs 120,
      data_channel_protocols = [], data_channel_open_timeout = duration_from_secs 30,
      data_channel_idle_timeout = duration_from_secs 300,
      data_channel_limits = data_channel_limits_default\<rparr>"

definition node_config_new :: "string \<Rightarrow> string \<Rightarrow> node_config" where
  "node_config_new p a = node_config_default\<lparr>protocol_version := p, agent_version := a\<rparr>"

text \<open>The builder methods: each overwrites one field.\<close>

datatype config_option =
    WithListenAddrs "multiaddr list"
  | WithBootstrapPeers "(peer_id \<times> multiaddr) list"
  | WithMdns bool
  | WithRelayClient bool
  | WithDcutr bool
  | WithAutonat bool
  | WithKadServerMode bool
  | WithInfrastructureMode infrastructure_mode
  | WithLanHelper lan_helper_config
  | WithReqRespProtocol string
  | WithReqRespTimeout duration
  | WithDataChannelProtocols "stream_protocol list"
  | WithDataChannelOpenTimeout duration
  | WithDataChannelIdleTimeout duration
  | WithDataChannelLimits data_channel_limits

fun config_with :: "config_option \<Rightarrow> node_config \<Rightarrow> node_config" where
  "config_with (WithListenAddrs as) c = c\<lparr>listen_addrs := as\<rparr>"
| "config_with (WithBootstrapPeers ps) c = c\<lparr>bootstrap_peers := ps\<rparr>"
| "config_with (WithMdns b) c = c\<lparr>enable_mdns := b\<rparr>"
| "config_with (WithRelayClient b) c = c\<lparr>enable_relay_client := b\<rparr>"
| "config_with (WithDcutr b) c = c\<lparr>enable_dcutr := b\<rparr>"
| "config_with (WithAutonat b) c = c\<lparr>enable_autonat := b\<rparr>"
| "config_with (WithKadServerMode b) c = c\<lparr>kad_server_mode := b\<rparr>"
| "config_with (WithInfrastructureMode m) c = c\<lparr>infrastructure_mode := m\<rparr>"
| "config_with (WithLanHelper l) c = c\<lparr>infrastructure_mode := LanHelper l\<rparr>"
| "config_with (WithReqRespProtocol p) c = c\<lparr>req_resp_protocol := p\<rparr>"
| "config_with (WithReqRespTimeout t) c = c\<lparr>req_resp_timeout := t\<rparr>"
| "config_with (WithDataChannelProtocols ps) c = c\<lparr>data_channel_protocols := ps\<rparr>"
| "config_with (WithDataChannelOpenTimeout t) c = c\<lparr>data_channel_open_timeout := t\<rparr>"
| "config_with (WithDataChannelIdleTimeout t) c = c\<lparr>data_channel_idle_timeout := t\<rparr>"
| "config_with (WithDataChannelLimits l) c = c\<lparr>data_channel_limits := l\<rparr>"

definition config_build :: "string \<Rightarrow> string \<Rightarrow> config_option list \<Rightarrow> node_config" where
  "config_build p a opts = fold config_with opts (node_config_new p a)"

section \<open>The assembled behaviour\<close>

record core_behaviour =
  cb_ping_interval :: duration
  cb_ping_timeout :: duration
  cb_identify_protocol_version :: string
  cb_identify_agent_version :: string
  cb_identify_push_updates :: bool
  cb_identify_cache_size :: nat
  cb_kad_query_timeout :: duration
  cb_kad_record_ttl :: duration
  cb_kad_replication_factor :: nat
  cb_kad_publication_interval :: duration
  cb_kad_provider_record_ttl :: duration
  cb_kad_forced_server :: bool
  cb_mdns :: bool
  cb_relay_client :: bool
  cb_relay_server :: "relay_limits option"
  cb_autonat :: bool
  cb_dcutr :: bool
  cb_req_resp_protocol :: string
  cb_req_resp_timeout :: duration

text \<open>\<open>relay_config\<close> copies each limit to the field of the same name.\<close>

definition relay_config :: "lan_helper_config \<Rightarrow> relay_limits" where
  "relay_config helper =
     \<lparr>max_reservations = max_reservations (helper_relay_limits helper),
      max_reservations_per_peer = max_reservations_per_peer (helper_relay_limits helper),
      reservation_duration = reservation_duration (helper_relay_limits helper),
      max_circuits = max_circuits (helper_relay_limits helper),
      max_circuits_per_peer = max_circuits_per_peer (helper_relay_limits helper),
      max_circuit_duration = max_circuit_duration (helper_relay_limits helper),
      max_circuit_bytes = max_circuit_bytes (helper_relay_limits helper)\<rparr>"

definition lan_helper_of :: "infrastructure_mode \<Rightarrow> lan_helper_config option" where
  "lan_helper_of m = (case m of LanHelper c \<Rightarrow> Some c | Off \<Rightarrow> None)"

text \<open>\<open>CoreBehaviour::new\<close>; \<open>None\<close> is a panic of one of its two \<open>expect\<close> calls.\<close>

definition core_behaviour_new :: "bool \<Rightarrow> (string \<Rightarrow> bool) \<Rightarrow> node_config \<Rightarrow> core_behaviour option" where
  "core_behaviour_new mdns_ok valid_protocol cfg =
     (let lan_helper = lan_helper_of (infrastructure_mode cfg);
          server = (kad_server_mode cfg \<or> (case lan_helper of None \<Rightarrow> False | Some c \<Rightarrow> enable_kad_server c))
      in if enable_mdns cfg \<and> \<not> mdns_ok then None
         else if \<not> valid_protocol (req_resp_protocol cfg) then None
         else Some
           \<lparr>cb_ping_interval = ping_interval cfg, cb_ping_timeout = ping_timeout cfg,
            cb_identify_protocol_version = protocol_version cfg,
            cb_identify_agent_version = agent_version cfg,
            cb_identify_push_updates = True, cb_identify_cache_size = 100,
            cb_kad_query_timeout = kad_query_timeout cfg, cb_kad_record_ttl = duration_from_secs 3600,
            cb_kad_replication_factor = 3, cb_kad_publication_interval = duration_from_secs 3600,
            cb_kad_provider_record_ttl = duration_from_secs 3600,
            cb_kad_forced_server = server,
            cb_mdns = enable_mdns cfg, cb_relay_client = enable_relay_client cfg,
            cb_relay_server = map_option relay_config lan_helper,
            cb_autonat = enable_autonat cfg, cb_dcutr = enable_dcutr cfg,
            cb_req_resp_protocol = req_resp_protocol cfg, cb_req_resp_timeout = req_resp_timeout cfg\<rparr>)"

section \<open>Properties\<close>

lemma relay_config_limits [simp]: "relay_config c = helper_relay_limits c"
  by (simp add: relay_config_def)

text \<open>
  Infrastructure service is opt-in. The behaviour runs a relay server exactly when the node is a LAN
  helper, with that helper's limits unchanged; it forces the DHT server mode exactly when the
  configuration asks for it or the helper does; and the relay client, a separate switch, follows its own
  flag whether or not the node serves as a relay.
\<close>

theorem infrastructure_service_opt_in:
  assumes "core_behaviour_new mdns_ok valid_protocol cfg = Some b"
  shows "cb_relay_server b = (case infrastructure_mode cfg of Off \<Rightarrow> None | LanHelper c \<Rightarrow> Some (helper_relay_limits c))
       \<and> (cb_kad_forced_server b \<longleftrightarrow>
            kad_server_mode cfg \<or> (\<exists>c. infrastructure_mode cfg = LanHelper c \<and> enable_kad_server c))
       \<and> cb_relay_client b = enable_relay_client cfg
       \<and> cb_identify_protocol_version b = protocol_version cfg"
  using assms
  by (auto simp: core_behaviour_new_def lan_helper_of_def Let_def split: if_splits infrastructure_mode.splits)

theorem infrastructure_service_opt_in_witness:
  "\<exists>b. core_behaviour_new True (\<lambda>p. True) (config_build ''/a/1'' ''a/1'' [WithLanHelper lan_helper_config_default]) = Some b
     \<and> cb_relay_server b = Some relay_limits_default \<and> cb_kad_forced_server b"
proof -
  obtain b where b: "core_behaviour_new True (\<lambda>p. True)
      (config_build ''/a/1'' ''a/1'' [WithLanHelper lan_helper_config_default]) = Some b"
    by (auto simp: core_behaviour_new_def Let_def)
  from infrastructure_service_opt_in [OF b] b show ?thesis
    by (simp add: config_build_def lan_helper_config_default_def)
qed

end
