(* ===== verification/Lan_Address.thy ===== *)
theory Lan_Address
  imports Net_Types
begin

text \<open>
  Which listen addresses a LAN helper may announce: \<open>is_usable_lan_addr\<close> of
  \<^verbatim>\<open>core/src/runtime/event_loop.rs\<close>, with the address classification of the standard library it calls, and
  the ranges of addresses it accepts.
\<close>

section \<open>Local addresses\<close>

text \<open>The classification of addresses by \<open>std::net\<close>.\<close>

definition ip4_octet :: "nat \<Rightarrow> 32 word \<Rightarrow> 8 word" where
  "ip4_octet i w = ucast (drop_bit (8 * (3 - i)) w)"

definition ip4_is_private :: "32 word \<Rightarrow> bool" where
  "ip4_is_private w \<longleftrightarrow>
     ip4_octet 0 w = 10
   \<or> (ip4_octet 0 w = 172 \<and> 16 \<le> ip4_octet 1 w \<and> ip4_octet 1 w \<le> 31)
   \<or> (ip4_octet 0 w = 192 \<and> ip4_octet 1 w = 168)"

definition ip4_is_loopback :: "32 word \<Rightarrow> bool" where
  "ip4_is_loopback w \<longleftrightarrow> ip4_octet 0 w = 127"

definition ip4_is_link_local :: "32 word \<Rightarrow> bool" where
  "ip4_is_link_local w \<longleftrightarrow> ip4_octet 0 w = 169 \<and> ip4_octet 1 w = 254"

definition ip4_is_unspecified :: "32 word \<Rightarrow> bool" where
  "ip4_is_unspecified w \<longleftrightarrow> w = 0"

definition ip6_segment0 :: "128 word \<Rightarrow> 16 word" where
  "ip6_segment0 w = ucast (drop_bit 112 w)"

definition ip6_is_loopback :: "128 word \<Rightarrow> bool" where
  "ip6_is_loopback w \<longleftrightarrow> w = 1"

definition ip6_is_unspecified :: "128 word \<Rightarrow> bool" where
  "ip6_is_unspecified w \<longleftrightarrow> w = 0"

fun usable_lan_protocol :: "multiaddr_protocol \<Rightarrow> bool" where
  "usable_lan_protocol (Ip4 ip) \<longleftrightarrow>
     ip4_is_private ip \<and> \<not> ip4_is_loopback ip \<and> \<not> ip4_is_link_local ip \<and> \<not> ip4_is_unspecified ip"
| "usable_lan_protocol (Ip6 ip) \<longleftrightarrow>
     and (ip6_segment0 ip) 0xfe00 = 0xfc00 \<and> \<not> ip6_is_loopback ip \<and> \<not> ip6_is_unspecified ip"
| "usable_lan_protocol _ \<longleftrightarrow> False"

definition is_usable_lan_addr :: "multiaddr \<Rightarrow> bool" where
  "is_usable_lan_addr addr \<longleftrightarrow> list_ex usable_lan_protocol addr"

section \<open>Octets and segments as numbers\<close>

lemma unat_ip4_octet0: "unat (ip4_octet 0 w) = unat w div 2^24"
proof -
  have "unat w < 2 ^ LENGTH(32)" by (rule unsigned_less)
  then have "unat w div 2^24 < 256" by simp
  then show ?thesis by (simp add: ip4_octet_def unsigned_ucast_eq unat_div drop_bit_eq_div take_bit_eq_mod)
qed

lemma unat_ip4_octet1: "unat (ip4_octet (Suc 0) w) = unat w div 2^16 mod 256"
  by (simp add: ip4_octet_def unsigned_ucast_eq unat_div drop_bit_eq_div take_bit_eq_mod)

lemma unat_ip6_segment0: "unat (ip6_segment0 w) = unat w div 2^112"
proof -
  have "unat w < 2 ^ LENGTH(128)" by (rule unsigned_less)
  then have "unat w div 2^112 < 2^16" by (subst div_less_iff_less_mult) simp_all
  then show ?thesis by (simp add: ip6_segment0_def unsigned_ucast_eq unat_div drop_bit_eq_div take_bit_eq_mod)
qed

lemma ip6_mask: "and x 0xfe00 = 0xfc00 \<longleftrightarrow> unat x div 512 = 126" for x :: "16 word"
proof -
  have m: "and (mask 16) (not (mask 9)) = (0xfe00 :: 16 word)" by (simp add: mask_eq_exp_minus_1)
  have "and x 0xfe00 = push_bit 9 (take_bit 7 (drop_bit 9 x))"
    using slice_eq_mask [of 9 7 x] m by simp
  also have "take_bit 7 (drop_bit 9 x) = drop_bit 9 x"
    by (rule bit_word_eqI) (auto simp: bit_simps dest: bit_imp_le_length)
  finally have "unat (and x 0xfe00) = (unat x div 512 * 512) mod 2 ^ 16"
    by (simp add: push_bit_eq_mult drop_bit_eq_div unat_word_ariths unat_div mod_mult_left_eq)
  moreover have "unat x < 2 ^ LENGTH(16)" by (rule unsigned_less)
  then have "unat x div 512 * 512 < 2 ^ 16"
    using div_times_less_eq_dividend [of "unat x" 512] by (simp add: div_times_less_eq_dividend le_less_trans)
  ultimately have "unat (and x 0xfe00) = unat x div 512 * 512" by simp
  moreover have "and x 0xfe00 = 0xfc00 \<longleftrightarrow> unat (and x 0xfe00) = 126 * 512" by (simp add: word_unat_eq_iff)
  ultimately show ?thesis by simp
qed

lemma private_range_nat: "(m div 256 = 10 \<or> m div 256 = 172 \<and> 16 \<le> m mod 256 \<and> m mod 256 \<le> 31 \<or>
      m div 256 = 192 \<and> m mod 256 = 168) = (m div 256 = 10 \<or> m div 16 = 2753 \<or> m = 49320)" for m :: nat
proof -
  define q r where "q = m div 256" and "r = m mod 256"
  have m: "m = 256 * q + r" "r < 256" by (simp_all add: q_def r_def)
  have d: "m div 16 = 16 * q + r div 16" "r div 16 < 16"
    using m by (simp_all add: div_mult_self4 [of 16 r "16 * q", simplified] add.commute less_mult_imp_div_less)
  have k: "16 \<le> r \<and> r \<le> 31 \<longleftrightarrow> r div 16 = 1" using m(2) by presburger
  have lin: "16 * q + s = 2753 \<longleftrightarrow> q = 172 \<and> s = 1" if "s < 16" for s :: nat using that by arith
  have "m div 16 = 2753 \<longleftrightarrow> q = 172 \<and> r div 16 = 1" unfolding d(1) by (rule lin [OF d(2)])
  moreover have "m = 49320 \<longleftrightarrow> q = 192 \<and> r = 168" using m by arith
  ultimately show ?thesis using k by (auto simp: q_def [symmetric] r_def [symmetric])
qed

lemma ip4_is_private_range:
  "ip4_is_private w \<longleftrightarrow> unat w div 2^24 = 10 \<or> unat w div 2^20 = 2753 \<or> unat w div 2^16 = 49320"
proof -
  let ?m = "unat w div 2^16"
  have e: "unat w div 2^24 = ?m div 256" "unat w div 2^20 = ?m div 16" by (simp_all add: div_mult2_eq [symmetric])
  have c: "ip4_octet 0 w = 10 \<longleftrightarrow> unat w div 2^24 = 10" "ip4_octet 0 w = 172 \<longleftrightarrow> unat w div 2^24 = 172"
    "ip4_octet 0 w = 192 \<longleftrightarrow> unat w div 2^24 = 192" "ip4_octet 1 w = 168 \<longleftrightarrow> ?m mod 256 = 168"
    "16 \<le> ip4_octet 1 w \<longleftrightarrow> 16 \<le> ?m mod 256" "ip4_octet 1 w \<le> 31 \<longleftrightarrow> ?m mod 256 \<le> 31"
    by (simp_all add: word_unat_eq_iff word_le_nat_alt unat_ip4_octet0 unat_ip4_octet1)
  show ?thesis unfolding ip4_is_private_def c e by (rule private_range_nat)
qed

section \<open>Properties\<close>

lemma ip6_unique_local_range:
  "and (ip6_segment0 w) 0xfe00 = 0xfc00 \<longleftrightarrow> unat w div 2^121 = 126"
  unfolding ip6_mask unat_ip6_segment0 by (simp add: div_mult2_eq [symmetric])

text \<open>
  Which addresses count as usable local ones. The test accepts an address exactly if one of its
  components is an IPv4 address in 10.0.0.0/8, 172.16.0.0/12 or 192.168.0.0/16, or an IPv6 address in
  fc00::/7; the further exclusions in the code, loopback, link-local and unspecified addresses,
  never reject an address in these ranges.
\<close>

theorem usable_lan_addr_ranges:
  "is_usable_lan_addr addr \<longleftrightarrow>
     (\<exists>p \<in> set addr.
        (\<exists>ip. p = Ip4 ip \<and> (unat ip div 2^24 = 10 \<or> unat ip div 2^20 = 2753 \<or> unat ip div 2^16 = 49320))
      \<or> (\<exists>ip. p = Ip6 ip \<and> unat ip div 2^121 = 126))"
proof -
  have four: "usable_lan_protocol (Ip4 ip) \<longleftrightarrow> ip4_is_private ip" for ip
    by (auto simp: ip4_is_private_def ip4_is_loopback_def ip4_is_link_local_def ip4_is_unspecified_def ip4_octet_def)
  have six: "usable_lan_protocol (Ip6 ip) \<longleftrightarrow> unat ip div 2^121 = 126" for ip
    using ip6_unique_local_range [of ip] by (auto simp: ip6_is_loopback_def ip6_is_unspecified_def)
  have "usable_lan_protocol p \<longleftrightarrow>
      (\<exists>ip. p = Ip4 ip \<and> (unat ip div 2^24 = 10 \<or> unat ip div 2^20 = 2753 \<or> unat ip div 2^16 = 49320))
    \<or> (\<exists>ip. p = Ip6 ip \<and> unat ip div 2^121 = 126)" for p
    using four six by (cases p) (simp_all add: ip4_is_private_range)
  then show ?thesis by (simp add: is_usable_lan_addr_def list_ex_iff)
qed

end
