(* ===== verification/Event_Loop.thy ===== *)
theory Event_Loop
  imports Command_Chain Channel_Open Pending_Map Config Lan_Address
begin

text \<open>
  The event loop of \<^verbatim>\<open>core/src/runtime/event_loop.rs\<close>: its state, the chain that offers a swarm event to
  the active commands, the translation of the events no command keeps into node events, and one turn of
  the loop. What the async runtime decides in a turn, the clock reading, whether the event channel has a
  free slot and whether its receiver is still there, is the argument \<open>turn\<close>.
\<close>

section \<open>State\<close>

record turn =
  now :: instant
  status_slot :: try_send_outcome
  receiver_alive :: bool

text \<open>
  The state of the loop together with what it shares with the client: the store of result handles, the
  pending channels and the data-channel registry. \<open>el_events\<close> and \<open>el_inbound\<close> are the values that went
  into the two outgoing channels.
\<close>

record ('req, 'resp, 'stats) event_loop =
  el_swarm :: "('req, 'resp, 'stats) swarm"
  el_active_commands :: "('req, 'resp, 'stats) command_task list"
  el_handles :: "'resp handle_store"
  el_protocol_version :: string
  el_pending_channels :: "(u64, response_channel) pending_map"
  el_pending_id_counter :: u64
  el_bootstrap_peers :: "peer_id \<rightharpoonup> multiaddr list"
  el_enable_relay_client :: bool
  el_lan_helper :: "lan_helper_config option"
  el_advertised_lan_addrs :: "multiaddr list"
  el_limits :: data_channel_limits
  el_dc :: dc_world
  el_events :: "'req node_event list"
  el_inbound :: "data_channel list"

definition event_loop_new ::
  "('req, 'resp, 'stats) swarm \<Rightarrow> (u64, response_channel) pending_map \<Rightarrow> string \<Rightarrow> data_channel_limits \<Rightarrow> dc_world \<Rightarrow>
   bool \<Rightarrow> infrastructure_mode \<Rightarrow> ('req, 'resp, 'stats) event_loop" where
  "event_loop_new sw pending version limits dc relay mode =
     \<lparr>el_swarm = sw, el_active_commands = [], el_handles = (\<lambda>_. handle_new), el_protocol_version = version,
      el_pending_channels = pending, el_pending_id_counter = 0, el_bootstrap_peers = Map.empty,
      el_enable_relay_client = relay,
      el_lan_helper = (case mode of LanHelper config \<Rightarrow> Some config | Off \<Rightarrow> None),
      el_advertised_lan_addrs = [], el_limits = limits, el_dc = dc, el_events = [], el_inbound = []\<rparr>"

section \<open>Starting\<close>

fun start_listen ::
  "('req, 'resp, 'stats) net_env \<Rightarrow> multiaddr list \<Rightarrow> ('req, 'resp, 'stats) event_loop \<Rightarrow>
   unit res \<times> ('req, 'resp, 'stats) event_loop" where
  "start_listen env [] el = (Inr (), el)"
| "start_listen env (addr # addrs) el =
     (case swarm_listen_on env addr (el_swarm el) of
        (Some e, sw) \<Rightarrow> (Inl (ListenError (to_string e)), el\<lparr>el_swarm := sw\<rparr>)
      | (None, sw) \<Rightarrow> start_listen env addrs (el\<lparr>el_swarm := sw\<rparr>))"

text \<open>\<open>map.entry(k).or_default().extend(xs)\<close>.\<close>

definition entry_extend :: "'k \<Rightarrow> 'v list \<Rightarrow> ('k \<rightharpoonup> 'v list) \<Rightarrow> ('k \<rightharpoonup> 'v list)" where
  "entry_extend k xs m = m(k \<mapsto> (case m k of None \<Rightarrow> [] | Some ys \<Rightarrow> ys) @ xs)"

definition connect_bootstrap_peer ::
  "('req, 'resp, 'stats) net_env \<Rightarrow> peer_id \<times> multiaddr \<Rightarrow> ('req, 'resp, 'stats) event_loop \<Rightarrow>
   ('req, 'resp, 'stats) event_loop" where
  "connect_bootstrap_peer env pa el =
     (case pa of (peer, addr) \<Rightarrow>
        let sw1 = swarm_kad_add_address peer addr (el_swarm el);
            sw2 = swarm_add_peer_address peer addr sw1;
            (r, sw3) = swarm_dial env peer sw2;
            el1 = el\<lparr>el_swarm := sw3\<rparr>
        in if el_enable_relay_client el
           then el1\<lparr>el_bootstrap_peers := entry_extend peer [addr] (el_bootstrap_peers el1)\<rparr>
           else el1)"

definition connect_bootstrap_peers where
  "connect_bootstrap_peers env peers el = fold (connect_bootstrap_peer env) peers el"

section \<open>Relay reservations and the LAN helper\<close>

fun is_p2p :: "multiaddr_protocol \<Rightarrow> bool" where
  "is_p2p (P2p p) \<longleftrightarrow> True"
| "is_p2p _ \<longleftrightarrow> False"

definition relay_listen_addr :: "peer_id \<Rightarrow> multiaddr \<Rightarrow> multiaddr" where
  "relay_listen_addr peer addr =
     (let base = (if list_ex is_p2p addr then addr else addr_with addr (P2p peer)) in addr_with base P2pCircuit)"

definition request_relay_reservations ::
  "('req, 'resp, 'stats) net_env \<Rightarrow> peer_id \<Rightarrow> multiaddr list \<Rightarrow> ('req, 'resp, 'stats) event_loop \<Rightarrow>
   ('req, 'resp, 'stats) event_loop" where
  "request_relay_reservations env peer addrs el =
     fold (\<lambda>addr el. el\<lparr>el_swarm := snd (swarm_listen_on env (relay_listen_addr peer addr) (el_swarm el))\<rparr>) addrs el"

definition try_send_event ::
  "try_send_outcome \<Rightarrow> 'req node_event \<Rightarrow> ('req, 'resp, 'stats) event_loop \<Rightarrow> ('req, 'resp, 'stats) event_loop" where
  "try_send_event slot ev el = (if is_err slot then el else el\<lparr>el_events := el_events el @ [ev]\<rparr>)"

definition maybe_announce_lan_helper_addr ::
  "('req, 'resp, 'stats) net_env \<Rightarrow> turn \<Rightarrow> multiaddr \<Rightarrow> ('req, 'resp, 'stats) event_loop \<Rightarrow>
   ('req, 'resp, 'stats) event_loop" where
  "maybe_announce_lan_helper_addr env t addr el =
     (case el_lan_helper el of
        None \<Rightarrow> el
      | Some config \<Rightarrow>
          if \<not> announce_private_addrs config then el
          else
            let el1 = (if is_usable_lan_addr addr \<and> addr \<notin> set (el_advertised_lan_addrs el)
                       then el\<lparr>el_swarm := swarm_add_external_address addr (el_swarm el),
                               el_advertised_lan_addrs := el_advertised_lan_addrs el @ [addr]\<rparr>
                       else el)
            in try_send_event (status_slot t)
                 (LanHelperStatusChanged (relay_server_enabled env) (el_advertised_lan_addrs el1)) el1)"

section \<open>Commands\<close>

definition handle_command ::
  "('req, 'resp, 'stats) net_env \<Rightarrow> ('req, 'resp, 'stats) command_task \<Rightarrow> ('req, 'resp, 'stats) event_loop \<Rightarrow>
   ('req, 'resp, 'stats) event_loop" where
  "handle_command env cmd el =
     (let (cmd1, sw, st) = task_run env cmd (el_swarm el) (el_handles el);
          el1 = el\<lparr>el_swarm := sw, el_handles := st\<rparr>;
          (relay, cmd2) = task_take_relay cmd1;
          el2 = (case relay of
                   None \<Rightarrow> el1
                 | Some (peer, addrs) \<Rightarrow>
                     if is_connected env (el_swarm el1) peer then request_relay_reservations env peer addrs el1
                     else el1\<lparr>el_bootstrap_peers := entry_extend peer addrs (el_bootstrap_peers el1)\<rparr>)
      in el2\<lparr>el_active_commands := el_active_commands el2 @ [cmd2]\<rparr>)"

section \<open>Node events\<close>

definition next_pending_id ::
  "('req, 'resp, 'stats) event_loop \<Rightarrow> u64 \<times> ('req, 'resp, 'stats) event_loop" where
  "next_pending_id el =
     (let (i, c) = fetch_add_one (el_pending_id_counter el) in (i, el\<lparr>el_pending_id_counter := c\<rparr>))"

fun convert_relay_server_event :: "relay_event \<Rightarrow> 'req node_event option" where
  "convert_relay_server_event (ReservationReqAccepted src renewed) = Some (RelayServerReservationAccepted src renewed)"
| "convert_relay_server_event (ReservationReqDenied src status) = Some (RelayServerReservationDenied src status)"
| "convert_relay_server_event (ReservationClosed src) = Some (RelayServerReservationClosed src)"
| "convert_relay_server_event (ReservationTimedOut src) = Some (RelayServerReservationClosed src)"
| "convert_relay_server_event (CircuitReqAccepted src dst) = Some (RelayServerCircuitAccepted src dst)"
| "convert_relay_server_event (CircuitReqDenied src dst status) = Some (RelayServerCircuitDenied src dst status)"
| "convert_relay_server_event (CircuitClosed src dst) = Some (RelayServerCircuitClosed src dst)"
| "convert_relay_server_event _ = None"

text \<open>The addresses an event brings go into the address book, and into the routing table for \<open>Identify\<close>.\<close>

definition register_identified_addr ::
  "peer_id \<Rightarrow> multiaddr \<Rightarrow> ('req, 'resp, 'stats) swarm \<Rightarrow> ('req, 'resp, 'stats) swarm" where
  "register_identified_addr peer addr sw =
     swarm_add_peer_address peer addr (swarm_kad_add_address peer addr sw)"

definition dial_if_unconnected ::
  "('req, 'resp, 'stats) net_env \<Rightarrow> peer_id \<Rightarrow> ('req, 'resp, 'stats) swarm \<Rightarrow> ('req, 'resp, 'stats) swarm" where
  "dial_if_unconnected env peer sw = (if is_connected env sw peer then sw else snd (swarm_dial env peer sw))"

definition handle_discovered ::
  "('req, 'resp, 'stats) net_env \<Rightarrow> (peer_id \<times> multiaddr) list \<Rightarrow> ('req, 'resp, 'stats) swarm \<Rightarrow>
   ('req, 'resp, 'stats) swarm" where
  "handle_discovered env peers sw =
     (let sw1 = fold (\<lambda>(peer, addr). swarm_add_peer_address peer addr) peers sw;
          dialed = hashset_order env (map fst peers)
      in fold (dial_if_unconnected env) dialed sw1)"

definition handle_identified ::
  "('req, 'resp, 'stats) net_env \<Rightarrow> peer_id \<Rightarrow> identify_info \<Rightarrow> ('req, 'resp, 'stats) event_loop \<Rightarrow>
   ('req, 'resp, 'stats) event_loop" where
  "handle_identified env peer info el =
     (if info_protocol_version info = el_protocol_version el then
        let el1 = el\<lparr>el_swarm := fold (register_identified_addr peer) (info_listen_addrs info) (el_swarm el)\<rparr>
        in case el_bootstrap_peers el1 peer of
             Some addrs \<Rightarrow>
               request_relay_reservations env peer addrs
                 (el1\<lparr>el_bootstrap_peers := (el_bootstrap_peers el1)(peer := None)\<rparr>)
           | None \<Rightarrow> el1
      else el)"

definition handle_inbound_request ::
  "turn \<Rightarrow> peer_id \<Rightarrow> 'req \<Rightarrow> response_channel \<Rightarrow> ('req, 'resp, 'stats) event_loop \<Rightarrow>
   'req node_event \<times> ('req, 'resp, 'stats) event_loop" where
  "handle_inbound_request t peer request ch el =
     (let (pending_id, el1) = next_pending_id el
      in (InboundRequest peer pending_id request,
          el1\<lparr>el_pending_channels := pm_insert (now t) pending_id ch (el_pending_channels el1)\<rparr>))"

definition convert_relay_client_event :: "relay_client_event \<Rightarrow> 'req node_event option" where
  "convert_relay_client_event e =
     (case e of
        ReservationReqAcceptedBy relay renewal \<Rightarrow> Some (RelayReservationAccepted relay renewal)
      | OutboundCircuitEstablished relay \<Rightarrow> None
      | InboundCircuitEstablished src \<Rightarrow> None)"

text \<open>Only a successful probe is reported; a failed one says nothing about the address.\<close>

definition convert_autonat_event :: "multiaddr \<Rightarrow> (lib_error + unit) \<Rightarrow> 'req node_event option" where
  "convert_autonat_event tested_addr res =
     (case res of
        Inr _ \<Rightarrow> Some (NatStatusChanged Public (Some tested_addr))
      | Inl e \<Rightarrow> None)"

definition sync_routing ::
  "peer_id \<Rightarrow> multiaddr list \<Rightarrow> ('req, 'resp, 'stats) event_loop \<Rightarrow> ('req, 'resp, 'stats) event_loop" where
  "sync_routing peer addresses el =
     el\<lparr>el_swarm := fold (swarm_add_peer_address peer) addresses (el_swarm el)\<rparr>"

lemmas convert_arms [simp] = convert_relay_client_event_def convert_autonat_event_def sync_routing_def

definition convert_to_node_event ::
  "('req, 'resp, 'stats) net_env \<Rightarrow> turn \<Rightarrow> ('req, 'resp, 'stats) swarm_event \<Rightarrow> ('req, 'resp, 'stats) event_loop \<Rightarrow>
   'req node_event option \<times> ('req, 'resp, 'stats) event_loop" where
  "convert_to_node_event env t event el =
     (case event of
        Behaviour (RelayClientEvent e) \<Rightarrow> (convert_relay_client_event e, el)
      | Behaviour (RelayServerEvent e) \<Rightarrow> (convert_relay_server_event e, el)
      | NewListenAddr address \<Rightarrow> (Some (Listening address), maybe_announce_lan_helper_addr env t address el)
      | ConnectionEstablished peer n \<Rightarrow> (if n = 1 then Some (PeerConnected peer) else None, el)
      | ConnectionClosed peer n \<Rightarrow> (if n = 0 then Some (PeerDisconnected peer) else None, el)
      | Behaviour (ReqRespEvent (Message peer (Request request ch))) \<Rightarrow>
          apfst Some (handle_inbound_request t peer request ch el)
      | Behaviour (DcutrEvent peer res) \<Rightarrow>
          (case res of
             Inr _ \<Rightarrow> (Some (HolePunchSucceeded peer), el)
           | Inl e \<Rightarrow> (Some (HolePunchFailed peer (to_string e)), el))
      | Behaviour (MdnsEvent (Discovered peers)) \<Rightarrow>
          (Some (PeersDiscovered peers), el\<lparr>el_swarm := handle_discovered env peers (el_swarm el)\<rparr>)
      | Behaviour (PingEvent peer (Inr rtt)) \<Rightarrow> (Some (PingSuccess peer (as_millis_u64 rtt)), el)
      | Behaviour (IdentifyEvent (IdentifyReceivedEvent peer info)) \<Rightarrow>
          (Some (IdentifyReceived peer (info_agent_version info) (info_protocol_version info)
                   (info_listen_addrs info) (info_protocols info)),
           handle_identified env peer info el)
      | Behaviour (AutonatEvent tested_addr server res) \<Rightarrow> (convert_autonat_event tested_addr res, el)
      | Behaviour (KadEvent (RoutingUpdated peer addresses)) \<Rightarrow>
          (None, sync_routing peer addresses el)
      | ListenerClosed \<Rightarrow> (None, el)
      | ListenerError \<Rightarrow> (None, el)
      | IncomingConnectionError \<Rightarrow> (None, el)
      | _ \<Rightarrow> (None, el))"

section \<open>One turn of the loop\<close>

text \<open>\<open>event_tx.send(evt).await\<close> waits for a slot and fails only when the receiver is gone.\<close>

definition send_event ::
  "bool \<Rightarrow> 'req node_event \<Rightarrow> ('req, 'resp, 'stats) event_loop \<Rightarrow> ('req, 'resp, 'stats) event_loop" where
  "send_event alive ev el = (if alive then el\<lparr>el_events := el_events el @ [ev]\<rparr> else el)"

definition handle_swarm_event ::
  "('req, 'resp, 'stats) net_env \<Rightarrow> turn \<Rightarrow> ('req, 'resp, 'stats) swarm_event \<Rightarrow> ('req, 'resp, 'stats) event_loop \<Rightarrow>
   ('req, 'resp, 'stats) event_loop" where
  "handle_swarm_event env t event el =
     (let (cmds, remaining, st) = command_chain env 0 (el_active_commands el) (Some event) (el_handles el);
          el1 = el\<lparr>el_active_commands := cmds, el_handles := st\<rparr>
      in case remaining of
           None \<Rightarrow> el1
         | Some event \<Rightarrow>
             let (evt, el2) = convert_to_node_event env t event el1
             in case evt of None \<Rightarrow> el2 | Some evt \<Rightarrow> send_event (receiver_alive t) evt el2)"

definition loop_inbound_channel ::
  "try_send_outcome \<Rightarrow> stream_protocol \<Rightarrow> peer_id \<Rightarrow> stream \<Rightarrow> ('req, 'resp, 'stats) event_loop \<Rightarrow>
   ('req, 'resp, 'stats) event_loop" where
  "loop_inbound_channel slot protocol peer s el =
     (let (ch, w) = handle_inbound_channel (el_limits el) slot protocol peer s (el_dc el)
      in el\<lparr>el_dc := w, el_inbound := el_inbound el @ (case ch of None \<Rightarrow> [] | Some c \<Rightarrow> [c])\<rparr>)"

text \<open>The branches of \<open>select!\<close>; a closed command channel ends the loop.\<close>

datatype ('req, 'resp, 'stats) loop_input =
    CommandReceived "('req, 'resp, 'stats) command_task"
  | CommandsClosed
  | SwarmEvent "('req, 'resp, 'stats) swarm_event"
  | InboundStream stream_protocol peer_id stream try_send_outcome

definition retain_active :: "('req, 'resp, 'stats) event_loop \<Rightarrow> ('req, 'resp, 'stats) event_loop" where
  "retain_active el =
     el\<lparr>el_active_commands := filter (\<lambda>cmd. \<not> task_is_cancelled (el_handles el) cmd) (el_active_commands el)\<rparr>"

text \<open>What the loop does with the branch that is ready, and one whole iteration.\<close>

definition loop_select ::
  "('req, 'resp, 'stats) net_env \<Rightarrow> turn \<Rightarrow> ('req, 'resp, 'stats) loop_input \<Rightarrow> ('req, 'resp, 'stats) event_loop \<Rightarrow>
   ('req, 'resp, 'stats) event_loop option" where
  "loop_select env t inp el =
     (case inp of
        CommandReceived cmd \<Rightarrow> Some (handle_command env cmd el)
      | CommandsClosed \<Rightarrow> None
      | SwarmEvent event \<Rightarrow> Some (handle_swarm_event env t event (el\<lparr>el_swarm := el_swarm el @ [Polled event]\<rparr>))
      | InboundStream protocol peer s slot \<Rightarrow> Some (loop_inbound_channel slot protocol peer s el))"

definition loop_turn ::
  "('req, 'resp, 'stats) net_env \<Rightarrow> turn \<Rightarrow> ('req, 'resp, 'stats) loop_input \<Rightarrow> ('req, 'resp, 'stats) event_loop \<Rightarrow>
   ('req, 'resp, 'stats) event_loop option" where
  "loop_turn env t inp el = loop_select env t inp (retain_active el)"

lemma loop_turn_eq:
  "loop_turn env t inp el0 =
     (let el = retain_active el0
      in case inp of
           CommandReceived cmd \<Rightarrow> Some (handle_command env cmd el)
         | CommandsClosed \<Rightarrow> None
         | SwarmEvent event \<Rightarrow> Some (handle_swarm_event env t event (el\<lparr>el_swarm := el_swarm el @ [Polled event]\<rparr>))
         | InboundStream protocol peer s slot \<Rightarrow> Some (loop_inbound_channel slot protocol peer s el))"
  by (simp add: loop_turn_def loop_select_def Let_def)

end
