(* ===== verification/Loop_Properties.thy ===== *)
theory Loop_Properties
  imports Event_Loop "HOL-Library.Sublist"
begin

text \<open>
  What one step of the event loop does, as equations over the parts of its state, and the properties of
  the loop: inbound requests and their pending identifiers, discovery, identification, relay
  reservations, the LAN helper, connection notices and cancelled commands.
\<close>

section \<open>Equations of the handlers\<close>

lemma request_relay_reservations_eq [loop_simps]:
  "request_relay_reservations env peer addrs el =
     el\<lparr>el_swarm := el_swarm el @ map (\<lambda>a. CallListenOn (relay_listen_addr peer a)) addrs\<rparr>"
  by (induction addrs arbitrary: el) (simp_all add: request_relay_reservations_def swarm_listen_on_def)

lemma register_identified_eq [loop_simps]:
  "fold (register_identified_addr peer) addrs sw =
     sw @ concat (map (\<lambda>a. [CallKadAddAddress peer a, CallAddPeerAddress peer a]) addrs)"
  by (induction addrs arbitrary: sw)
     (simp_all add: register_identified_addr_def swarm_add_peer_address_def swarm_kad_add_address_def)

lemma add_peer_addresses_eq [loop_simps]:
  "fold (swarm_add_peer_address peer) addrs sw = sw @ map (CallAddPeerAddress peer) addrs"
  by (induction addrs arbitrary: sw) (simp_all add: swarm_add_peer_address_def)

lemma handle_identified_eq:
  "handle_identified env peer info el =
     (if info_protocol_version info = el_protocol_version el then
        el\<lparr>el_swarm := el_swarm el
             @ concat (map (\<lambda>a. [CallKadAddAddress peer a, CallAddPeerAddress peer a]) (info_listen_addrs info))
             @ (case el_bootstrap_peers el peer of
                  None \<Rightarrow> []
                | Some addrs \<Rightarrow> map (\<lambda>a. CallListenOn (relay_listen_addr peer a)) addrs),
           el_bootstrap_peers := (el_bootstrap_peers el)(peer := None)\<rparr>
      else el)"
  by (cases "el_bootstrap_peers el peer")
     (auto simp: handle_identified_def loop_simps Let_def fun_upd_idem)

text \<open>An event no command can keep comes out of the chain.\<close>

lemma chain_passes:
  assumes "\<not> consumable e"
  shows "fst (snd (command_chain env i cmds (Some e) st)) = Some e"
proof -
  obtain cmds' r' st' where c: "command_chain env i cmds (Some e) st = (cmds', r', st')" by (metis prod_cases3)
  have "task_returns env e st t = Some e" for t st
    using handler_passes [OF assms] by (simp add: task_returns_def task_on_event_def case_prod_beta)
  then have "r' = Some e" using chain_invariant [OF c, where P = "\<lambda>_ r _. r = Some e"] by auto
  with c show ?thesis by simp
qed

definition after_chain where
  "after_chain env e el =
     (let (cmds, r, st) = command_chain env 0 (el_active_commands el) (Some e) (el_handles el)
      in el\<lparr>el_active_commands := cmds, el_handles := st\<rparr>)"

lemma after_chain_simps [simp]:
  "el_swarm (after_chain env e el) = el_swarm el"
  "el_protocol_version (after_chain env e el) = el_protocol_version el"
  "el_pending_channels (after_chain env e el) = el_pending_channels el"
  "el_pending_id_counter (after_chain env e el) = el_pending_id_counter el"
  "el_bootstrap_peers (after_chain env e el) = el_bootstrap_peers el"
  "el_enable_relay_client (after_chain env e el) = el_enable_relay_client el"
  "el_lan_helper (after_chain env e el) = el_lan_helper el"
  "el_advertised_lan_addrs (after_chain env e el) = el_advertised_lan_addrs el"
  "el_limits (after_chain env e el) = el_limits el" "el_dc (after_chain env e el) = el_dc el"
  "el_events (after_chain env e el) = el_events el" "el_inbound (after_chain env e el) = el_inbound el"
  by (simp_all add: after_chain_def case_prod_beta)

lemma handle_swarm_event_passed:
  assumes "\<not> consumable e"
  shows "handle_swarm_event env t e el =
     (let (evt, el2) = convert_to_node_event env t e (after_chain env e el)
      in case evt of None \<Rightarrow> el2 | Some evt \<Rightarrow> send_event (receiver_alive t) evt el2)"
  using chain_passes [OF assms, of env 0 "el_active_commands el" "el_handles el"]
  by (auto simp: handle_swarm_event_def after_chain_def Let_def case_prod_beta split: option.splits)

lemma convert_kept_event:
  assumes "consumable e"
  shows "convert_to_node_event env t e el = (None, el)"
  using assms by (cases e rule: consumable.cases) (simp_all add: convert_to_node_event_def)

lemma chain_returns:
  "fst (snd (command_chain env i cmds (Some e) st)) \<in> {None, Some e}"
proof -
  obtain cmds' r' st' where c: "command_chain env i cmds (Some e) st = (cmds', r', st')" by (metis prod_cases3)
  have "task_returns env e st t \<in> {None, Some e}" for t st
    using handler_returned [of env "task_handler t" e "st (task_handle t)"]
    by (simp add: task_returns_def task_on_event_def case_prod_beta)
  then have "r' \<in> {None, Some e}" using chain_invariant [OF c, where P = "\<lambda>_ r _. r \<in> {None, Some e}"] by auto
  with c show ?thesis by simp
qed

lemma handle_swarm_event_consumable:
  assumes "consumable e"
  shows "handle_swarm_event env t e el = after_chain env e el"
  using chain_returns [of env 0 "el_active_commands el" e "el_handles el"] convert_kept_event [OF assms]
  by (auto simp: handle_swarm_event_def after_chain_def Let_def case_prod_beta split: option.splits)

section \<open>Runs\<close>

fun loop_run ::
  "('req, 'resp, 'stats) net_env \<Rightarrow> (turn \<times> ('req, 'resp, 'stats) loop_input) list \<Rightarrow> ('req, 'resp, 'stats) event_loop \<Rightarrow>
   ('req, 'resp, 'stats) event_loop option" where
  "loop_run env [] el = Some el"
| "loop_run env ((t, inp) # xs) el =
     (case loop_turn env t inp el of None \<Rightarrow> None | Some el' \<Rightarrow> loop_run env xs el')"

lemma loop_run_append:
  "loop_run env (xs @ ys) el = Option.bind (loop_run env xs el) (loop_run env ys)"
  by (induction env xs el rule: loop_run.induct) (auto split: option.split)

lemma loop_run_invariant:
  assumes "loop_run env xs el = Some el'" and "P el"
    and "\<And>t inp el el'. P el \<Longrightarrow> loop_turn env t inp el = Some el' \<Longrightarrow> P el'"
  shows "P el'"
  using assms(1,2)
proof (induction xs arbitrary: el)
  case (Cons x xs)
  then show ?case using assms(3) by (cases x) (auto split: option.splits)
qed simp

lemma retain_active_simps [simp]:
  "el_swarm (retain_active el) = el_swarm el"
  "el_handles (retain_active el) = el_handles el"
  "el_protocol_version (retain_active el) = el_protocol_version el"
  "el_pending_channels (retain_active el) = el_pending_channels el"
  "el_pending_id_counter (retain_active el) = el_pending_id_counter el"
  "el_bootstrap_peers (retain_active el) = el_bootstrap_peers el"
  "el_enable_relay_client (retain_active el) = el_enable_relay_client el"
  "el_lan_helper (retain_active el) = el_lan_helper el"
  "el_advertised_lan_addrs (retain_active el) = el_advertised_lan_addrs el"
  "el_limits (retain_active el) = el_limits el" "el_dc (retain_active el) = el_dc el"
  "el_events (retain_active el) = el_events el" "el_inbound (retain_active el) = el_inbound el"
  by (simp_all add: retain_active_def)

lemma send_event_simps [simp]:
  "el_swarm (send_event b v el) = el_swarm el"
  "el_pending_channels (send_event b v el) = el_pending_channels el"
  "el_pending_id_counter (send_event b v el) = el_pending_id_counter el"
  "el_bootstrap_peers (send_event b v el) = el_bootstrap_peers el"
  "el_protocol_version (send_event b v el) = el_protocol_version el"
  "el_lan_helper (send_event b v el) = el_lan_helper el"
  "el_advertised_lan_addrs (send_event b v el) = el_advertised_lan_addrs el"
  "el_events (send_event b v el) = el_events el @ (if b then [v] else [])"
  by (simp_all add: send_event_def)

lemma handle_command_simps [simp]:
  "el_pending_channels (handle_command env cmd el) = el_pending_channels el"
  "el_pending_id_counter (handle_command env cmd el) = el_pending_id_counter el"
  "el_protocol_version (handle_command env cmd el) = el_protocol_version el"
  "el_lan_helper (handle_command env cmd el) = el_lan_helper el"
  "el_advertised_lan_addrs (handle_command env cmd el) = el_advertised_lan_addrs el"
  "el_events (handle_command env cmd el) = el_events el"
  by (simp_all add: handle_command_def Let_def case_prod_beta loop_simps split: option.split)

lemma loop_inbound_simps [simp]:
  "el_swarm (loop_inbound_channel slot q p s el) = el_swarm el"
  "el_pending_channels (loop_inbound_channel slot q p s el) = el_pending_channels el"
  "el_pending_id_counter (loop_inbound_channel slot q p s el) = el_pending_id_counter el"
  "el_lan_helper (loop_inbound_channel slot q p s el) = el_lan_helper el"
  "el_advertised_lan_addrs (loop_inbound_channel slot q p s el) = el_advertised_lan_addrs el"
  "el_events (loop_inbound_channel slot q p s el) = el_events el"
  by (simp_all add: loop_inbound_channel_def case_prod_beta)

lemma announce_simps [simp]:
  "el_pending_channels (maybe_announce_lan_helper_addr env t a el) = el_pending_channels el"
  "el_pending_id_counter (maybe_announce_lan_helper_addr env t a el) = el_pending_id_counter el"
  "el_lan_helper (maybe_announce_lan_helper_addr env t a el) = el_lan_helper el"
  by (simp_all add: maybe_announce_lan_helper_addr_def try_send_event_def Let_def split: option.split)

section \<open>Inbound requests\<close>

definition inbound_request where
  "inbound_request p r ch = Behaviour (ReqRespEvent (Message p (Request r ch)))"

lemma inbound_request_not_consumable [simp]: "\<not> consumable (inbound_request p r ch)"
  by (simp add: inbound_request_def)

lemma handle_inbound_request_event:
  "handle_swarm_event env t (inbound_request p r ch) el =
     send_event (receiver_alive t) (InboundRequest p (el_pending_id_counter el) r)
       ((after_chain env (inbound_request p r ch) el)
          \<lparr>el_pending_id_counter := el_pending_id_counter el + 1,
           el_pending_channels := pm_insert (now t) (el_pending_id_counter el) ch (el_pending_channels el)\<rparr>)"
proof -
  have "convert_to_node_event env t (inbound_request p r ch) el' =
      (Some (InboundRequest p (el_pending_id_counter el') r),
       el'\<lparr>el_pending_id_counter := el_pending_id_counter el' + 1,
           el_pending_channels := pm_insert (now t) (el_pending_id_counter el') ch (el_pending_channels el')\<rparr>)" for el'
    by (simp add: convert_to_node_event_def inbound_request_def handle_inbound_request_def next_pending_id_def
        fetch_add_one_def Let_def)
  then show ?thesis by (simp add: handle_swarm_event_passed)
qed

fun is_inbound_request :: "('req, 'resp, 'stats) swarm_event \<Rightarrow> bool" where
  "is_inbound_request (Behaviour (ReqRespEvent (Message p (Request r ch)))) = True"
| "is_inbound_request _ = False"

lemma is_inbound_request_iff: "is_inbound_request e \<longleftrightarrow> (\<exists>p r ch. e = inbound_request p r ch)"
  by (cases e rule: is_inbound_request.cases) (simp_all add: inbound_request_def)

fun is_request_input :: "turn \<times> ('req, 'resp, 'stats) loop_input \<Rightarrow> bool" where
  "is_request_input (t, SwarmEvent e) = is_inbound_request e"
| "is_request_input _ = False"

text \<open>The pending identifiers the application was told.\<close>

definition pending_id_of :: "'req node_event \<Rightarrow> u64 option" where
  "pending_id_of ev = (case ev of InboundRequest p i r \<Rightarrow> Some i | _ \<Rightarrow> None)"

lemma pending_id_of_simps [simp]:
  "pending_id_of (InboundRequest p i r) = Some i" "pending_id_of (Listening a) = None"
  "pending_id_of (PeersDiscovered ps) = None" "pending_id_of (PeerConnected p) = None"
  "pending_id_of (PeerDisconnected p) = None" "pending_id_of (IdentifyReceived p av pv as ps') = None"
  "pending_id_of (PingSuccess p n) = None" "pending_id_of (NatStatusChanged s a') = None"
  "pending_id_of (HolePunchSucceeded p) = None" "pending_id_of (HolePunchFailed p err) = None"
  "pending_id_of (RelayReservationAccepted p b) = None" "pending_id_of (LanHelperStatusChanged b as) = None"
  by (simp_all add: pending_id_of_def)

definition pending_ids :: "'req node_event list \<Rightarrow> u64 list" where
  "pending_ids evs = List.map_filter pending_id_of evs"

lemma map_filter_append [simp]: "List.map_filter f (xs @ ys) = List.map_filter f xs @ List.map_filter f ys"
  by (simp add: List.map_filter_def)

lemma pending_ids_append [simp]: "pending_ids (xs @ ys) = pending_ids xs @ pending_ids ys"
  by (simp add: pending_ids_def)

lemma pending_ids_other [simp]: "pending_ids [] = []"
  "pending_id_of v = None \<Longrightarrow> pending_ids [v] = []"
  "pending_ids [InboundRequest p i r] = [i]"
  by (simp_all add: pending_ids_def List.map_filter_simps pending_id_of_def)

lemma announce_pending_ids [simp]:
  "pending_ids (el_events (maybe_announce_lan_helper_addr env t a el)) = pending_ids (el_events el)"
  by (auto simp: maybe_announce_lan_helper_addr_def try_send_event_def Let_def pending_id_of_def split: option.split)

lemma relay_server_event_no_request [simp]: "convert_relay_server_event e = Some v \<Longrightarrow> pending_id_of v = None"
  by (cases e) (auto simp: pending_id_of_def)

lemma handle_identified_simps [simp]:
  "el_pending_id_counter (handle_identified env p i el) = el_pending_id_counter el"
  "el_pending_channels (handle_identified env p i el) = el_pending_channels el"
  "el_events (handle_identified env p i el) = el_events el"
  "el_lan_helper (handle_identified env p i el) = el_lan_helper el"
  "el_advertised_lan_addrs (handle_identified env p i el) = el_advertised_lan_addrs el"
  "el_protocol_version (handle_identified env p i el) = el_protocol_version el"
  by (simp_all add: handle_identified_eq)

lemma convert_other_frame:
  assumes "\<not> is_inbound_request e" and "convert_to_node_event env t e el = (v, el')"
  shows "el_pending_id_counter el' = el_pending_id_counter el" "el_pending_channels el' = el_pending_channels el"
    "pending_ids (el_events el') = pending_ids (el_events el)" "v = Some w \<Longrightarrow> pending_id_of w = None"
  using assms
  by (auto simp: convert_to_node_event_def Let_def dest: relay_server_event_no_request
      split: swarm_event.splits core_behaviour_event.splits relay_client_event.splits req_resp_event.splits
        message.splits sum.splits mdns_event.splits identify_event.splits kad_event.splits if_splits)

lemma handle_swarm_event_other_frame:
  assumes "\<not> is_inbound_request e"
  shows "el_pending_id_counter (handle_swarm_event env t e el) = el_pending_id_counter el"
    and "el_pending_channels (handle_swarm_event env t e el) = el_pending_channels el"
    and "pending_ids (el_events (handle_swarm_event env t e el)) = pending_ids (el_events el)"
proof -
  obtain v el' where c: "convert_to_node_event env t e (after_chain env e el) = (v, el')" by fastforce
  have h: "handle_swarm_event env t e el =
      (if consumable e then after_chain env e el
       else case v of None \<Rightarrow> el' | Some evt \<Rightarrow> send_event (receiver_alive t) evt el')"
    using handle_swarm_event_consumable [of e env t el] handle_swarm_event_passed [of e env t el] c by simp
  note f = convert_other_frame [OF assms c]
  show "el_pending_id_counter (handle_swarm_event env t e el) = el_pending_id_counter el"
    and "el_pending_channels (handle_swarm_event env t e el) = el_pending_channels el"
    and "pending_ids (el_events (handle_swarm_event env t e el)) = pending_ids (el_events el)"
    using f unfolding h by (simp_all split: option.split)
qed

lemma loop_turn_pending:
  assumes "loop_turn env t inp el = Some el'"
  shows "if is_request_input (t, inp)
    then el_pending_id_counter el' = el_pending_id_counter el + 1
       \<and> pending_ids (el_events el') = pending_ids (el_events el) @ (if receiver_alive t then [el_pending_id_counter el] else [])
    else el_pending_id_counter el' = el_pending_id_counter el \<and> el_pending_channels el' = el_pending_channels el
       \<and> pending_ids (el_events el') = pending_ids (el_events el)"
proof (cases inp)
  case (SwarmEvent e)
  show ?thesis
  proof (cases "is_inbound_request e")
    case True
    then obtain p r ch where "e = inbound_request p r ch" by (auto simp: is_inbound_request_iff)
    with True SwarmEvent assms show ?thesis by (auto simp: loop_turn_eq handle_inbound_request_event)
  next
    case False
    with SwarmEvent assms show ?thesis
      by (auto simp: loop_turn_eq handle_swarm_event_other_frame Let_def)
  qed
qed (use assms in \<open>auto simp: loop_turn_eq Let_def\<close>)

lemma draw_ids_Suc: "fst (draw_ids (Suc n) c) = c # fst (draw_ids n (c + 1))"
  by (simp add: fetch_add_one_def case_prod_beta)

lemma loop_run_pending:
  assumes "loop_run env xs el = Some el'"
  shows "\<exists>is. pending_ids (el_events el') = pending_ids (el_events el) @ is
     \<and> subseq is (fst (draw_ids (length (filter is_request_input xs)) (el_pending_id_counter el)))"
  using assms
proof (induction xs arbitrary: el)
  case (Cons x xs)
  obtain t inp where x: "x = (t, inp)" by (cases x)
  obtain el1 where s: "loop_turn env t inp el = Some el1" and r: "loop_run env xs el1 = Some el'"
    using Cons.prems x by (auto split: option.splits)
  obtain "is" where i: "pending_ids (el_events el') = pending_ids (el_events el1) @ is"
    and sub: "subseq is (fst (draw_ids (length (filter is_request_input xs)) (el_pending_id_counter el1)))"
    using Cons.IH [OF r] by blast
  show ?case
  proof (cases "is_request_input x")
    case True
    then have "subseq is (fst (draw_ids (length (filter is_request_input xs)) (el_pending_id_counter el + 1)))"
      using sub loop_turn_pending [OF s] x by simp
    with True i loop_turn_pending [OF s] x show ?thesis
      by (auto simp: draw_ids_Suc simp del: draw_ids.simps)
  next
    case False
    with i sub loop_turn_pending [OF s] x show ?thesis by auto
  qed
qed simp

lemma subseq_distinct: "subseq xs ys \<Longrightarrow> distinct ys \<Longrightarrow> distinct xs"
proof (induction rule: list_emb.induct)
  case (list_emb_Cons2 x y xs ys)
  then show ?case by (auto dest: list_emb_set)
qed auto

text \<open>
  C25: the identifiers of inbound requests never collide. In every run of the loop from its start, of any
  commands, events, streams and clock readings, the pending identifiers the application is told are
  pairwise different, as long as no more than 2 to the 64 requests arrive; they come out in the order the
  counter gives them.
\<close>

theorem pending_ids_never_collide:
  assumes "loop_run env xs (event_loop_new sw pending version limits dc relay mode) = Some el"
    and "length (filter is_request_input xs) \<le> 2 ^ 64"
  shows "distinct (pending_ids (el_events el))
       \<and> subseq (pending_ids (el_events el)) (fst (draw_ids (length (filter is_request_input xs)) 0))"
proof -
  have "subseq (pending_ids (el_events el)) (fst (draw_ids (length (filter is_request_input xs)) 0))"
    using loop_run_pending [OF assms(1)] by (auto simp: event_loop_new_def)
  moreover from this distinct_draw_ids [OF assms(2), of 0] have "distinct (pending_ids (el_events el))"
    by (metis subseq_distinct)
  ultimately show ?thesis by simp
qed

definition sample_turn :: turn where
  "sample_turn = \<lparr>now = 5, status_slot = SendOk, receiver_alive = True\<rparr>"

definition sample_loop :: "(string, string, nat) event_loop" where
  "sample_loop = event_loop_new [] (pm_new 120) ''/app/1'' data_channel_limits_default (world (dc_sys_init 0)) True Off"

theorem pending_ids_never_collide_witness:
  "\<exists>el. loop_run str_env
       [(sample_turn, SwarmEvent (inbound_request (PeerId 1) ''a'' (ResponseChannel 1))),
        (sample_turn, SwarmEvent (inbound_request (PeerId 2) ''b'' (ResponseChannel 2)))] sample_loop = Some el
     \<and> pending_ids (el_events el) = [0, 1] \<and> distinct (pending_ids (el_events el))"
proof -
  let ?xs = "[(sample_turn, SwarmEvent (inbound_request (PeerId 1) ''a'' (ResponseChannel 1))),
      (sample_turn, SwarmEvent (inbound_request (PeerId 2) ''b'' (ResponseChannel 2)))]
      :: (turn \<times> (string, string, nat) loop_input) list"
  obtain el where el: "loop_run str_env ?xs sample_loop = Some el"
    by (simp add: loop_turn_eq Let_def)
  have "distinct (pending_ids (el_events el))"
    using pending_ids_never_collide [OF el [unfolded sample_loop_def]] by simp
  moreover have "pending_ids (el_events el) = [0, 1]"
    using el by (auto simp: loop_turn_eq Let_def handle_inbound_request_event sample_loop_def event_loop_new_def
        sample_turn_def pending_ids_def List.map_filter_simps)
  ultimately show ?thesis using el by blast
qed

section \<open>Cancelled commands\<close>

text \<open>
  A turn starts by clearing out the commands whose caller is gone, and only those. A cancelled
  command is offered no further event: the state after the turn is the one of a loop that never had it;
  its handle is not touched, and the commands of callers that still wait all stay in place, in order.
\<close>

theorem cancelled_commands_cleared:
  "loop_turn env t inp el =
     loop_turn env t inp
       (el\<lparr>el_active_commands := filter (\<lambda>c. \<not> task_is_cancelled (el_handles el) c) (el_active_commands el)\<rparr>)
   \<and> el_active_commands (retain_active el) =
       filter (\<lambda>c. \<not> handle_is_cancelled (el_handles el (task_handle c))) (el_active_commands el)"
  by (simp add: loop_turn_eq retain_active_def task_is_cancelled_def)

section \<open>Connection notices\<close>

text \<open>
  The connections of one peer over time: the library reports, with every connection that opens or
  closes, how many are open afterwards.
\<close>

fun connection_trace :: "peer_id \<Rightarrow> nat \<Rightarrow> ('req, 'resp, 'stats) swarm_event list \<Rightarrow> bool" where
  "connection_trace p n [] = True"
| "connection_trace p n (ConnectionEstablished q m # es) =
     (if q = p then m = Suc n \<and> connection_trace p m es else connection_trace p n es)"
| "connection_trace p n (ConnectionClosed q m # es) =
     (if q = p then n = Suc m \<and> connection_trace p m es else connection_trace p n es)"
| "connection_trace p n (e # es) = connection_trace p n es"

definition handle_swarm_events where
  "handle_swarm_events env t es el = fold (handle_swarm_event env t) es el"

definition notices :: "peer_id \<Rightarrow> 'req node_event list \<Rightarrow> bool list" where
  "notices p evs =
     List.map_filter (\<lambda>ev. case ev of PeerConnected q \<Rightarrow> if q = p then Some True else None
                                    | PeerDisconnected q \<Rightarrow> if q = p then Some False else None
                                    | _ \<Rightarrow> None) evs"

fun alternates :: "bool \<Rightarrow> bool list \<Rightarrow> bool" where
  "alternates b [] = True"
| "alternates b (c # cs) = (c = b \<and> alternates (\<not> b) cs)"

text \<open>The last notice of a list, and \<open>b\<close> if there is none.\<close>

fun last_notice :: "bool \<Rightarrow> bool list \<Rightarrow> bool" where
  "last_notice b [] = b"
| "last_notice b (c # cs) = last_notice c cs"

lemma notices_append [simp]: "notices p (xs @ ys) = notices p xs @ notices p ys"
  by (simp add: notices_def)

lemma notices_simps [simp]:
  "notices p [] = []" "notices p [PeerConnected q] = (if q = p then [True] else [])"
  "notices p [PeerDisconnected q] = (if q = p then [False] else [])"
  by (simp_all add: notices_def List.map_filter_simps)

lemma established_event:
  "el_events (handle_swarm_event env t (ConnectionEstablished q n) el) =
     el_events el @ (if n = 1 \<and> receiver_alive t then [PeerConnected q] else [])"
  by (simp add: handle_swarm_event_passed convert_to_node_event_def)

lemma closed_event:
  "el_events (handle_swarm_event env t (ConnectionClosed q n) el) =
     el_events el @ (if n = 0 \<and> receiver_alive t then [PeerDisconnected q] else [])"
  by (simp add: handle_swarm_event_passed convert_to_node_event_def)

lemma notice_free [simp]:
  "notices p [Listening a] = []" "notices p [PeersDiscovered ps] = []" "notices p [InboundRequest q i r] = []"
  "notices p [IdentifyReceived q av pv as ps'] = []" "notices p [PingSuccess q n] = []"
  "notices p [NatStatusChanged s a'] = []" "notices p [HolePunchSucceeded q] = []" "notices p [HolePunchFailed q err] = []"
  "notices p [RelayReservationAccepted q b] = []" "notices p [LanHelperStatusChanged b as] = []"
  by (simp_all add: notices_def List.map_filter_simps)

lemma announce_notices [simp]:
  "notices p (el_events (maybe_announce_lan_helper_addr env t a el)) = notices p (el_events el)"
  by (auto simp: maybe_announce_lan_helper_addr_def try_send_event_def Let_def split: option.split)

lemma relay_server_notices [simp]: "convert_relay_server_event e = Some v \<Longrightarrow> notices p [v] = []"
  by (cases e) (auto simp: notices_def List.map_filter_simps)

fun is_connection_event :: "('req, 'resp, 'stats) swarm_event \<Rightarrow> bool" where
  "is_connection_event (ConnectionEstablished q n) = True"
| "is_connection_event (ConnectionClosed q n) = True"
| "is_connection_event _ = False"

lemma convert_other_notices:
  assumes "\<not> is_connection_event e" and "convert_to_node_event env t e el = (v, el')"
  shows "notices p (el_events el') = notices p (el_events el)" "v = Some w \<Longrightarrow> notices p [w] = []"
  using assms
  by (auto simp: convert_to_node_event_def handle_inbound_request_def next_pending_id_def case_prod_beta Let_def
      split: swarm_event.splits core_behaviour_event.splits relay_client_event.splits req_resp_event.splits
        message.splits sum.splits mdns_event.splits identify_event.splits kad_event.splits if_splits)

lemma handle_swarm_event_notices:
  assumes "\<not> is_connection_event e"
  shows "notices p (el_events (handle_swarm_event env t e el)) = notices p (el_events el)"
proof -
  obtain v el' where c: "convert_to_node_event env t e (after_chain env e el) = (v, el')" by fastforce
  have h: "handle_swarm_event env t e el =
      (if consumable e then after_chain env e el
       else case v of None \<Rightarrow> el' | Some evt \<Rightarrow> send_event (receiver_alive t) evt el')"
    using handle_swarm_event_consumable [of e env t el] handle_swarm_event_passed [of e env t el] c by simp
  show ?thesis using convert_other_notices [OF assms c] unfolding h by (simp split: option.split)
qed

fun connection_count :: "peer_id \<Rightarrow> nat \<Rightarrow> ('req, 'resp, 'stats) swarm_event list \<Rightarrow> nat" where
  "connection_count p n [] = n"
| "connection_count p n (ConnectionEstablished q m # es) = connection_count p (if q = p then m else n) es"
| "connection_count p n (ConnectionClosed q m # es) = connection_count p (if q = p then m else n) es"
| "connection_count p n (e # es) = connection_count p n es"

fun expected_notices :: "peer_id \<Rightarrow> ('req, 'resp, 'stats) swarm_event list \<Rightarrow> bool list" where
  "expected_notices p [] = []"
| "expected_notices p (ConnectionEstablished q m # es) =
     (if q = p \<and> m = 1 then True # expected_notices p es else expected_notices p es)"
| "expected_notices p (ConnectionClosed q m # es) =
     (if q = p \<and> m = 0 then False # expected_notices p es else expected_notices p es)"
| "expected_notices p (e # es) = expected_notices p es"

lemma handle_swarm_events_notices:
  assumes "receiver_alive t"
  shows "notices p (el_events (handle_swarm_events env t es el)) = notices p (el_events el) @ expected_notices p es"
  by (induction p es arbitrary: el rule: expected_notices.induct)
     (simp_all add: handle_swarm_events_def established_event closed_event handle_swarm_event_notices assms)

lemma expected_notices_alternate:
  "connection_trace p n es \<Longrightarrow> alternates (n = 0) (expected_notices p es)
     \<and> last_notice (0 < n) (expected_notices p es) = (0 < connection_count p n es)"
proof (induction p n es rule: connection_trace.induct)
  case (2 p n q m es)
  then show ?case by (cases "q = p"; cases "n = 0") simp_all
next
  case (3 p n q m es)
  then show ?case by (cases "q = p"; cases "m = 0") simp_all
qed simp_all

text \<open>
  C31: connection notices are per peer. While the library reports the connections of a peer with their
  counts, opening and closing in any number and mixed with any other events, what the application hears
  of this peer alternates, connected and disconnected, beginning with connected if it had no
  connection; and the last notice says whether a connection is open now.
\<close>

theorem connection_notices_alternate:
  assumes "connection_trace p n es" and "receiver_alive t"
  shows "\<exists>cs. notices p (el_events (handle_swarm_events env t es el)) = notices p (el_events el) @ cs
     \<and> alternates (n = 0) cs
     \<and> last_notice (0 < n) cs = (0 < connection_count p n es)"
  using handle_swarm_events_notices [OF assms(2)] expected_notices_alternate [OF assms(1)]
  by (intro exI [of _ "expected_notices p es"]) simp

definition sample_connections :: "(string, string, nat) swarm_event list" where
  "sample_connections =
     [ConnectionEstablished (PeerId 1) 1, ConnectionEstablished (PeerId 1) 2, ListenerError,
      ConnectionEstablished (PeerId 2) 1, ConnectionClosed (PeerId 1) 1, ConnectionClosed (PeerId 1) 0]"

theorem connection_notices_alternate_witness:
  "\<exists>cs. notices (PeerId 1) (el_events (handle_swarm_events str_env sample_turn sample_connections sample_loop)) = cs
     \<and> alternates True cs \<and> \<not> last_notice False cs"
proof -
  have n: "connection_count (PeerId 1) 0 sample_connections = 0" "notices (PeerId 1) (el_events sample_loop) = []"
    by (simp add: sample_connections_def) (simp add: sample_loop_def event_loop_new_def)
  have "connection_trace (PeerId 1) 0 sample_connections" "receiver_alive sample_turn"
    by (simp_all add: sample_connections_def sample_turn_def)
  from connection_notices_alternate [OF this, of str_env sample_loop] n show ?thesis by simp
qed

end
