(* ===== verification/Reachability.thy ===== *)
theory Reachability
  imports Loop_Properties
begin

text \<open>
  How a node becomes and stays reachable, over the definitions of the event loop: registering and dialling
  discovered peers, taking identified peers into the routing table, requesting relay reservations of
  bootstrap and infrastructure peers, and announcing the local addresses of a LAN helper.
\<close>

section \<open>Connectivity\<close>

text \<open>
  The documented behaviour of the swarm that the code relies on: its answer whether a peer is connected
  changes only when it is polled, not by the calls the program makes between two polls.
\<close>

fun is_polled :: "('req, 'resp, 'stats) swarm_call \<Rightarrow> bool" where
  "is_polled (Polled e) = True"
| "is_polled _ = False"

definition connectivity_polled :: "('req, 'resp, 'stats) net_env \<Rightarrow> bool" where
  "connectivity_polled env \<longleftrightarrow>
     (\<forall>sw c p. \<not> is_polled c \<longrightarrow> is_connected env (sw @ [c]) p = is_connected env sw p)"

lemma sample_connectivity: "connectivity_polled (sample_env :: ('req, 'resp, nat) net_env)"
  by (auto simp: connectivity_polled_def elim: is_polled.elims split: if_splits)

lemma connectivity_calls:
  assumes "connectivity_polled env" and "\<forall>c \<in> set cs. \<not> is_polled c"
  shows "is_connected env (sw @ cs) p = is_connected env sw p"
  using assms(2)
proof (induction cs rule: rev_induct)
  case (snoc c cs)
  then show ?case using assms(1) unfolding connectivity_polled_def by (metis append_assoc in_set_conv_decomp set_append UnI1)
qed simp

section \<open>Discovery\<close>

lemma dial_unconnected_eq:
  assumes "connectivity_polled env"
  shows "fold (dial_if_unconnected env) ps sw = sw @ map CallDial (filter (\<lambda>p. \<not> is_connected env sw p) ps)"
proof (induction ps arbitrary: sw)
  case (Cons p ps)
  have "is_connected env (sw @ [CallDial p]) q = is_connected env sw q" for q
    by (rule connectivity_calls [OF assms]) simp
  with Cons show ?case by (simp add: dial_if_unconnected_def swarm_dial_def)
qed simp

lemma add_discovered_eq:
  "fold (\<lambda>(peer, addr). swarm_add_peer_address peer addr) peers sw =
     sw @ map (\<lambda>(p, a). CallAddPeerAddress p a) peers"
  by (induction peers arbitrary: sw) (auto simp: swarm_add_peer_address_def)

text \<open>
  C40: discovery on the local network. All addresses of the announcement are registered first, in order;
  then every peer in it that is not connected is dialled exactly once, however many addresses it has, and
  no other peer is; the application gets the announcement unchanged.
\<close>

theorem discovered_peers_dialled_once:
  assumes "connectivity_polled env" and "hashset_iter (hashset_order env)"
  shows "\<exists>dials. el_swarm (handle_swarm_event env t (Behaviour (MdnsEvent (Discovered peers))) el) =
       el_swarm el @ map (\<lambda>(p, a). CallAddPeerAddress p a) peers @ map CallDial dials
     \<and> distinct dials
     \<and> set dials = {p \<in> fst ` set peers. \<not> is_connected env (el_swarm el) p}
     \<and> el_events (handle_swarm_event env t (Behaviour (MdnsEvent (Discovered peers))) el) =
       el_events el @ (if receiver_alive t then [PeersDiscovered peers] else [])"
proof -
  let ?e = "Behaviour (MdnsEvent (Discovered peers))"
  let ?calls = "map (\<lambda>(p, a). CallAddPeerAddress p a) peers"
  let ?dials = "filter (\<lambda>p. \<not> is_connected env (el_swarm el) p) (hashset_order env (map fst peers))"
  have "is_connected env (el_swarm el @ ?calls) p = is_connected env (el_swarm el) p" for p
    by (rule connectivity_calls [OF assms(1)]) auto
  then have "handle_discovered env peers (el_swarm el) = el_swarm el @ ?calls @ map CallDial ?dials"
    by (simp add: handle_discovered_def add_discovered_eq dial_unconnected_eq [OF assms(1)] Let_def)
  moreover have "distinct ?dials" "set ?dials = {p \<in> fst ` set peers. \<not> is_connected env (el_swarm el) p}"
    using assms(2) by (auto simp: hashset_iter_def)
  ultimately show ?thesis
    by (intro exI [of _ ?dials]) (simp add: handle_swarm_event_passed convert_to_node_event_def)
qed

theorem discovered_peers_dialled_once_witness:
  "\<exists>dials. el_swarm (handle_swarm_event str_env sample_turn
       (Behaviour (MdnsEvent (Discovered [(PeerId 1, [Ip4 1]), (PeerId 1, [Ip4 2])]))) sample_loop) =
       [CallAddPeerAddress (PeerId 1) [Ip4 1], CallAddPeerAddress (PeerId 1) [Ip4 2]] @ map CallDial dials
     \<and> distinct dials \<and> set dials = {PeerId 1}"
  using discovered_peers_dialled_once [of str_env sample_turn "[(PeerId 1, [Ip4 1]), (PeerId 1, [Ip4 2])]" sample_loop]
  by (auto simp: sample_connectivity sample_loop_def event_loop_new_def)

section \<open>Identification\<close>

definition identified :: "peer_id \<Rightarrow> identify_info \<Rightarrow> ('req, 'resp, 'stats) swarm_event" where
  "identified p info = Behaviour (IdentifyEvent (IdentifyReceivedEvent p info))"

lemma identified_not_consumable [simp]: "\<not> consumable (identified p info)"
  by (simp add: identified_def)

lemma identified_effect:
  "el_events (handle_swarm_event env t (identified p info) el) = el_events el @ (if receiver_alive t then
          [IdentifyReceived p (info_agent_version info) (info_protocol_version info) (info_listen_addrs info) (info_protocols info)]
          else [])
     \<and> (if info_protocol_version info = el_protocol_version el
        then el_swarm (handle_swarm_event env t (identified p info) el) =
               el_swarm el @ concat (map (\<lambda>a. [CallKadAddAddress p a, CallAddPeerAddress p a]) (info_listen_addrs info))
                 @ (case el_bootstrap_peers el p of None \<Rightarrow> []
                    | Some addrs \<Rightarrow> map (\<lambda>a. CallListenOn (relay_listen_addr p a)) addrs)
           \<and> el_bootstrap_peers (handle_swarm_event env t (identified p info) el) = (el_bootstrap_peers el)(p := None)
        else el_swarm (handle_swarm_event env t (identified p info) el) = el_swarm el
           \<and> el_bootstrap_peers (handle_swarm_event env t (identified p info) el) = el_bootstrap_peers el)"
  unfolding handle_swarm_event_passed [OF identified_not_consumable]
  by (simp add: identified_def convert_to_node_event_def handle_identified_eq)

text \<open>
  C26: the protocol version is the gate to the overlay. A peer that identifies with another version leaves
  the swarm and the remembered bootstrap peers as they are; one with the node's own version has each of its
  listen addresses put into the routing table and the address book, and the reservations remembered
  for it requested, once: they are forgotten, and identifying again requests none. Both are reported.
\<close>

theorem identify_gate:
  "el_events (handle_swarm_event env t (identified p info) el) = el_events el @ (if receiver_alive t then
          [IdentifyReceived p (info_agent_version info) (info_protocol_version info) (info_listen_addrs info) (info_protocols info)]
          else [])
     \<and> (if info_protocol_version info = el_protocol_version el
        then el_swarm (handle_swarm_event env t (identified p info) el) =
               el_swarm el @ concat (map (\<lambda>a. [CallKadAddAddress p a, CallAddPeerAddress p a]) (info_listen_addrs info))
                 @ (case el_bootstrap_peers el p of None \<Rightarrow> []
                    | Some addrs \<Rightarrow> map (\<lambda>a. CallListenOn (relay_listen_addr p a)) addrs)
           \<and> el_bootstrap_peers (handle_swarm_event env t (identified p info) el) = (el_bootstrap_peers el)(p := None)
        else el_swarm (handle_swarm_event env t (identified p info) el) = el_swarm el
           \<and> el_bootstrap_peers (handle_swarm_event env t (identified p info) el) = el_bootstrap_peers el)"
  by (rule identified_effect)

section \<open>Relay reservations of infrastructure peers\<close>

lemma register_infrastructure_eq:
  "fold (register_infrastructure_addr c) addrs sw =
     sw @ concat (map (\<lambda>a. CallAddPeerAddress (aip_peer c) a #
            (if kad_server (aip_roles c) then [CallKadAddAddress (aip_peer c) a] else [])) addrs)"
  by (induction addrs arbitrary: sw)
     (simp_all add: register_infrastructure_addr_def swarm_add_peer_address_def swarm_kad_add_address_def Let_def)

definition infrastructure_calls where
  "infrastructure_calls p as roles =
     concat (map (\<lambda>a. CallAddPeerAddress p a # (if kad_server roles then [CallKadAddAddress p a] else [])) as)"

lemma infrastructure_calls_not_polled [simp]: "c \<in> set (infrastructure_calls p as roles) \<Longrightarrow> \<not> is_polled c"
  by (auto simp: infrastructure_calls_def split: if_splits)

text \<open>
  C29: adding an infrastructure peer. Its addresses are registered, in the routing table only for a DHT
  server, and it is dialled unless connected. If it is a relay and the relay client is on, a reservation
  is requested at every address given, each extended by the peer's identity if it names none and by the
  circuit marker: at once if the peer is connected, and else remembered with those already remembered;
  in every other case none. The caller gets success either way.
\<close>

theorem infrastructure_peer_added:
  assumes "connectivity_polled env"
    and "task_handler cmd = HAddInfrastructurePeer (add_infrastructure_peer_new p as roles)"
    and "el' = handle_command env cmd el"
    and "relay \<longleftrightarrow> relay_server roles \<and> relay_client_enabled env"
  shows "el_swarm el' = el_swarm el @ infrastructure_calls p as roles
           @ (if \<not> is_connected env (el_swarm el) p then [CallDial p]
              else if relay then map (\<lambda>a. CallListenOn (relay_listen_addr p a)) as else [])
       \<and> el_bootstrap_peers el' =
           (if relay \<and> \<not> is_connected env (el_swarm el) p then entry_extend p as (el_bootstrap_peers el)
            else el_bootstrap_peers el)
       \<and> (\<forall>a. relay_listen_addr p a = (if list_ex is_p2p a then a else a @ [P2p p]) @ [P2pCircuit])
       \<and> handle_result (el_handles el' (task_handle cmd)) = Some (Inr OUnit)"
proof -
  have conn: "is_connected env (el_swarm el @ infrastructure_calls p as roles @ cs) q = is_connected env (el_swarm el) q"
    if "\<forall>c \<in> set cs. \<not> is_polled c" for cs q
    by (rule connectivity_calls [OF assms(1)]) (use that in auto)
  note conn0 = conn [of "[]", simplified] and conn1 = conn [of "[CallDial p]", simplified]
  have f: "fold (register_infrastructure_addr \<lparr>aip_peer = p, aip_addrs = as, aip_roles = roles, aip_pending_relay_addrs = None\<rparr>) as sw =
      sw @ infrastructure_calls p as roles" for sw :: "('a, 'b, 'c) swarm"
    by (cases "kad_server roles") (simp_all add: register_infrastructure_eq infrastructure_calls_def)
  show ?thesis
    unfolding assms(3)
    using assms(2,4) conn0 conn1
    by (auto simp: handle_command_def task_run_def task_take_relay_def add_infrastructure_peer_run_def
        add_infrastructure_peer_new_def add_infrastructure_peer_take_relay_def f swarm_dial_def Let_def
        request_relay_reservations_eq relay_listen_addr_def addr_with_def)
qed

theorem infrastructure_peer_added_witness:
  "\<exists>el'. el' = handle_command str_env
       \<lparr>task_handler = HAddInfrastructurePeer (add_infrastructure_peer_new (PeerId 1) [[Ip4 1]] roles_kad_and_relay), task_handle = 0\<rparr>
       sample_loop
     \<and> el_swarm el' = [CallAddPeerAddress (PeerId 1) [Ip4 1], CallKadAddAddress (PeerId 1) [Ip4 1], CallDial (PeerId 1)]
     \<and> el_bootstrap_peers el' (PeerId 1) = Some [[Ip4 1]]"
  using infrastructure_peer_added [OF sample_connectivity, of
      "\<lparr>task_handler = HAddInfrastructurePeer (add_infrastructure_peer_new (PeerId 1) [[Ip4 1]] roles_kad_and_relay), task_handle = 0\<rparr>"
      "PeerId 1" "[[Ip4 1]]" roles_kad_and_relay _ sample_loop True]
  by (simp add: sample_loop_def event_loop_new_def infrastructure_calls_def roles_kad_and_relay_def entry_extend_def)

section \<open>Local addresses of a LAN helper\<close>

definition external_call :: "('req, 'resp, 'stats) swarm_call \<Rightarrow> multiaddr option" where
  "external_call c = (case c of CallAddExternalAddress a \<Rightarrow> Some a | _ \<Rightarrow> None)"

definition external_calls :: "('req, 'resp, 'stats) swarm \<Rightarrow> multiaddr list" where
  "external_calls sw = List.map_filter external_call sw"

lemma external_calls_append [simp]: "external_calls (xs @ ys) = external_calls xs @ external_calls ys"
  by (simp add: external_calls_def)

lemma external_calls_Cons [simp]:
  "external_calls [] = []"
  "external_calls (c # cs) = (case external_call c of None \<Rightarrow> external_calls cs | Some a \<Rightarrow> a # external_calls cs)"
  by (simp_all add: external_calls_def List.map_filter_simps split: option.split)

lemma external_calls_map [simp]: "(\<And>x. external_call (f x) = None) \<Longrightarrow> external_calls (map f xs) = []"
  by (induction xs) simp_all

lemma external_calls_concat [simp]: "(\<And>x. external_calls (f x) = []) \<Longrightarrow> external_calls (concat (map f xs)) = []"
  by (induction xs) simp_all

lemma external_call_none [simp]:
  "external_call (CallAddExternalAddress a) = Some a"
  "external_call (Polled e) = None" "external_call (CallDial p) = None" "external_call (CallDisconnectPeerId p) = None"
  "external_call (CallAddPeerAddress p a) = None" "external_call (CallListenOn a) = None"
  "external_call (CallKadAddAddress p a) = None" "external_call CallKadBootstrap = None"
  "external_call (CallKadPutRecord r quo) = None" "external_call (CallKadGetRecord k) = None"
  "external_call (CallKadGetProviders k) = None" "external_call (CallKadGetClosestPeers k) = None"
  "external_call (CallKadStartProviding k) = None" "external_call (CallKadStopProviding k) = None"
  "external_call (CallKadRemoveRecord k) = None" "external_call (CallSendRequest p rq) = None"
  "external_call (CallSendResponse ch rs) = None"
  by (simp_all add: external_call_def)

lemma add_peer_addrs_external [simp]:
  "external_calls (fold (\<lambda>addr. swarm_add_peer_address p addr) as sw) = external_calls sw"
  by (simp add: add_peer_addresses_eq)

lemma register_infrastructure_external [simp]:
  "external_calls (fold (register_infrastructure_addr c) as sw) = external_calls sw"
  by (simp add: register_infrastructure_eq)

lemma handler_run_external:
  assumes "handler_run env c sw h = (c', sw', h')"
  shows "external_calls sw' = external_calls sw"
  using assms
  by (cases c)
     (auto simp: dial_run_def disconnect_run_def is_connected_run_def get_listen_addrs_run_def
       add_peer_addrs_run_def add_infrastructure_peer_run_def send_request_run_def send_response_run_def
       bootstrap_run_def get_closest_peers_run_def get_providers_run_def get_record_run_def put_record_run_def
       remove_record_run_def start_provide_run_def stop_provide_run_def apfst_def map_prod_def Let_def
       swarm_dial_def swarm_listen_on_def swarm_disconnect_def
       split: option.splits if_splits sum.splits bool.splits)

lemma handle_command_external [simp]: "external_calls (el_swarm (handle_command env cmd el)) = external_calls (el_swarm el)"
proof -
  obtain c' sw' h' where r: "handler_run env (task_handler cmd) (el_swarm el) (el_handles el (task_handle cmd)) = (c', sw', h')"
    by (metis prod_cases3)
  from handler_run_external [OF r] r show ?thesis
    by (auto simp: handle_command_def task_run_def Let_def case_prod_beta request_relay_reservations_eq split: option.split)
qed

text \<open>
  The helper's invariant: what it has announced is distinct and usable, it is what the swarm was told
  after what it had been told at the start, and a node that is no helper, or one that keeps its private
  addresses to itself, has announced nothing.
\<close>

definition helper_announces :: "('req, 'resp, 'stats) event_loop \<Rightarrow> bool" where
  "helper_announces el \<longleftrightarrow> (\<exists>c. el_lan_helper el = Some c \<and> announce_private_addrs c)"

definition lan_inv :: "multiaddr list \<Rightarrow> ('req, 'resp, 'stats) event_loop \<Rightarrow> bool" where
  "lan_inv ext el \<longleftrightarrow>
     distinct (el_advertised_lan_addrs el)
   \<and> (\<forall>a \<in> set (el_advertised_lan_addrs el). is_usable_lan_addr a)
   \<and> external_calls (el_swarm el) = ext @ el_advertised_lan_addrs el
   \<and> (\<not> helper_announces el \<longrightarrow> el_advertised_lan_addrs el = [])"

lemma lan_inv_frame:
  "el_advertised_lan_addrs el' = el_advertised_lan_addrs el \<Longrightarrow> el_lan_helper el' = el_lan_helper el \<Longrightarrow>
   external_calls (el_swarm el') = external_calls (el_swarm el) \<Longrightarrow> lan_inv ext el \<Longrightarrow> lan_inv ext el'"
  by (simp add: lan_inv_def helper_announces_def)

lemma try_send_event_simps [simp]:
  "el_advertised_lan_addrs (try_send_event slot v el) = el_advertised_lan_addrs el"
  "el_lan_helper (try_send_event slot v el) = el_lan_helper el"
  "el_swarm (try_send_event slot v el) = el_swarm el"
  by (simp_all add: try_send_event_def)

lemma announce_lan_inv: "lan_inv ext el \<Longrightarrow> lan_inv ext (maybe_announce_lan_helper_addr env t a el)"
  by (auto simp: maybe_announce_lan_helper_addr_def lan_inv_def helper_announces_def swarm_add_external_address_def
      split: option.split)

lemma convert_lan_inv:
  assumes "lan_inv ext el" and "convert_to_node_event env t e el = (v, el')"
  shows "lan_inv ext el'"
proof (cases "\<exists>a. e = NewListenAddr a")
  case True
  with assms announce_lan_inv show ?thesis by (auto simp: convert_to_node_event_def)
next
  case False
  have "external_calls (handle_discovered env ps sw) = external_calls sw" for ps sw
  proof -
    have "external_calls (fold (dial_if_unconnected env) qs sw) = external_calls sw" for qs sw
      by (induction qs arbitrary: sw) (simp_all add: dial_if_unconnected_def swarm_dial_def)
    then show ?thesis by (simp add: handle_discovered_def add_discovered_eq case_prod_beta Let_def)
  qed
  with False assms show ?thesis
    by (auto simp: convert_to_node_event_def handle_inbound_request_def next_pending_id_def case_prod_beta Let_def
        handle_identified_eq add_peer_addresses_eq image_iff
        intro!: lan_inv_frame [OF _ _ _ assms(1)]
        split: swarm_event.splits core_behaviour_event.splits relay_client_event.splits req_resp_event.splits
          message.splits sum.splits mdns_event.splits identify_event.splits kad_event.splits if_splits option.splits)
qed

lemma handle_swarm_event_lan_inv:
  assumes "lan_inv ext el"
  shows "lan_inv ext (handle_swarm_event env t e el)"
proof -
  obtain v el' where c: "convert_to_node_event env t e (after_chain env e el) = (v, el')" by fastforce
  have "lan_inv ext (after_chain env e el)" using assms by (rule lan_inv_frame [rotated 3]) simp_all
  moreover from this c have "lan_inv ext el'" by (rule convert_lan_inv)
  moreover from this have "lan_inv ext (send_event b w el')" for b w
    by (rule lan_inv_frame [rotated 3]) simp_all
  ultimately show ?thesis
    using handle_swarm_event_consumable [of e env t el] handle_swarm_event_passed [of e env t el] c
    by (cases "consumable e") (auto split: option.split)
qed

lemma loop_turn_lan_inv:
  assumes "lan_inv ext el" and "loop_turn env t inp el = Some el'"
  shows "lan_inv ext el'"
proof -
  have r: "lan_inv ext (retain_active el)" using assms(1) by (rule lan_inv_frame [rotated 3]) simp_all
  then have p: "lan_inv ext ((retain_active el)\<lparr>el_swarm := el_swarm el @ [Polled e]\<rparr>)" for e
    by (rule lan_inv_frame [rotated 3]) simp_all
  show ?thesis
  proof (cases inp)
    case (CommandReceived cmd)
    moreover have "lan_inv ext (handle_command env cmd (retain_active el))"
      by (rule lan_inv_frame [OF _ _ _ r]) simp_all
    ultimately show ?thesis using assms(2) by (simp add: loop_turn_eq Let_def)
  next
    case (SwarmEvent e)
    with assms(2) handle_swarm_event_lan_inv [OF p] show ?thesis by (auto simp: loop_turn_eq Let_def)
  next
    case (InboundStream q p s slot)
    moreover have "lan_inv ext (loop_inbound_channel slot q p s (retain_active el))"
      by (rule lan_inv_frame [OF _ _ _ r]) simp_all
    ultimately show ?thesis using assms(2) by (simp add: loop_turn_eq Let_def)
  qed (use assms(2) in \<open>simp add: loop_turn_eq Let_def\<close>)
qed

lemma convert_helper:
  "convert_to_node_event env t e el = (v, el') \<Longrightarrow> el_lan_helper el' = el_lan_helper el"
  by (auto simp: convert_to_node_event_def handle_inbound_request_def next_pending_id_def case_prod_beta Let_def
      split: swarm_event.splits core_behaviour_event.splits relay_client_event.splits req_resp_event.splits
        message.splits sum.splits mdns_event.splits identify_event.splits kad_event.splits)

lemma handle_swarm_event_helper [simp]: "el_lan_helper (handle_swarm_event env t e el) = el_lan_helper el"
proof -
  obtain v el' where c: "convert_to_node_event env t e (after_chain env e el) = (v, el')" by fastforce
  then show ?thesis
    using handle_swarm_event_consumable [of e env t el] handle_swarm_event_passed [of e env t el] convert_helper [OF c]
    by (cases "consumable e") (auto split: option.split)
qed

lemma loop_turn_helper: "loop_turn env t inp el = Some el' \<Longrightarrow> el_lan_helper el' = el_lan_helper el"
  by (cases inp) (auto simp: loop_turn_eq Let_def)

text \<open>
  C30: what a LAN helper announces. In every run of the loop, whatever commands, events and streams it
  handles, the addresses announced to the swarm since the start are exactly the helper's list; each is
  announced once and is a usable local address; a node that is not a helper, or one told to keep its
  private addresses to itself, announces nothing.
\<close>

theorem lan_helper_announces_usable_once:
  assumes "loop_run env xs (event_loop_new sw pending version limits dc relay mode) = Some el"
  shows "external_calls (el_swarm el) = external_calls sw @ el_advertised_lan_addrs el
       \<and> distinct (el_advertised_lan_addrs el)
       \<and> (\<forall>a \<in> set (el_advertised_lan_addrs el). is_usable_lan_addr a)
       \<and> (\<not> (\<exists>c. mode = LanHelper c \<and> announce_private_addrs c) \<longrightarrow> el_advertised_lan_addrs el = [])"
proof -
  let ?P = "\<lambda>el. lan_inv (external_calls sw) el \<and> el_lan_helper el = lan_helper_of mode"
  have keep: "el_lan_helper el2 = el_lan_helper el1" if "loop_turn env t inp el1 = Some el2" for t inp el1 el2
    using that loop_turn_helper by blast
  have "?P el"
  proof (rule loop_run_invariant [OF assms])
    show "?P (event_loop_new sw pending version limits dc relay mode)"
      by (simp add: event_loop_new_def lan_inv_def lan_helper_of_def split: infrastructure_mode.split)
  qed (use loop_turn_lan_inv keep in metis)
  then show ?thesis
    by (auto simp: lan_inv_def helper_announces_def lan_helper_of_def split: infrastructure_mode.splits)
qed

definition sample_helper_loop :: "(string, string, nat) event_loop" where
  "sample_helper_loop =
     event_loop_new [] (pm_new 120) ''/app/1'' data_channel_limits_default (world (dc_sys_init 0)) True
       (LanHelper lan_helper_config_default)"

definition sample_listen :: "32 word \<Rightarrow> turn \<times> (string, string, nat) loop_input" where
  "sample_listen ip = (sample_turn, SwarmEvent (NewListenAddr [Ip4 ip, Tcp 4001]))"

theorem lan_helper_announces_usable_once_witness:
  "\<exists>el. loop_run str_env [sample_listen 0xC0A8010A, sample_listen 0x08080808, sample_listen 0xC0A8010A] sample_helper_loop = Some el
     \<and> el_advertised_lan_addrs el = [[Ip4 0xC0A8010A, Tcp 4001]]
     \<and> external_calls (el_swarm el) = [[Ip4 0xC0A8010A, Tcp 4001]] \<and> is_usable_lan_addr [Ip4 0xC0A8010A, Tcp 4001]"
proof -
  obtain el where el: "loop_run str_env [sample_listen 0xC0A8010A, sample_listen 0x08080808, sample_listen 0xC0A8010A]
      sample_helper_loop = Some el"
    by (simp add: loop_turn_eq Let_def sample_listen_def)
  have "is_usable_lan_addr [Ip4 0xC0A8010A, Tcp 4001]" "\<not> is_usable_lan_addr [Ip4 0x08080808, Tcp 4001]" by code_simp+
  then have "el_advertised_lan_addrs el = [[Ip4 0xC0A8010A, Tcp 4001]]"
    using el by (auto simp: loop_turn_eq Let_def sample_listen_def sample_helper_loop_def event_loop_new_def
        handle_swarm_event_passed convert_to_node_event_def maybe_announce_lan_helper_addr_def lan_helper_config_default_def)
  with lan_helper_announces_usable_once [OF el [unfolded sample_helper_loop_def]] el show ?thesis by auto
qed

text \<open>
  A helper announces a usable address as soon as it listens on it, and the status it then reports to
  the application lists all it has announced so far; the listening notice follows.
\<close>

theorem lan_helper_reports_announced:
  assumes "el_lan_helper el = Some c" and "announce_private_addrs c" and "is_usable_lan_addr a"
    and "el' = handle_swarm_event env t (NewListenAddr a) el"
  shows "a \<in> set (el_advertised_lan_addrs el')
       \<and> set (el_advertised_lan_addrs el') = insert a (set (el_advertised_lan_addrs el))
       \<and> el_events el' = el_events el
           @ (if status_slot t = SendOk
              then [LanHelperStatusChanged (relay_server_enabled env) (el_advertised_lan_addrs el')] else [])
           @ (if receiver_alive t then [Listening a] else [])"
  unfolding assms(4) using assms(1-3)
  by (auto simp: handle_swarm_event_passed convert_to_node_event_def maybe_announce_lan_helper_addr_def
      try_send_event_def is_err_def Let_def)

theorem lan_helper_reports_announced_witness:
  "el_events (handle_swarm_event str_env sample_turn (NewListenAddr [Ip4 0xC0A8010A]) sample_helper_loop)
     = [LanHelperStatusChanged False
          (el_advertised_lan_addrs (handle_swarm_event str_env sample_turn (NewListenAddr [Ip4 0xC0A8010A]) sample_helper_loop)),
        Listening [Ip4 0xC0A8010A]]"
proof -
  have "is_usable_lan_addr [Ip4 0xC0A8010A]"
    by (simp add: is_usable_lan_addr_def ip4_is_private_def ip4_is_loopback_def ip4_is_link_local_def
        ip4_is_unspecified_def ip4_octet_def drop_bit_eq_div)
  from lan_helper_reports_announced [OF _ _ this refl, of sample_helper_loop lan_helper_config_default str_env sample_turn]
  show ?thesis by (simp add: sample_helper_loop_def event_loop_new_def lan_helper_config_default_def sample_turn_def)
qed

section \<open>Round-trip times\<close>

text \<open>
  A ping is reported in whole milliseconds, rounded down, exactly as long as the round trip is shorter
  than 2 to the 64 milliseconds; from there on the reported number is the remainder modulo 2 to the 64.
\<close>

theorem ping_reported_in_milliseconds:
  assumes "receiver_alive t"
  shows "\<exists>ms. el_events (handle_swarm_event env t (Behaviour (PingEvent p (Inr rtt))) el) = el_events el @ [PingSuccess p ms]
     \<and> unat ms = rtt div 1000000 mod 2 ^ 64
     \<and> (rtt div 1000000 < 2 ^ 64 \<longrightarrow> unat ms * 1000000 \<le> rtt \<and> rtt < (unat ms + 1) * 1000000)"
proof -
  have u: "unat (as_millis_u64 rtt) = rtt div 1000000 mod 2 ^ 64"
    by (simp add: as_millis_u64_def unat_of_nat take_bit_eq_mod)
  have "rtt div 1000000 < 2 ^ 64 \<Longrightarrow>
      unat (as_millis_u64 rtt) * 1000000 \<le> rtt \<and> rtt < (unat (as_millis_u64 rtt) + 1) * 1000000"
    using unat_as_millis_u64 [of rtt] dividend_less_div_times [of 1000000 rtt] by (simp add: div_times_less_eq_dividend)
  with u assms show ?thesis
    by (intro exI [of _ "as_millis_u64 rtt"]) (simp add: handle_swarm_event_passed convert_to_node_event_def)
qed

theorem ping_reported_in_milliseconds_witness:
  "\<exists>ms. el_events (handle_swarm_event str_env sample_turn (Behaviour (PingEvent (PeerId 1) (Inr 2500000))) sample_loop)
     = el_events sample_loop @ [PingSuccess (PeerId 1) ms] \<and> unat ms = 2"
  using ping_reported_in_milliseconds [of sample_turn str_env "PeerId 1" 2500000 sample_loop]
  by (auto simp: sample_turn_def)

end
