(* ===== verification/Client.thy ===== *)
theory Client
  imports Loop_Properties
begin

text \<open>
  The client half of the node (\<^verbatim>\<open>core/src/client/\<close>): which command each method submits, requests with their
  per-call options, and responses to inbound requests, which take the pending channel that the event loop
  stored. A node is the event loop, the cleanup task of the pending map and the client's takes,
  interleaved in any order.
\<close>

section \<open>Methods that submit a command\<close>

datatype ('req, 'resp) client_call =
    Dial peer_id
  | IsConnected peer_id
  | Disconnect peer_id
  | GetAddrs
  | AddPeerAddrs peer_id "multiaddr list"
  | AddInfrastructurePeer peer_id "multiaddr list" infrastructure_roles
  | SendRequest peer_id 'req
  | Bootstrap
  | GetRecord record_key
  | PutRecord kad_record
  | GetProviders record_key
  | GetClosestPeers record_key
  | StartProvide record_key
  | StopProvide record_key
  | RemoveRecord record_key

fun client_command :: "('req, 'resp) client_call \<Rightarrow> ('req, 'resp, 'stats) handler" where
  "client_command (Dial p) = HDial \<lparr>dial_peer = p\<rparr>"
| "client_command (IsConnected p) = HIsConnected \<lparr>is_connected_peer = p\<rparr>"
| "client_command (Disconnect p) = HDisconnect \<lparr>disconnect_peer = p\<rparr>"
| "client_command GetAddrs = HGetListenAddrs"
| "client_command (AddPeerAddrs p as) = HAddPeerAddrs \<lparr>apa_peer = p, apa_addrs = as\<rparr>"
| "client_command (AddInfrastructurePeer p as roles) = HAddInfrastructurePeer (add_infrastructure_peer_new p as roles)"
| "client_command (SendRequest p r) = HSendRequest (send_request_new p r)"
| "client_command Bootstrap = HBootstrap bootstrap_new"
| "client_command (GetRecord k) = HGetRecord (get_record_new k)"
| "client_command (PutRecord r) = HPutRecord (put_record_new r)"
| "client_command (GetProviders k) = HGetProviders (get_providers_new k)"
| "client_command (GetClosestPeers k) = HGetClosestPeers (get_closest_peers_new k)"
| "client_command (StartProvide k) = HStartProvide (start_provide_new k)"
| "client_command (StopProvide k) = HStopProvide \<lparr>stpc_key = k\<rparr>"
| "client_command (RemoveRecord k) = HRemoveRecord \<lparr>rrc_key = k\<rparr>"

definition client_future :: "('req, 'resp) client_call \<Rightarrow> ('req, 'resp, 'stats) handler command_future" where
  "client_future call = command_future_new (client_command call)"

section \<open>Requests with options\<close>

text \<open>
  One poll of \<open>send_request_with_options\<close>. A timeout polls the future first and its timer, whose state is an
  argument, second; when it has elapsed the future is dropped.
\<close>

definition send_request_poll ::
  "request_options \<Rightarrow> bool \<Rightarrow> waker \<Rightarrow> try_send_outcome \<Rightarrow> ('req, 'resp, 'stats) handler command_future \<Rightarrow>
   'resp cmd_handle \<Rightarrow>
   'resp cmd_output res poll \<times> ('req, 'resp, 'stats) handler option \<times>
   ('req, 'resp, 'stats) handler command_future \<times> 'resp cmd_handle" where
  "send_request_poll options elapsed cx out fut h =
     (case cf_poll cx out fut h of
        (Ready r, sent, fut', h') \<Rightarrow> (Ready r, sent, fut', cf_drop h')
      | (Pending, sent, fut', h') \<Rightarrow>
          (case opt_timeout options of
             Some d \<Rightarrow>
               if elapsed then (Ready (Inl (NetworkError TimeoutKind)), sent, fut', cf_drop h')
               else (Pending, sent, fut', h')
           | None \<Rightarrow> (Pending, sent, fut', h')))"

section \<open>Responses\<close>

definition no_pending_channel :: "u64 \<Rightarrow> error" where
  "no_pending_channel i =
     RequestResponseError
       (''No pending channel for pending_id='' @ show_nat (unat i) @ '' (expired or already responded)'')"

text \<open>The part of \<open>send_response\<close> before the await: take the channel and build the future.\<close>

definition send_response_start ::
  "u64 \<Rightarrow> 'resp \<Rightarrow> (u64, response_channel) pending_map \<Rightarrow>
   ('req, 'resp, 'stats) handler command_future res \<times> (u64, response_channel) pending_map" where
  "send_response_start i resp m =
     (case pm_take i m of
        (None, m') \<Rightarrow> (Inl (no_pending_channel i), m')
      | (Some ch, m') \<Rightarrow> (Inr (command_future_new (HSendResponse (send_response_new ch resp))), m'))"

section \<open>The node as interleaved steps\<close>

datatype ('req, 'resp, 'stats) node_step =
    LoopStep turn "('req, 'resp, 'stats) loop_input"
  | CleanupTick instant
  | RespondTo u64 'resp

fun node_apply ::
  "('req, 'resp, 'stats) net_env \<Rightarrow> ('req, 'resp, 'stats) node_step \<Rightarrow> ('req, 'resp, 'stats) event_loop \<Rightarrow>
   ('req, 'resp, 'stats) event_loop option" where
  "node_apply env (LoopStep t inp) el = loop_turn env t inp el"
| "node_apply env (CleanupTick n) el =
     Some (el\<lparr>el_pending_channels := snd (pm_purge_expired n (el_pending_channels el))\<rparr>)"
| "node_apply env (RespondTo i resp) el =
     Some (el\<lparr>el_pending_channels :=
       snd (send_response_start i resp (el_pending_channels el)
              :: ('req, 'resp, 'stats) handler command_future res \<times> (u64, response_channel) pending_map)\<rparr>)"

fun node_run where
  "node_run env [] el = Some el"
| "node_run env (s # ss) el = (case node_apply env s el of None \<Rightarrow> None | Some el' \<Rightarrow> node_run env ss el')"

fun is_request_step :: "('req, 'resp, 'stats) node_step \<Rightarrow> bool" where
  "is_request_step (LoopStep t inp) = is_request_input (t, inp)"
| "is_request_step _ = False"

text \<open>Every step of the node works on the pending map by operations of the map, under keys we can name.\<close>

lemma loop_turn_channels:
  assumes "loop_turn env t inp el = Some el'"
  shows "if is_request_input (t, inp)
    then \<exists>ch. el_pending_channels el' = pm_insert (now t) (el_pending_id_counter el) ch (el_pending_channels el)
    else el_pending_channels el' = el_pending_channels el"
proof (cases "is_request_input (t, inp)")
  case True
  then obtain e where i: "inp = SwarmEvent e" "is_inbound_request e" by (cases inp) simp_all
  then obtain p r ch where "e = inbound_request p r ch" by (auto simp: is_inbound_request_iff)
  with i assms show ?thesis by (auto simp: loop_turn_eq handle_inbound_request_event)
next
  case False
  with loop_turn_pending [OF assms] show ?thesis by simp
qed

definition op_of_steps ::
  "u64 \<Rightarrow> ('req, 'resp, 'stats) node_step list \<Rightarrow> instant \<times> (u64, response_channel) pm_op \<Rightarrow> bool" where
  "op_of_steps c steps x \<longleftrightarrow>
     (case x of
        (n, Insert k v) \<Rightarrow> \<exists>j < length (filter is_request_step steps). k = c + word_of_nat j
      | (n, Take k) \<Rightarrow> \<exists>resp. RespondTo k resp \<in> set steps
      | (n, Purge) \<Rightarrow> CleanupTick n \<in> set steps)"

lemma node_apply_ops:
  assumes "node_apply env s el = Some el'"
  shows "\<exists>ops. el_pending_channels el' = pm_exec ops (el_pending_channels el)
     \<and> (\<forall>x \<in> set ops. op_of_steps (el_pending_id_counter el) [s] x)
     \<and> (\<forall>n. s = CleanupTick n \<longrightarrow> (n, Purge) \<in> set ops)
     \<and> el_pending_id_counter el' = el_pending_id_counter el + (if is_request_step s then 1 else 0)"
proof (cases s)
  case (LoopStep t inp)
  then have l: "loop_turn env t inp el = Some el'" using assms by simp
  show ?thesis
  proof (cases "is_request_input (t, inp)")
    case True
    then obtain ch where "el_pending_channels el' = pm_insert (now t) (el_pending_id_counter el) ch (el_pending_channels el)"
      using loop_turn_channels [OF l] by auto
    with True LoopStep loop_turn_pending [OF l] show ?thesis
      by (intro exI [of _ "[(now t, Insert (el_pending_id_counter el) ch)]"]) (simp add: pm_exec_def op_of_steps_def)
  next
    case False
    with LoopStep loop_turn_pending [OF l] show ?thesis by (intro exI [of _ "[]"]) (simp add: pm_exec_def)
  qed
next
  case (CleanupTick n)
  with assms show ?thesis
    by (intro exI [of _ "[(n, Purge)]"]) (auto simp: pm_exec_def op_of_steps_def)
next
  case (RespondTo i resp)
  have "snd (send_response_start i resp m :: ('a, 'b, 'c) handler command_future res \<times> (u64, response_channel) pending_map) =
      snd (pm_take i m)" for m
    by (simp add: send_response_start_def case_prod_beta split: option.split)
  with assms RespondTo show ?thesis
    by (intro exI [of _ "[(0, Take i)]"]) (auto simp: pm_exec_def op_of_steps_def)
qed

lemma op_of_steps_tail:
  assumes "op_of_steps (c + (if is_request_step s then 1 else 0)) ss x"
  shows "op_of_steps c (s # ss) x"
proof (cases x)
  case (Pair n op)
  show ?thesis
  proof (cases op)
    case (Insert k v)
    with assms Pair obtain j where j: "j < length (filter is_request_step ss)"
      "k = c + (if is_request_step s then 1 else 0) + word_of_nat j"
      by (auto simp: op_of_steps_def)
    then show ?thesis using Pair Insert
      by (auto simp: op_of_steps_def add.assoc intro: exI [of _ "Suc j"] exI [of _ j])
  qed (use assms Pair in \<open>auto simp: op_of_steps_def\<close>)
qed

lemma op_of_steps_head: "op_of_steps c [s] x \<Longrightarrow> op_of_steps c (s # ss) x"
  by (cases x; cases "snd x") (auto simp: op_of_steps_def split: if_splits)

lemma node_run_ops:
  assumes "node_run env ss el = Some el'"
  shows "\<exists>ops. el_pending_channels el' = pm_exec ops (el_pending_channels el)
     \<and> (\<forall>x \<in> set ops. op_of_steps (el_pending_id_counter el) ss x)
     \<and> (\<forall>n. CleanupTick n \<in> set ss \<longrightarrow> (n, Purge) \<in> set ops)"
  using assms
proof (induction ss arbitrary: el)
  case (Cons s ss)
  obtain el1 where s: "node_apply env s el = Some el1" and r: "node_run env ss el1 = Some el'"
    using Cons.prems by (auto split: option.splits)
  obtain ops1 where o1: "el_pending_channels el1 = pm_exec ops1 (el_pending_channels el)"
    "\<forall>x \<in> set ops1. op_of_steps (el_pending_id_counter el) [s] x" "\<forall>n. s = CleanupTick n \<longrightarrow> (n, Purge) \<in> set ops1"
    and c: "el_pending_id_counter el1 = el_pending_id_counter el + (if is_request_step s then 1 else 0)"
    using node_apply_ops [OF s] by blast
  obtain ops2 where o2: "el_pending_channels el' = pm_exec ops2 (el_pending_channels el1)"
    "\<forall>x \<in> set ops2. op_of_steps (el_pending_id_counter el1) ss x" "\<forall>n. CleanupTick n \<in> set ss \<longrightarrow> (n, Purge) \<in> set ops2"
    using Cons.IH [OF r] by blast
  show ?case
  proof (intro exI [of _ "ops1 @ ops2"] conjI)
    show "el_pending_channels el' = pm_exec (ops1 @ ops2) (el_pending_channels el)"
      using o1(1) o2(1) by (simp add: pm_exec_def)
    show "\<forall>x \<in> set (ops1 @ ops2). op_of_steps (el_pending_id_counter el) (s # ss) x"
      using o1(2) o2(2) unfolding c by (auto intro: op_of_steps_head op_of_steps_tail)
    show "\<forall>n. CleanupTick n \<in> set (s # ss) \<longrightarrow> (n, Purge) \<in> set (ops1 @ ops2)"
      using o1(3) o2(3) by auto
  qed
qed (auto simp: pm_exec_def intro!: exI [of _ "[]"])

lemma other_ids_differ:
  assumes "n < 2 ^ 64" and "j < n"
  shows "c + 1 + word_of_nat j \<noteq> (c :: u64)"
proof
  assume "c + 1 + word_of_nat j = c"
  then have "word_of_nat (Suc j) = (0 :: u64)" by (simp add: add.assoc)
  then show False
    using word_of_nat_inj_below [of "Suc j" 0] assms by simp
qed

section \<open>Properties\<close>

text \<open>
  C21: an inbound request stays answerable until the first cleanup after its time to live. When a request has arrived, then,
  whatever the loop, the cleanup task and the application do in the meantime, as long as the application
  has not answered this request and fewer than 2 to the 64 requests follow, answering it under the
  identifier the application was told submits a command that carries the request's own response channel,
  unless a cleanup has run after the time to live; then the answer fails. Once answered, a second
  answer fails.
\<close>

theorem inbound_request_answerable:
  assumes "pm_wf (el_pending_channels el)" and "i = el_pending_id_counter el"
    and "node_run env ss (handle_swarm_event env t (inbound_request p r ch) el) = Some el'"
    and "\<forall>resp. RespondTo i resp \<notin> set ss" and "length (filter is_request_step ss) < 2 ^ 64"
    and "expired \<longleftrightarrow> (\<exists>n. CleanupTick n \<in> set ss \<and> ttl (el_pending_channels el) \<le> n - now t)"
  shows "fst (send_response_start i answer (el_pending_channels el')) =
           (if expired then Inl (no_pending_channel i)
            else Inr (command_future_new (HSendResponse (send_response_new ch answer))))
       \<and> fst (send_response_start i answer' (snd (send_response_start i answer (el_pending_channels el')
              :: ('req, 'resp, 'stats) handler command_future res \<times> _))) =
           (Inl (no_pending_channel i) :: ('req, 'resp, 'stats) handler command_future res)"
proof -
  let ?el1 = "handle_swarm_event env t (inbound_request p r ch) el"
  have c: "el_pending_id_counter ?el1 = i + 1"
    and m: "el_pending_channels ?el1 = pm_insert (now t) i ch (el_pending_channels el)"
    by (simp_all add: handle_inbound_request_event assms(2))
  obtain ops where o: "el_pending_channels el' = pm_exec ops (el_pending_channels ?el1)"
    and ops: "\<forall>x \<in> set ops. op_of_steps (i + 1) ss x" and purges: "\<forall>n. CleanupTick n \<in> set ss \<longrightarrow> (n, Purge) \<in> set ops"
    using node_run_ops [OF assms(3)] unfolding c by blast
  have "\<forall>(n, op) \<in> set ops. op_key op \<noteq> Some i"
  proof clarify
    fix n op assume "(n, op) \<in> set ops" and k: "op_key op = Some i"
    with ops have "op_of_steps (i + 1) ss (n, op)" by blast
    with k assms(4) other_ids_differ [OF assms(5), of _ i] show False
      by (cases op) (auto simp: op_of_steps_def)
  qed
  from take_after_exec [OF assms(1) this, of "now t" ch]
  have "fst (pm_take i (el_pending_channels el')) =
      (if \<exists>(n, op) \<in> set ops. op = Purge \<and> ttl (el_pending_channels el) \<le> n - now t then None else Some ch)"
    unfolding o m .
  moreover have "(\<exists>(n, op) \<in> set ops. op = Purge \<and> ttl (el_pending_channels el) \<le> n - now t) \<longleftrightarrow> expired"
    using ops purges assms(6) by (fastforce simp: op_of_steps_def)
  ultimately have take: "fst (pm_take i (el_pending_channels el')) = (if expired then None else Some ch)" by simp
  have wf: "pm_wf (el_pending_channels el')" unfolding o m using assms(1) by (simp add: pm_wf_exec)
  have "snd (send_response_start i answer m' :: ('req, 'resp, 'stats) handler command_future res \<times> _) = snd (pm_take i m')" for m'
    by (simp add: send_response_start_def case_prod_beta split: option.split)
  then show ?thesis
    using take pm.take_once [OF wf, of i] by (simp add: send_response_start_def case_prod_beta)
qed

definition sample_request_event :: "(string, string, nat) swarm_event" where
  "sample_request_event = inbound_request (PeerId 1) ''hello'' (ResponseChannel 3)"

definition sample_meanwhile :: "(string, string, nat) node_step list" where
  "sample_meanwhile =
     [CleanupTick 100, LoopStep sample_turn (SwarmEvent (inbound_request (PeerId 2) ''x'' (ResponseChannel 4))), RespondTo 1 ''y'']"

theorem inbound_request_answerable_witness:
  "\<exists>el'. node_run str_env sample_meanwhile (handle_swarm_event str_env sample_turn sample_request_event sample_loop) = Some el'
     \<and> fst (send_response_start 0 ''answer'' (el_pending_channels el')) =
         (Inr (command_future_new (HSendResponse (send_response_new (ResponseChannel 3) ''answer'')))
            :: (string, string, nat) handler command_future res)"
proof -
  obtain el' where r: "node_run str_env sample_meanwhile (handle_swarm_event str_env sample_turn sample_request_event sample_loop) = Some el'"
    by (simp add: sample_meanwhile_def loop_turn_eq Let_def)
  have wf: "pm_wf (el_pending_channels sample_loop)" and c: "0 = el_pending_id_counter sample_loop"
    by (simp_all add: sample_loop_def event_loop_new_def)
  have e: "False \<longleftrightarrow> (\<exists>n. CleanupTick n \<in> set sample_meanwhile \<and> ttl (el_pending_channels sample_loop) \<le> n - now sample_turn)"
    by (simp add: sample_meanwhile_def sample_loop_def event_loop_new_def sample_turn_def)
  have "\<forall>resp. RespondTo 0 resp \<notin> set sample_meanwhile" "length (filter is_request_step sample_meanwhile) < 2 ^ 64"
    by (simp_all add: sample_meanwhile_def inbound_request_def)
  from inbound_request_answerable [OF wf c r [unfolded sample_request_event_def] this e, of "''answer''" "''z''"] r
  show ?thesis by auto
qed

text \<open>
  C35: an answer given while the command channel is full is lost. The channel of the request is taken before
  the command is submitted; if the bounded command channel has no slot then, the call fails, nothing is
  submitted, and a retry with the same identifier, on the table that is left, fails because it finds no pending
  channel.
\<close>

theorem response_lost_when_full:
  assumes "pm_wf m" and "fst (pm_take i m) = Some ch"
    and "send_response_start i resp m = (Inr (fut :: ('req, 'resp, 'stats) handler command_future), m')"
  shows "fst (cf_poll cx SendFull fut h) = Ready (Inl (BehaviourError ''command channel closed''))
       \<and> fst (snd (cf_poll cx SendFull fut h)) = None
       \<and> fst (send_response_start i resp' m') = (Inl (no_pending_channel i) :: ('req, 'resp, 'stats) handler command_future res)"
proof -
  have f: "fut = command_future_new (HSendResponse (send_response_new ch resp))" and m: "m' = snd (pm_take i m)"
    using assms(2,3) by (auto simp: send_response_start_def case_prod_beta split: option.splits)
  have "fst (pm_take i m') = None" using pm.take_once [OF assms(1)] m by simp
  then show ?thesis
    by (simp add: f cf_poll_def cf_submit_def command_future_new_def is_err_def send_response_start_def case_prod_beta)
qed

theorem response_lost_when_full_witness:
  "fst (send_response_start 0 ''again'' (snd (pm_take 0 (pm_insert 5 0 (ResponseChannel 3) (pm_new 120))))) =
     (Inl (no_pending_channel 0) :: (string, string, nat) handler command_future res)"
proof -
  let ?m = "pm_insert 5 0 (ResponseChannel 3) (pm_new 120) :: (u64, response_channel) pending_map"
  let ?fut = "command_future_new (HSendResponse (send_response_new (ResponseChannel 3) ''a'')) :: (string, string, nat) handler command_future"
  have t: "fst (pm_take 0 ?m) = Some (ResponseChannel 3)" by simp
  have "send_response_start 0 ''a'' ?m = (Inr ?fut, snd (pm_take 0 ?m))"
    using t by (simp add: send_response_start_def case_prod_beta)
  from response_lost_when_full [OF _ t this, of "Waker 0" "handle_new :: string cmd_handle" "''again''"] show ?thesis by simp
qed

text \<open>
  C34: a request timeout cleans up after itself. Once the command of a request with a timeout has been submitted, a poll of
  the request returns the answer if it is there, even when the timer has elapsed too, and otherwise, once the timer has elapsed, the timeout
  error; in both cases the handle is left cancelled, so that the next turn of the loop clears the command
  out. Without the option a request that has no answer stays pending.
\<close>

theorem request_timeout_cleans_up:
  assumes "fut = \<lparr>cf_handler = None\<rparr>" and "send_request_poll options elapsed cx out fut h = (poll, sent, fut', h')"
    and "el_handles el (task_handle task0) = h'" and "task0 \<in> set (el_active_commands el)"
  shows "poll = (case handle_result h of
             Some r \<Rightarrow> Ready r
           | None \<Rightarrow> if opt_timeout options \<noteq> None \<and> elapsed then Ready (Inl (NetworkError TimeoutKind)) else Pending)
       \<and> (poll \<noteq> Pending \<longrightarrow> task0 \<notin> set (el_active_commands (retain_active el)))"
proof -
  have "poll \<noteq> Pending \<Longrightarrow> handle_is_cancelled h'"
    using assms(1,2)
    by (auto simp: send_request_poll_def cf_poll_def cf_submit_def handle_poll_def cf_drop_def
        handle_is_cancelled_def split: option.splits if_splits)
  then have "poll \<noteq> Pending \<longrightarrow> task0 \<notin> set (el_active_commands (retain_active el))"
    using assms(3) by (simp add: retain_active_def task_is_cancelled_def)
  moreover have "poll = (case handle_result h of
             Some r \<Rightarrow> Ready r
           | None \<Rightarrow> if opt_timeout options \<noteq> None \<and> elapsed then Ready (Inl (NetworkError TimeoutKind)) else Pending)"
    using assms(1,2)
    by (auto simp: send_request_poll_def cf_poll_def cf_submit_def handle_poll_def split: option.splits if_splits)
  ultimately show ?thesis by blast
qed

definition sample_waiting_loop :: "(string, string, nat) event_loop" where
  "sample_waiting_loop = sample_loop
     \<lparr>el_active_commands := [\<lparr>task_handler = HSendRequest sample_request, task_handle = 0\<rparr>],
      el_handles := (\<lambda>_. handle_cancel (snd (handle_poll (Waker 1) handle_new)))\<rparr>"

theorem request_timeout_cleans_up_witness:
  "\<lparr>task_handler = HSendRequest sample_request, task_handle = 0\<rparr>
     \<notin> set (el_active_commands (retain_active sample_waiting_loop))"
proof -
  let ?fut = "\<lparr>cf_handler = None\<rparr> :: (string, string, nat) handler command_future"
  have "send_request_poll (with_timeout 7 request_options_new) True (Waker 1) SendOk ?fut handle_new =
      (Ready (Inl (NetworkError TimeoutKind)), None, ?fut, handle_cancel (snd (handle_poll (Waker 1) handle_new)))"
    by (simp add: send_request_poll_def cf_poll_def cf_submit_def handle_poll_def cf_drop_def with_timeout_def)
  from request_timeout_cleans_up [OF refl this, of sample_waiting_loop
      "\<lparr>task_handler = HSendRequest sample_request, task_handle = 0\<rparr>"]
  show ?thesis by (simp add: sample_waiting_loop_def)
qed

end
