(* ===== verification/Node.thy ===== *)
theory Node
  imports Reachability Client
begin

text \<open>
  Starting a node (\<^verbatim>\<open>core/src/runtime/node.rs\<close>): the event loop is built around the configured behaviour,
  the data-channel protocols are registered, the listen addresses are bound in order and the bootstrap
  peers contacted. Building the transports and accepting a protocol belong to the networking libraries;
  their outcomes are arguments.
\<close>

definition COMMAND_CHANNEL_SIZE :: usize where "COMMAND_CHANNEL_SIZE = 32"
definition EVENT_CHANNEL_SIZE :: usize where "EVENT_CHANNEL_SIZE = 64"
definition DC_INBOUND_CHANNEL_SIZE :: usize where "DC_INBOUND_CHANNEL_SIZE = 16"

text \<open>What the client gets: everything else it uses is shared with the loop.\<close>

record net_client =
  client_limits :: data_channel_limits
  client_open_timeout :: duration

text \<open>\<open>NetClient::open_data_channel\<close>: the future that is awaited; the control and the registry are those of the node.\<close>

definition open_data_channel :: "net_client \<Rightarrow> peer_id \<Rightarrow> stream_protocol \<Rightarrow> open_state" where
  "open_data_channel client peer protocol = open_future_new peer protocol (client_open_timeout client)"

text \<open>
  The protocols whose registration succeeds, in order; \<open>accept\<close> is told what has been registered before.
\<close>

fun accepted_protocols ::
  "(stream_protocol list \<Rightarrow> stream_protocol \<Rightarrow> bool) \<Rightarrow> stream_protocol list \<Rightarrow> stream_protocol list \<Rightarrow> stream_protocol list" where
  "accepted_protocols accept done [] = done"
| "accepted_protocols accept done (q # qs) =
     accepted_protocols accept (if accept done q then done @ [q] else done) qs"

record ('req, 'resp, 'stats) started =
  started_behaviour :: core_behaviour
  started_loop :: "('req, 'resp, 'stats) event_loop"
  started_inbound :: "stream_protocol list"
  started_client :: net_client

text \<open>
  \<open>start\<close>: \<open>None\<close> is a panic while the behaviour is built, \<open>Inl\<close> the error it returns. A failing listen
  address drops the loop with the swarm; the calls made up to then are returned for inspection.
\<close>

definition node_start ::
  "('req, 'resp, 'stats) net_env \<Rightarrow> lib_error option \<Rightarrow> bool \<Rightarrow> (string \<Rightarrow> bool) \<Rightarrow>
   (stream_protocol list \<Rightarrow> stream_protocol \<Rightarrow> bool) \<Rightarrow> u64 \<Rightarrow> node_config \<Rightarrow>
   (error \<times> ('req, 'resp, 'stats) swarm + ('req, 'resp, 'stats) started) option" where
  "node_start env transport mdns_ok valid_protocol accept dc_counter cfg =
     (case transport of
        Some e \<Rightarrow> Some (Inl (AnyhowError e, []))
      | None \<Rightarrow>
          (case core_behaviour_new mdns_ok valid_protocol cfg of
             None \<Rightarrow> None
           | Some behaviour \<Rightarrow>
               let dc = \<lparr>registry = registry_inner_default, id_counter = dc_counter\<rparr>;
                   inbound = accepted_protocols accept [] (data_channel_protocols cfg);
                   pending = pm_new (req_resp_timeout cfg);
                   el0 = event_loop_new [] pending (protocol_version cfg) (data_channel_limits cfg) dc
                           (enable_relay_client cfg) (infrastructure_mode cfg)
               in case start_listen env (listen_addrs cfg) el0 of
                    (Inl e, el1) \<Rightarrow> Some (Inl (e, el_swarm el1))
                  | (Inr _, el1) \<Rightarrow>
                      let el2 = (if bootstrap_peers cfg = [] then el1
                                 else connect_bootstrap_peers env (bootstrap_peers cfg) el1)
                      in Some (Inr \<lparr>started_behaviour = behaviour, started_loop = el2, started_inbound = inbound,
                           started_client = \<lparr>client_limits = data_channel_limits cfg,
                                             client_open_timeout = data_channel_open_timeout cfg\<rparr>\<rparr>)))"

section \<open>The calls of the start\<close>

lemma start_listen_ok:
  assumes "start_listen env addrs el = (Inr u, el')"
  shows "el' = el\<lparr>el_swarm := el_swarm el @ map CallListenOn addrs\<rparr>"
  using assms
proof (induction addrs arbitrary: el)
  case (Cons a addrs)
  then show ?case by (cases "listen_result env (el_swarm el) a") (fastforce simp: swarm_listen_on_def)+
qed simp

lemma start_listen_error:
  assumes "start_listen env addrs el = (Inl e, el')"
  shows "\<exists>before addr after err. addrs = before @ addr # after
     \<and> listen_result env (el_swarm el @ map CallListenOn before) addr = Some err \<and> e = ListenError (to_string err)
     \<and> el' = el\<lparr>el_swarm := el_swarm el @ map CallListenOn (before @ [addr])\<rparr>"
  using assms
proof (induction addrs arbitrary: el)
  case (Cons a addrs)
  show ?case
  proof (cases "listen_result env (el_swarm el) a")
    case None
    let ?el = "el\<lparr>el_swarm := el_swarm el @ [CallListenOn a]\<rparr>"
    have "start_listen env addrs ?el = (Inl e, el')" using Cons.prems None by (simp add: swarm_listen_on_def)
    from Cons.IH [OF this] obtain before addr after err where
      i: "addrs = before @ addr # after" "listen_result env (el_swarm ?el @ map CallListenOn before) addr = Some err"
      "e = ListenError (to_string err)" "el' = ?el\<lparr>el_swarm := el_swarm ?el @ map CallListenOn (before @ [addr])\<rparr>"
      by blast
    then show ?thesis by (intro exI [of _ "a # before"] exI [of _ addr] exI [of _ after] exI [of _ err]) simp
  next
    case (Some err)
    with Cons.prems show ?thesis
      by (intro exI [of _ "[]"] exI [of _ a] exI [of _ addrs] exI [of _ err]) (simp add: swarm_listen_on_def)
  qed
qed simp

definition bootstrap_calls where
  "bootstrap_calls peers = concat (map (\<lambda>(p, a). [CallKadAddAddress p a, CallAddPeerAddress p a, CallDial p]) peers)"

lemma connect_bootstrap_peer_simps [simp]:
  "el_swarm (connect_bootstrap_peer env (p, a) el) =
     el_swarm el @ [CallKadAddAddress p a, CallAddPeerAddress p a, CallDial p]"
  "el_enable_relay_client (connect_bootstrap_peer env (p, a) el) = el_enable_relay_client el"
  "el_protocol_version (connect_bootstrap_peer env (p, a) el) = el_protocol_version el"
  "el_pending_channels (connect_bootstrap_peer env (p, a) el) = el_pending_channels el"
  "el_lan_helper (connect_bootstrap_peer env (p, a) el) = el_lan_helper el"
  "el_limits (connect_bootstrap_peer env (p, a) el) = el_limits el"
  "el_bootstrap_peers (connect_bootstrap_peer env (p, a) el) =
     (if el_enable_relay_client el then entry_extend p [a] (el_bootstrap_peers el) else el_bootstrap_peers el)"
  by (simp_all add: connect_bootstrap_peer_def swarm_kad_add_address_def swarm_add_peer_address_def
      swarm_dial_def Let_def)

lemma connect_bootstrap_eq:
  "el_swarm (connect_bootstrap_peers env peers el) = el_swarm el @ bootstrap_calls peers"
  "el_enable_relay_client (connect_bootstrap_peers env peers el) = el_enable_relay_client el"
  "el_protocol_version (connect_bootstrap_peers env peers el) = el_protocol_version el"
  "el_pending_channels (connect_bootstrap_peers env peers el) = el_pending_channels el"
  "el_lan_helper (connect_bootstrap_peers env peers el) = el_lan_helper el"
  "el_limits (connect_bootstrap_peers env peers el) = el_limits el"
  unfolding connect_bootstrap_peers_def
  by (induction peers arbitrary: el)
     (auto simp: bootstrap_calls_def)

lemma connect_bootstrap_remembers:
  "el_bootstrap_peers (connect_bootstrap_peers env peers el) p =
     (if el_enable_relay_client el \<and> p \<in> fst ` set peers
      then Some ((case el_bootstrap_peers el p of None \<Rightarrow> [] | Some as \<Rightarrow> as) @ map snd (filter (\<lambda>x. fst x = p) peers))
      else el_bootstrap_peers el p)"
proof (induction peers arbitrary: el)
  case (Cons x peers)
  obtain q a where x: "x = (q, a)" by (cases x)
  have "connect_bootstrap_peers env (x # peers) el = connect_bootstrap_peers env peers (connect_bootstrap_peer env x el)"
    by (simp add: connect_bootstrap_peers_def)
  with Cons.IH [of "connect_bootstrap_peer env x el"] show ?case
    by (auto simp: x entry_extend_def filter_empty_conv image_iff split: option.splits)
qed (simp add: connect_bootstrap_peers_def)

section \<open>Properties\<close>

text \<open>
  Starting a node. If it starts, every listen address was bound in order, then every bootstrap peer
  was put into the routing table and the address book and dialled, in order, and nothing else was
  done; the addresses of each bootstrap peer are remembered for relay reservations exactly if the relay
  client is on; pending channels live as long as a request may take. If a listen address fails, its
  error is returned, with no bootstrap peer contacted.
\<close>

theorem start_listens_then_bootstraps:
  assumes "node_start env None mdns_ok valid_protocol accept c cfg = Some res"
  shows "case res of
      Inr s \<Rightarrow>
        el_swarm (started_loop s) = map CallListenOn (listen_addrs cfg) @ bootstrap_calls (bootstrap_peers cfg)
      \<and> (\<forall>p. el_bootstrap_peers (started_loop s) p =
            (if enable_relay_client cfg \<and> p \<in> fst ` set (bootstrap_peers cfg)
             then Some (map snd (filter (\<lambda>x. fst x = p) (bootstrap_peers cfg))) else None))
      \<and> ttl (el_pending_channels (started_loop s)) = req_resp_timeout cfg
      \<and> el_protocol_version (started_loop s) = cb_identify_protocol_version (started_behaviour s)
    | Inl (e, sw) \<Rightarrow>
        \<exists>before addr after err. listen_addrs cfg = before @ addr # after
          \<and> listen_result env (map CallListenOn before) addr = Some err \<and> e = ListenError (to_string err)
          \<and> sw = map CallListenOn (before @ [addr])"
proof -
  let ?el0 = "event_loop_new [] (pm_new (req_resp_timeout cfg)) (protocol_version cfg) (data_channel_limits cfg)
     \<lparr>registry = registry_inner_default, id_counter = c\<rparr> (enable_relay_client cfg) (infrastructure_mode cfg)
     :: ('a, 'b, 'c) event_loop"
  obtain b where b: "core_behaviour_new mdns_ok valid_protocol cfg = Some b"
    using assms by (auto simp: node_start_def split: option.splits)
  obtain r el1 where l: "start_listen env (listen_addrs cfg) ?el0 = (r, el1)" by fastforce
  show ?thesis
  proof (cases r)
    case (Inl e)
    have sw: "el_swarm ?el0 = []" by (simp add: event_loop_new_def)
    obtain before addr after err where w: "listen_addrs cfg = before @ addr # after"
      "listen_result env (map CallListenOn before) addr = Some err" "e = ListenError (to_string err)"
      "el_swarm el1 = map CallListenOn (before @ [addr])"
      using start_listen_error [OF l [unfolded Inl]] unfolding sw by auto
    have "res = Inl (e, el_swarm el1)" using assms b l Inl by (simp add: node_start_def Let_def)
    with w show ?thesis
      by (simp only: sum.case prod.case)
         (intro exI [of _ before] exI [of _ addr] exI [of _ after] exI [of _ err], simp)
  next
    case (Inr u)
    have "cb_identify_protocol_version b = protocol_version cfg"
      using b by (auto simp: core_behaviour_new_def Let_def split: if_splits)
    with start_listen_ok [OF l [unfolded Inr]] assms b l Inr show ?thesis
      by (auto simp: node_start_def Let_def event_loop_new_def connect_bootstrap_eq connect_bootstrap_remembers
          bootstrap_calls_def split: if_splits)
  qed
qed

definition sample_config :: node_config where
  "sample_config = config_build ''/app/1'' ''app''
     [WithListenAddrs [[Ip4 1, Tcp 1]], WithBootstrapPeers [(PeerId 9, [Ip4 7]), (PeerId 9, [Ip4 8])]]"

theorem start_listens_then_bootstraps_witness:
  "\<exists>s. node_start str_env None True (\<lambda>p. True) (\<lambda>done q. q \<notin> set done) 0 sample_config = Some (Inr s)
     \<and> el_swarm (started_loop s) = CallListenOn [Ip4 1, Tcp 1] # bootstrap_calls [(PeerId 9, [Ip4 7]), (PeerId 9, [Ip4 8])]
     \<and> el_bootstrap_peers (started_loop s) (PeerId 9) = Some [[Ip4 7], [Ip4 8]]"
proof -
  have c: "listen_addrs sample_config = [[Ip4 1, Tcp 1]]"
    "bootstrap_peers sample_config = [(PeerId 9, [Ip4 7]), (PeerId 9, [Ip4 8])]" "enable_relay_client sample_config"
    by (simp_all add: sample_config_def config_build_def node_config_new_def node_config_default_def)
  obtain s where s: "node_start str_env None True (\<lambda>p. True) (\<lambda>done q. q \<notin> set done) 0 sample_config = Some (Inr s)"
    by (auto simp: node_start_def core_behaviour_new_def c swarm_listen_on_def Let_def)
  from start_listens_then_bootstraps [OF s] s c show ?thesis by auto
qed

end
