(* ===== verification/Running_Node.thy ===== *)
theory Running_Node
  imports Node
begin

text \<open>
  The running node as one system: the calls of the client (\<^verbatim>\<open>core/src/client/\<close>), the bounded command channel,
  the event loop, the bounded event channel and the data channels, as \<open>start\<close> (\<^verbatim>\<open>core/src/runtime/node.rs\<close>)
  connects them. What runs concurrently is a step of its own: a poll of a command future is two steps,
  the submission and the look at the handle; an iteration of the loop is two steps, clearing out
  cancelled commands and handling what \<open>select!\<close> delivers.
\<close>

section \<open>State\<close>

text \<open>
  A call of a client method. Its number in the list of calls is the address of its handle. \<open>call_seen\<close> says
  how many wake-ups of its handle had happened when it was last polled; before the first poll it is
  \<open>None\<close>. \<open>call_result\<close> is what the command future has returned. A call is dropped by its caller or, with its
  result, when it returns. \<open>call_timed_out\<close>: it was a request with a timeout of its own, the timer elapsed first
  and dropped the future.
\<close>

record ('req, 'resp, 'stats) call =
  call_command :: "('req, 'resp, 'stats) handler"
  call_future :: "('req, 'resp, 'stats) handler command_future"
  call_polling :: bool
  call_seen :: "nat option"
  call_result :: "'resp cmd_output res option"
  call_dropped :: bool
  call_timed_out :: bool

definition call_new :: "('req, 'resp, 'stats) handler \<Rightarrow> ('req, 'resp, 'stats) call" where
  "call_new cmd =
     \<lparr>call_command = cmd, call_future = command_future_new cmd, call_polling = False, call_seen = None,
      call_result = None, call_dropped = False, call_timed_out = False\<rparr>"

text \<open>What the method of the client has returned to its caller: the result, or the timeout of a request.\<close>

definition call_outcome :: "('req, 'resp, 'stats) call \<Rightarrow> 'resp cmd_output res option" where
  "call_outcome c = (if call_timed_out c then Some (Inl (NetworkError TimeoutKind)) else call_result c)"

text \<open>
  \<open>nd_selecting\<close>: the loop waits in \<open>select!\<close>. \<open>nd_received\<close> counts the events the application has taken;
  \<open>nd_inbound\<close> is the queue of inbound data channels, \<open>nd_channels\<close> what the application holds. The last two
  fields record which calls were submitted and which commands were run, in order.
\<close>

record ('req, 'resp, 'stats) node =
  nd_loop :: "('req, 'resp, 'stats) event_loop"
  nd_running :: bool
  nd_selecting :: bool
  nd_queue :: "('req, 'resp, 'stats) command_task list"
  nd_calls :: "('req, 'resp, 'stats) call list"
  nd_clients :: nat
  nd_client :: net_client
  nd_received :: nat
  nd_receiver :: bool
  nd_opens :: "open_state list"
  nd_channels :: "data_channel list"
  nd_inbound :: "data_channel list"
  nd_channel_receiver :: bool
  nd_submitted :: "nat list"
  nd_executed :: "nat list"

definition node_init :: "('req, 'resp, 'stats) started \<Rightarrow> ('req, 'resp, 'stats) node" where
  "node_init s =
     \<lparr>nd_loop = started_loop s, nd_running = True, nd_selecting = False, nd_queue = [], nd_calls = [],
      nd_clients = 1, nd_client = started_client s, nd_received = 0, nd_receiver = True, nd_opens = [],
      nd_channels = [], nd_inbound = [], nd_channel_receiver = True, nd_submitted = [], nd_executed = []\<rparr>"

abbreviation nd_handles where
  "nd_handles nd \<equiv> el_handles (nd_loop nd)"

definition set_handle where
  "set_handle a h nd = nd\<lparr>nd_loop := (nd_loop nd)\<lparr>el_handles := (el_handles (nd_loop nd))(a := h)\<rparr>\<rparr>"

definition set_call where
  "set_call a c nd = nd\<lparr>nd_calls := (nd_calls nd)[a := c]\<rparr>"

section \<open>The bounded channels\<close>

definition slot_of :: "usize \<Rightarrow> nat \<Rightarrow> try_send_outcome" where
  "slot_of capacity used = (if used < unat capacity then SendOk else SendFull)"

definition command_slot :: "('req, 'resp, 'stats) node \<Rightarrow> try_send_outcome" where
  "command_slot nd =
     (if nd_running nd then slot_of COMMAND_CHANNEL_SIZE (length (nd_queue nd)) else SendClosed)"

text \<open>
  The events that have been sent and not received. The loop sends an event after everything else in an
  iteration; if the channel has no room, that send is under way and the loop does not go on until the
  application takes an event or drops its receiver. So one event more than the capacity means that the
  loop waits for the application.
\<close>

definition events_waiting :: "('req, 'resp, 'stats) node \<Rightarrow> nat" where
  "events_waiting nd = length (el_events (nd_loop nd)) - nd_received nd"

definition event_slot :: "('req, 'resp, 'stats) node \<Rightarrow> try_send_outcome" where
  "event_slot nd = (if nd_receiver nd then slot_of EVENT_CHANNEL_SIZE (events_waiting nd) else SendClosed)"

definition loop_stalled :: "('req, 'resp, 'stats) node \<Rightarrow> bool" where
  "loop_stalled nd \<longleftrightarrow> nd_receiver nd \<and> unat EVENT_CHANNEL_SIZE < events_waiting nd"

definition turn_now :: "instant \<Rightarrow> ('req, 'resp, 'stats) node \<Rightarrow> turn" where
  "turn_now n nd = \<lparr>now = n, status_slot = event_slot nd, receiver_alive = nd_receiver nd\<rparr>"

definition channel_slot :: "('req, 'resp, 'stats) node \<Rightarrow> try_send_outcome" where
  "channel_slot nd =
     (if nd_channel_receiver nd then slot_of DC_INBOUND_CHANNEL_SIZE (length (nd_inbound nd)) else SendClosed)"

section \<open>Steps\<close>

datatype ('req, 'resp, 'stats) node_action =
    NewCall "('req, 'resp) client_call"
  | NewResponse u64 'resp
  | PollSubmit nat
  | PollHandle nat waker
  | DropCall nat
  | TimeoutCall nat
  | CloneClient
  | DropClient
  | LoopRetain
  | LoopCommand instant
  | LoopEvent instant "('req, 'resp, 'stats) swarm_event"
  | LoopStream instant stream_protocol peer_id stream
  | LoopClosed
  | ReceiveEvent
  | DropReceiver
  | PurgeTick instant
  | NewOpen peer_id stream_protocol
  | PollOpen nat open_outcome
  | DropOpen nat
  | ReceiveChannel
  | DropChannelReceiver
  | DropChannel nat

text \<open>A call that has neither returned nor been dropped; it keeps a sender of the command channel alive.\<close>

definition live :: "('req, 'resp, 'stats) node \<Rightarrow> nat \<Rightarrow> bool" where
  "live nd a \<longleftrightarrow> a < length (nd_calls nd) \<and> \<not> call_dropped (nd_calls nd ! a)"

text \<open>Returning a result from an await drops the future.\<close>

definition call_return ::
  "nat \<Rightarrow> 'resp cmd_output res \<Rightarrow> ('req, 'resp, 'stats) node \<Rightarrow> ('req, 'resp, 'stats) node" where
  "call_return a r nd =
     set_handle a (cf_drop (nd_handles nd a))
       (set_call a ((nd_calls nd ! a)\<lparr>call_polling := False, call_result := Some r, call_dropped := True\<rparr>) nd)"

definition poll_submit :: "nat \<Rightarrow> ('req, 'resp, 'stats) node \<Rightarrow> ('req, 'resp, 'stats) node" where
  "poll_submit a nd =
     (let c = nd_calls nd ! a
      in case cf_submit (command_slot nd) (call_future c) of
           (Some e, sent, fut) \<Rightarrow> call_return a (Inl e) (set_call a (c\<lparr>call_future := fut\<rparr>) nd)
         | (None, sent, fut) \<Rightarrow>
             let nd1 = set_call a (c\<lparr>call_future := fut, call_polling := True,
                                    call_seen := Some (length (woken (nd_handles nd a)))\<rparr>) nd
             in case sent of
                  None \<Rightarrow> nd1
                | Some cmd \<Rightarrow>
                    nd1\<lparr>nd_queue := nd_queue nd @ [\<lparr>task_handler = cmd, task_handle = a\<rparr>],
                        nd_submitted := nd_submitted nd @ [a]\<rparr>)"

definition poll_handle :: "nat \<Rightarrow> waker \<Rightarrow> ('req, 'resp, 'stats) node \<Rightarrow> ('req, 'resp, 'stats) node" where
  "poll_handle a w nd =
     (case handle_poll w (nd_handles nd a) of
        (Ready r, h) \<Rightarrow> call_return a r (set_handle a h nd)
      | (Pending, h) \<Rightarrow>
          set_handle a h (set_call a ((nd_calls nd ! a)\<lparr>call_polling := False\<rparr>) nd))"

text \<open>
  The future is dropped by the caller, or by the timeout around it when its timer has elapsed. Only
  \<open>send_request_with_options\<close> has such a timer; it looks at it after a poll of the future that stayed pending. A
  \<open>SendRequest\<close> call stands for that method with any options: without a timeout the action \<open>TimeoutCall\<close> does not
  occur.
\<close>

definition drop_call :: "bool \<Rightarrow> nat \<Rightarrow> ('req, 'resp, 'stats) node \<Rightarrow> ('req, 'resp, 'stats) node" where
  "drop_call elapsed a nd =
     set_handle a (cf_drop (nd_handles nd a))
       (set_call a ((nd_calls nd ! a)\<lparr>call_dropped := True, call_timed_out := elapsed\<rparr>) nd)"

definition is_request :: "('req, 'resp, 'stats) handler \<Rightarrow> bool" where
  "is_request cmd \<longleftrightarrow> (case cmd of HSendRequest c \<Rightarrow> True | _ \<Rightarrow> False)"

text \<open>What the two halves of a poll do, case by case.\<close>

lemma poll_handle_ready:
  "handle_result (nd_handles nd a) = Some r \<Longrightarrow>
   poll_handle a w nd =
     set_handle a (cf_drop ((nd_handles nd a)\<lparr>state := (state (nd_handles nd a))\<lparr>result := None\<rparr>\<rparr>))
       (set_call a ((nd_calls nd ! a)\<lparr>call_polling := False, call_result := Some r, call_dropped := True\<rparr>) nd)"
  by (simp add: poll_handle_def handle_poll_def call_return_def set_handle_def set_call_def)

lemma poll_handle_pending:
  "handle_result (nd_handles nd a) = None \<Longrightarrow>
   poll_handle a w nd =
     set_handle a ((nd_handles nd a)\<lparr>state := (state (nd_handles nd a))\<lparr>waker := Some w\<rparr>\<rparr>)
       (set_call a ((nd_calls nd ! a)\<lparr>call_polling := False\<rparr>) nd)"
  by (simp add: poll_handle_def handle_poll_def)

lemma poll_submit_again:
  "cf_handler (call_future (nd_calls nd ! a)) = None \<Longrightarrow>
   poll_submit a nd =
     set_call a ((nd_calls nd ! a)\<lparr>call_polling := True, call_seen := Some (length (woken (nd_handles nd a)))\<rparr>) nd"
  by (simp add: poll_submit_def cf_submit_def Let_def)

text \<open>A look at the handle and then the timeout are, together, the poll of the method in Client.\<close>

lemma timeout_is_a_poll:
  assumes "opt_timeout options = Some d" and "handle_result (nd_handles nd a) = None" and "cf_handler fut = None"
  shows "send_request_poll options True w out fut (nd_handles nd a) =
    (Ready (Inl (NetworkError TimeoutKind)), None, fut, nd_handles (drop_call True a (poll_handle a w nd)) a)"
  using assms by (simp add: send_request_poll_def cf_poll_def cf_submit_def drop_call_def poll_handle_pending
      handle_poll_None set_handle_def set_call_def)

text \<open>A poll is rejected, submits the command, or finds it submitted before.\<close>

lemma poll_submit_cases [consumes 1]:
  fixes nd :: "('req, 'resp, 'stats) node"
  defines "c \<equiv> \<lambda>a. nd_calls nd ! a"
  assumes "a < length (nd_calls nd)"
  obtains
    (rejected) cmd where "cf_handler (call_future (c a)) = Some cmd" "command_slot nd \<noteq> SendOk"
      "cf_submit (command_slot nd) (call_future (c a)) =
         (Some (BehaviourError ''command channel closed''), None, \<lparr>cf_handler = None\<rparr>)"
      "poll_submit a nd = set_handle a (cf_drop (nd_handles nd a))
         (set_call a ((c a)\<lparr>call_future := \<lparr>cf_handler = None\<rparr>, call_polling := False,
            call_result := Some (Inl (BehaviourError ''command channel closed'')), call_dropped := True\<rparr>) nd)"
  | (submitted) cmd where "cf_handler (call_future (c a)) = Some cmd" "command_slot nd = SendOk"
      "cf_submit (command_slot nd) (call_future (c a)) = (None, Some cmd, \<lparr>cf_handler = None\<rparr>)"
      "poll_submit a nd =
         (set_call a ((c a)\<lparr>call_future := \<lparr>cf_handler = None\<rparr>, call_polling := True,
            call_seen := Some (length (woken (nd_handles nd a)))\<rparr>) nd)
           \<lparr>nd_queue := nd_queue nd @ [\<lparr>task_handler = cmd, task_handle = a\<rparr>], nd_submitted := nd_submitted nd @ [a]\<rparr>"
  | (again) "cf_handler (call_future (c a)) = None"
      "cf_submit (command_slot nd) (call_future (c a)) = (None, None, call_future (c a))"
      "poll_submit a nd =
         set_call a ((c a)\<lparr>call_polling := True, call_seen := Some (length (woken (nd_handles nd a)))\<rparr>) nd"
proof (cases "cf_handler (call_future (nd_calls nd ! a))")
  case None
  then show ?thesis using again by (simp add: c_def poll_submit_again cf_submit_def)
next
  case (Some cmd)
  have f: "(call_future (nd_calls nd ! a))\<lparr>cf_handler := None\<rparr> = \<lparr>cf_handler = None\<rparr>"
    by (cases "call_future (nd_calls nd ! a)") simp
  show ?thesis
  proof (cases "command_slot nd = SendOk")
    case True
    with Some show ?thesis
      using submitted [of cmd] by (simp add: c_def poll_submit_def cf_submit_def is_err_def Let_def f)
  next
    case False
    with Some show ?thesis
      using rejected [of cmd] assms(2)
      by (simp add: c_def poll_submit_def cf_submit_def is_err_def Let_def call_return_def set_call_def f)
  qed
qed

text \<open>One iteration of the loop after clearing out; \<open>None\<close> if that branch is not ready.\<close>

definition loop_can_select :: "('req, 'resp, 'stats) node \<Rightarrow> bool" where
  "loop_can_select nd \<longleftrightarrow> nd_running nd \<and> nd_selecting nd \<and> \<not> loop_stalled nd"

definition loop_handles ::
  "('req, 'resp, 'stats) net_env \<Rightarrow> instant \<Rightarrow> ('req, 'resp, 'stats) loop_input \<Rightarrow> ('req, 'resp, 'stats) node \<Rightarrow>
   ('req, 'resp, 'stats) node" where
  "loop_handles env n inp nd =
     (case loop_select env (turn_now n nd) inp (nd_loop nd) of
        Some el \<Rightarrow> nd\<lparr>nd_loop := el, nd_selecting := False\<rparr>
      | None \<Rightarrow> nd\<lparr>nd_running := False, nd_selecting := False\<rparr>)"

definition set_dc where
  "set_dc w nd = nd\<lparr>nd_loop := (nd_loop nd)\<lparr>el_dc := w\<rparr>\<rparr>"

definition drop_channel :: "data_channel \<Rightarrow> dc_world \<Rightarrow> dc_world" where
  "drop_channel c w = w\<lparr>registry := data_channel_drop c (registry w)\<rparr>"

text \<open>
  The two receivers of the application: the next item if there is one, otherwise they wait for the loop, which owns the
  sender, and return nothing once it has ended.
\<close>

definition event_recv ::
  "('req, 'resp, 'stats) node \<Rightarrow> 'req node_event option poll \<times> ('req, 'resp, 'stats) node" where
  "event_recv nd =
     (if nd_received nd < length (el_events (nd_loop nd))
      then (Ready (Some (el_events (nd_loop nd) ! nd_received nd)), nd\<lparr>nd_received := Suc (nd_received nd)\<rparr>)
      else (if nd_running nd then Pending else Ready None, nd))"

definition data_channel_recv ::
  "('req, 'resp, 'stats) node \<Rightarrow> data_channel option poll \<times> ('req, 'resp, 'stats) node" where
  "data_channel_recv nd =
     (case nd_inbound nd of
        [] \<Rightarrow> (if nd_running nd then Pending else Ready None, nd)
      | c # cs \<Rightarrow> (Ready (Some c), nd\<lparr>nd_inbound := cs\<rparr>))"

lemma event_recv_some [simp]:
  "(case event_recv nd of (Ready (Some e), nd') \<Rightarrow> Some nd' | _ \<Rightarrow> None) =
     (if 0 < events_waiting nd then Some (nd\<lparr>nd_received := Suc (nd_received nd)\<rparr>) else None)"
  by (auto simp: event_recv_def events_waiting_def)

lemma data_channel_recv_some [simp]:
  "(case data_channel_recv nd of (Ready (Some c), nd') \<Rightarrow> Some (nd'\<lparr>nd_channels := nd_channels nd' @ [c]\<rparr>) | _ \<Rightarrow> None) =
     (case nd_inbound nd of [] \<Rightarrow> None | c # cs \<Rightarrow> Some (nd\<lparr>nd_inbound := cs, nd_channels := nd_channels nd @ [c]\<rparr>))"
  by (simp add: data_channel_recv_def split: list.split)

text \<open>Each of them says that it is over exactly when the loop has ended and everything has been taken.\<close>

lemma recv_over:
  "fst (event_recv nd) = Ready None \<longleftrightarrow> \<not> nd_running nd \<and> events_waiting nd = 0"
  "fst (data_channel_recv nd) = Ready None \<longleftrightarrow> \<not> nd_running nd \<and> nd_inbound nd = []"
  by (auto simp: event_recv_def data_channel_recv_def events_waiting_def split: list.split)

text \<open>\<open>None\<close>: the action is not possible in this state.\<close>

fun node_act ::
  "('req, 'resp, 'stats) net_env \<Rightarrow> ('req, 'resp, 'stats) node_action \<Rightarrow> ('req, 'resp, 'stats) node \<Rightarrow>
   ('req, 'resp, 'stats) node option" where
  "node_act env (NewCall m) nd =
     (if 0 < nd_clients nd then Some (nd\<lparr>nd_calls := nd_calls nd @ [call_new (client_command m)]\<rparr>) else None)"
| "node_act env (NewResponse i resp) nd =
     (if 0 < nd_clients nd then
        (case send_response_start i resp (el_pending_channels (nd_loop nd)) of
           (r, m) \<Rightarrow>
             Some (nd\<lparr>nd_loop := (nd_loop nd)\<lparr>el_pending_channels := m\<rparr>,
                      nd_calls := nd_calls nd @
                        (case r of Inl e \<Rightarrow> []
                         | Inr fut \<Rightarrow> (case cf_handler fut of Some cmd \<Rightarrow> [call_new cmd] | None \<Rightarrow> []))\<rparr>))
      else None)"
| "node_act env (PollSubmit a) nd =
     (if live nd a \<and> \<not> call_polling (nd_calls nd ! a) then Some (poll_submit a nd) else None)"
| "node_act env (PollHandle a w) nd =
     (if live nd a \<and> call_polling (nd_calls nd ! a) then Some (poll_handle a w nd) else None)"
| "node_act env (DropCall a) nd =
     (if live nd a \<and> \<not> call_polling (nd_calls nd ! a) then Some (drop_call False a nd) else None)"
| "node_act env (TimeoutCall a) nd =
     (if live nd a \<and> \<not> call_polling (nd_calls nd ! a) \<and> call_seen (nd_calls nd ! a) \<noteq> None
         \<and> is_request (call_command (nd_calls nd ! a))
      then Some (drop_call True a nd) else None)"
| "node_act env CloneClient nd =
     (if 0 < nd_clients nd then Some (nd\<lparr>nd_clients := Suc (nd_clients nd)\<rparr>) else None)"
| "node_act env DropClient nd =
     (if 0 < nd_clients nd then Some (nd\<lparr>nd_clients := nd_clients nd - 1\<rparr>) else None)"
| "node_act env LoopRetain nd =
     (if nd_running nd \<and> \<not> nd_selecting nd \<and> \<not> loop_stalled nd
      then Some (nd\<lparr>nd_loop := retain_active (nd_loop nd), nd_selecting := True\<rparr>) else None)"
| "node_act env (LoopCommand n) nd =
     (case nd_queue nd of
        [] \<Rightarrow> None
      | cmd # rest \<Rightarrow>
          if loop_can_select nd
          then Some (loop_handles env n (CommandReceived cmd)
                 (nd\<lparr>nd_queue := rest, nd_executed := nd_executed nd @ [task_handle cmd]\<rparr>))
          else None)"
| "node_act env (LoopEvent n e) nd =
     (if loop_can_select nd then Some (loop_handles env n (SwarmEvent e) nd) else None)"
| "node_act env (LoopStream n q p s) nd =
     (if loop_can_select nd then
        let nd1 = loop_handles env n (InboundStream q p s (channel_slot nd)) nd
        in Some (nd1\<lparr>nd_inbound := nd_inbound nd @
             drop (length (el_inbound (nd_loop nd))) (el_inbound (nd_loop nd1))\<rparr>)
      else None)"
| "node_act env LoopClosed nd =
     (if loop_can_select nd \<and> nd_queue nd = [] \<and> nd_clients nd = 0 \<and> (\<forall>a < length (nd_calls nd). \<not> live nd a)
      then Some (loop_handles env 0 CommandsClosed nd) else None)"
| "node_act env ReceiveEvent nd =
     (if nd_receiver nd then (case event_recv nd of (Ready (Some e), nd') \<Rightarrow> Some nd' | _ \<Rightarrow> None) else None)"
| "node_act env DropReceiver nd = (if nd_receiver nd then Some (nd\<lparr>nd_receiver := False\<rparr>) else None)"
| "node_act env (PurgeTick n) nd =
     Some (nd\<lparr>nd_loop := (nd_loop nd)\<lparr>el_pending_channels :=
             snd (pm_purge_expired n (el_pending_channels (nd_loop nd)))\<rparr>\<rparr>)"
| "node_act env (NewOpen p q) nd =
     (if 0 < nd_clients nd
      then Some (nd\<lparr>nd_opens := nd_opens nd @ [open_data_channel (nd_client nd) p q]\<rparr>)
      else None)"
| "node_act env (PollOpen i out) nd =
     (if i < length (nd_opens nd) then
        (case open_future_poll (client_limits (nd_client nd)) out (nd_opens nd ! i) (el_dc (nd_loop nd)) of
           (None, st, w) \<Rightarrow> None
         | (Some r, st, w) \<Rightarrow>
             Some ((set_dc w nd)\<lparr>nd_opens := (nd_opens nd)[i := st],
                     nd_channels := nd_channels nd @ (case r of Ready (Inr c) \<Rightarrow> [c] | _ \<Rightarrow> [])\<rparr>))
      else None)"
| "node_act env (DropOpen i) nd =
     (if i < length (nd_opens nd)
      then Some ((set_dc (open_future_drop (nd_opens nd ! i) (el_dc (nd_loop nd))) nd)
                   \<lparr>nd_opens := remove_at i (nd_opens nd)\<rparr>)
      else None)"
| "node_act env ReceiveChannel nd =
     (if nd_channel_receiver nd then
        (case data_channel_recv nd of
           (Ready (Some c), nd') \<Rightarrow> Some (nd'\<lparr>nd_channels := nd_channels nd' @ [c]\<rparr>)
         | _ \<Rightarrow> None)
      else None)"
| "node_act env DropChannelReceiver nd =
     (if nd_channel_receiver nd
      then Some ((set_dc (fold drop_channel (nd_inbound nd) (el_dc (nd_loop nd))) nd)
                   \<lparr>nd_inbound := [], nd_channel_receiver := False\<rparr>)
      else None)"
| "node_act env (DropChannel i) nd =
     (if i < length (nd_channels nd)
      then Some ((set_dc (drop_channel (nd_channels nd ! i) (el_dc (nd_loop nd))) nd)
                   \<lparr>nd_channels := remove_at i (nd_channels nd)\<rparr>)
      else None)"

fun node_acts where
  "node_acts env [] nd = Some nd"
| "node_acts env (a # as) nd = (case node_act env a nd of None \<Rightarrow> None | Some nd' \<Rightarrow> node_acts env as nd')"

text \<open>The states of a node that was started with some configuration.\<close>

inductive node_reach :: "('req, 'resp, 'stats) net_env \<Rightarrow> ('req, 'resp, 'stats) node \<Rightarrow> bool" for env where
  node_started: "node_start env None mdns_ok valid_protocol accept c cfg = Some (Inr s) \<Longrightarrow> node_reach env (node_init s)"
| node_step: "node_reach env nd \<Longrightarrow> node_act env act nd = Some nd' \<Longrightarrow> node_reach env nd'"

lemma node_reach_acts: "node_reach env nd \<Longrightarrow> node_acts env as nd = Some nd' \<Longrightarrow> node_reach env nd'"
  by (induction as arbitrary: nd) (auto intro: node_step split: option.splits)

text \<open>The same with the actions that led there, in order.\<close>

inductive node_trace ::
  "('req, 'resp, 'stats) net_env \<Rightarrow> ('req, 'resp, 'stats) node_action list \<Rightarrow> ('req, 'resp, 'stats) node \<Rightarrow> bool" for env where
  trace_started: "node_start env None mdns_ok valid_protocol accept c cfg = Some (Inr s) \<Longrightarrow> node_trace env [] (node_init s)"
| trace_step: "node_trace env as nd \<Longrightarrow> node_act env act nd = Some nd' \<Longrightarrow> node_trace env (as @ [act]) nd'"

lemma node_trace_reach: "node_trace env as nd \<Longrightarrow> node_reach env nd"
  by (induction rule: node_trace.induct) (auto intro: node_started node_step)

lemma node_reach_trace: "node_reach env nd \<Longrightarrow> \<exists>as. node_trace env as nd"
  by (induction rule: node_reach.induct) (auto intro: trace_started trace_step)

text \<open>
  The contract of a property of runs: it holds when a node has started and every step keeps it, given a fact \<open>J\<close>
  already known of all reachable states. An invariant is one that does not look at the actions.
\<close>

locale node_history =
  fixes env :: "('req, 'resp, 'stats) net_env"
    and J :: "('req, 'resp, 'stats) node \<Rightarrow> bool"
    and I :: "('req, 'resp, 'stats) node_action list \<Rightarrow> ('req, 'resp, 'stats) node \<Rightarrow> bool"
  assumes known: "node_reach env nd \<Longrightarrow> J nd"
    and initial: "node_start env None mdns_ok valid_protocol accept c cfg = Some (Inr s) \<Longrightarrow> I [] (node_init s)"
    and step: "J nd \<Longrightarrow> I as nd \<Longrightarrow> node_act env act nd = Some nd' \<Longrightarrow> I (as @ [act]) nd'"
begin

lemma holds: "node_trace env as nd \<Longrightarrow> I as nd"
proof (induction rule: node_trace.induct)
  case (trace_started mdns_ok valid_protocol accept c cfg s)
  then show ?case by (rule initial)
next
  case (trace_step as nd act nd')
  show ?case by (rule step [OF known [OF node_trace_reach [OF trace_step.hyps(1)]] trace_step.IH trace_step.hyps(2)])
qed

end

locale node_invariant =
  fixes env :: "('req, 'resp, 'stats) net_env"
    and J I :: "('req, 'resp, 'stats) node \<Rightarrow> bool"
  assumes known: "node_reach env nd \<Longrightarrow> J nd"
    and initial: "node_start env None mdns_ok valid_protocol accept c cfg = Some (Inr s) \<Longrightarrow> I (node_init s)"
    and step: "J nd \<Longrightarrow> I nd \<Longrightarrow> node_act env act nd = Some nd' \<Longrightarrow> I nd'"

sublocale node_invariant \<subseteq> history: node_history env J "\<lambda>_. I"
  by unfold_locales (fact known initial step)+

context node_invariant begin

lemma holds: "node_reach env nd \<Longrightarrow> I nd"
  using node_reach_trace history.holds by blast

end

end
