(* ===== verification/Command_Effects.thy ===== *)
theory Command_Effects
  imports Loop_Properties
begin

text \<open>
  What running a command, and offering an event to the active commands, can do to the result handles:
  handles are only ever completed, those of other commands are left alone, no command retires
  before its handle holds a result, and handling an event changes commands and handles by the chain only.
\<close>

section \<open>Completing a handle\<close>

definition finished_from :: "'a result_handle \<Rightarrow> 'a result_handle \<Rightarrow> bool" where
  "finished_from h h' \<longleftrightarrow> (\<exists>rs. h' = fold handle_finish rs h)"

lemma finished_from_refl [simp]: "finished_from h h"
  unfolding finished_from_def by (rule exI [of _ "[]"]) simp

lemma finished_from_finish [simp]: "finished_from h (handle_finish r h)"
  unfolding finished_from_def by (rule exI [of _ "[r]"]) simp

lemma finished_from_trans: "finished_from h h' \<Longrightarrow> finished_from h' h'' \<Longrightarrow> finished_from h h''"
  unfolding finished_from_def by (metis comp_apply fold_append)

lemma finished_from_result:
  "finished_from h h' \<Longrightarrow> handle_result h \<noteq> None \<Longrightarrow> handle_result h' \<noteq> None"
proof -
  have "handle_result h \<noteq> None \<Longrightarrow> handle_result (fold handle_finish rs h) \<noteq> None" for rs
    by (induction rs arbitrary: h) simp_all
  then show "finished_from h h' \<Longrightarrow> handle_result h \<noteq> None \<Longrightarrow> handle_result h' \<noteq> None"
    by (auto simp: finished_from_def)
qed

lemma finished_from_cancelled:
  "finished_from h h' \<Longrightarrow> cancelled (state h') = cancelled (state h)"
proof -
  have "cancelled (state (fold handle_finish rs h)) = cancelled (state h)" for rs
    by (induction rs arbitrary: h) simp_all
  then show "finished_from h h' \<Longrightarrow> cancelled (state h') = cancelled (state h)"
    by (auto simp: finished_from_def)
qed

section \<open>One command\<close>

lemma handler_run_finishes:
  assumes "handler_run env c sw h = (c', sw', h')"
  shows "finished_from h h'"
  using assms
  by (cases c)
     (auto simp: dial_run_def disconnect_run_def is_connected_run_def get_listen_addrs_run_def
       add_peer_addrs_run_def add_infrastructure_peer_run_def send_request_run_def send_response_run_def
       bootstrap_run_def get_closest_peers_run_def get_providers_run_def get_record_run_def put_record_run_def
       remove_record_run_def start_provide_run_def stop_provide_run_def apfst_def map_prod_def Let_def swarm_call_defs
       split: option.splits if_splits sum.splits bool.splits)

lemma handler_on_event_finishes:
  assumes "handler_on_event env c e h = (r, c', h')"
  shows "finished_from h h'"
  using assms
  by (cases c)
     (auto simp: dial_on_event_def disconnect_on_event_def send_request_on_event_def kad_on_event_own
       default_on_event_def
       split: sum.splits option.splits if_splits swarm_event.splits core_behaviour_event.splits req_resp_event.splits
         message.splits)

text \<open>The commands without an event handler of their own, which finish when they run.\<close>

fun immediate :: "('req, 'resp, 'stats) handler \<Rightarrow> bool" where
  "immediate (HIsConnected _) = True"
| "immediate HGetListenAddrs = True"
| "immediate (HAddPeerAddrs _) = True"
| "immediate (HAddInfrastructurePeer _) = True"
| "immediate (HSendResponse _) = True"
| "immediate (HRemoveRecord _) = True"
| "immediate (HStopProvide _) = True"
| "immediate _ = False"

lemma handler_run_immediate:
  assumes "handler_run env c sw h = (c', sw', h')"
  shows "immediate c' = immediate c" and "immediate c \<Longrightarrow> handle_result h' \<noteq> None"
  using assms
  by (cases c;
      auto simp: is_connected_run_def get_listen_addrs_run_def
       add_peer_addrs_run_def add_infrastructure_peer_run_def send_response_run_def
       remove_record_run_def stop_provide_run_def apfst_def map_prod_def Let_def swarm_call_defs
       split: option.splits if_splits prod.splits)+

lemma handler_on_event_retires:
  assumes "handler_on_event env c e h = ((keep, ret), c', h')"
  shows "immediate c' = immediate c" and "\<not> keep \<Longrightarrow> \<not> immediate c \<Longrightarrow> handle_result h' \<noteq> None"
  using assms
  by (cases c;
      auto simp: dial_on_event_def disconnect_on_event_def send_request_on_event_def kad_on_event_own
       default_on_event_def apfst_def apsnd_def map_prod_def
       split: sum.splits option.splits if_splits swarm_event.splits core_behaviour_event.splits req_resp_event.splits
         message.splits)+

lemma handler_take_relay_immediate [simp]:
  "immediate (snd (handler_take_relay c)) = immediate c"
  by (cases c) (simp_all add: add_infrastructure_peer_take_relay_def)

section \<open>The chain\<close>

text \<open>
  Immediate commands among those whose caller still waits have their result in the handle. \<open>L\<close> are the
  handles of the callers that wait.
\<close>

definition attended :: "nat set \<Rightarrow> ('req, 'resp, 'stats) command_task list \<Rightarrow> 'resp handle_store \<Rightarrow> bool" where
  "attended L cmds st \<longleftrightarrow>
     (\<forall>t \<in> set cmds. task_handle t \<in> L \<longrightarrow> immediate (task_handler t) \<longrightarrow> handle_result (st (task_handle t)) \<noteq> None)"

definition answered :: "nat set \<Rightarrow> nat set \<Rightarrow> 'resp handle_store \<Rightarrow> bool" where
  "answered L S st \<longleftrightarrow> (\<forall>a \<in> S \<inter> L. handle_result (st a) \<noteq> None)"

lemma task_after_immediate [simp]: "immediate (task_handler (task_after env e st t)) = immediate (task_handler t)"
proof -
  obtain keep ret c h where e: "handler_on_event env (task_handler t) e (st (task_handle t)) = ((keep, ret), c, h)"
    by (metis surj_pair)
  with handler_on_event_retires(1) [OF e] show ?thesis by (simp add: task_after_def task_on_event_def)
qed

lemma task_retires_answered:
  assumes "\<not> task_keeps env e st t" and "\<not> immediate (task_handler t)"
  shows "handle_result (handle_after env e st t) \<noteq> None"
proof -
  obtain keep ret c h where e: "handler_on_event env (task_handler t) e (st (task_handle t)) = ((keep, ret), c, h)"
    by (metis surj_pair)
  with handler_on_event_retires(2) [OF e] assms show ?thesis by (simp add: task_answer_defs task_on_event_def)
qed

lemma handle_after_finished: "finished_from (st (task_handle t)) (handle_after env e st t)"
proof -
  obtain r c h where e: "handler_on_event env (task_handler t) e (st (task_handle t)) = (r, c, h)"
    by (metis prod_cases3)
  with handler_on_event_finishes [OF e] show ?thesis by (simp add: handle_after_def)
qed

lemma store_update_finished:
  "finished_from (st a) ((st(task_handle t := handle_after env e st t)) a)"
  by (simp add: handle_after_finished)

lemma task_attended:
  assumes "attended L cmds st" and "t \<in> set cmds" and "task_handle t \<in> L"
    and "immediate (task_handler t) \<or> \<not> task_keeps env e st t"
  shows "handle_result (handle_after env e st t) \<noteq> None"
proof (cases "immediate (task_handler t)")
  case True
  with assms have "handle_result (st (task_handle t)) \<noteq> None" by (simp add: attended_def)
  then show ?thesis by (rule finished_from_result [OF handle_after_finished])
next
  case False
  with assms(4) show ?thesis by (simp add: task_retires_answered)
qed

text \<open>Asking one command: its handle is completed or left alone, and whoever retires has an answer.\<close>

lemma visit_attended:
  assumes "attended L cmds st" and "answered L (H - task_handle ` set cmds) st"
    and m: "mset cmds = add_mset t A"
    and m1: "mset cmds1 = A + (if task_keeps env e st t then {#task_after env e st t#} else {#})"
  shows "attended L cmds1 (st(task_handle t := handle_after env e st t))"
    and "answered L (H - task_handle ` set cmds1) (st(task_handle t := handle_after env e st t))"
proof -
  let ?st = "st(task_handle t := handle_after env e st t)"
  have s: "set cmds = insert t (set_mset A)" using arg_cong [OF m, of set_mset] by simp
  have s1: "set cmds1 = set_mset A \<union> (if task_keeps env e st t then {task_after env e st t} else {})"
    using arg_cong [OF m1, of set_mset] by simp
  have keep: "handle_result (?st a) \<noteq> None" if "handle_result (st a) \<noteq> None" for a
    by (rule finished_from_result [OF store_update_finished]) (rule that)
  have own: "handle_result (?st (task_handle t)) \<noteq> None"
    if "task_handle t \<in> L" "immediate (task_handler t) \<or> \<not> task_keeps env e st t"
    using task_attended [OF assms(1) _ that] s by simp
  show "attended L cmds1 ?st"
    unfolding attended_def
  proof (intro ballI impI)
    fix u assume u: "u \<in> set cmds1" "task_handle u \<in> L" "immediate (task_handler u)"
    then have "u \<in> set cmds \<or> u = task_after env e st t" using s s1 by (auto split: if_splits)
    then show "handle_result (?st (task_handle u)) \<noteq> None"
    proof
      assume "u \<in> set cmds"
      with assms(1) u keep show ?thesis by (simp add: attended_def)
    next
      assume "u = task_after env e st t"
      with own u show ?thesis by simp
    qed
  qed
  show "answered L (H - task_handle ` set cmds1) ?st"
    unfolding answered_def
  proof
    fix a assume a: "a \<in> (H - task_handle ` set cmds1) \<inter> L"
    show "handle_result (?st a) \<noteq> None"
    proof (cases "a \<in> task_handle ` set cmds")
      case True
      then have "a = task_handle t \<and> \<not> task_keeps env e st t" using a s s1 by (auto split: if_splits)
      with own a show ?thesis by auto
    next
      case False
      with assms(2) a keep show ?thesis by (simp add: answered_def)
    qed
  qed
qed

text \<open>What one command leaves, as far as the handles of the commands go.\<close>

lemma visit_handles:
  assumes "mset cmds = add_mset t A"
    and "mset cmds1 = A + (if task_keeps env e st t then {#task_after env e st t#} else {#})"
  shows "mset (map task_handle cmds1) \<subseteq># mset (map task_handle cmds)" and "t \<in> set cmds"
proof -
  show "mset (map task_handle cmds1) \<subseteq># mset (map task_handle cmds)" unfolding mset_map assms by simp
  show "t \<in> set cmds" using arg_cong [OF assms(1), of set_mset] by auto
qed

lemma chain_subset:
  assumes "command_chain env i cmds r st = (cmds', r', st')"
  shows "mset (map task_handle cmds') \<subseteq># mset (map task_handle cmds)"
  using assms subset_mset.order_refl
  by (rule chain_invariant) (rule subset_mset.order_trans [OF visit_handles(1)])

lemma chain_finished:
  assumes "command_chain env i cmds r st = (cmds', r', st')"
  shows "\<forall>a. finished_from (st a) (st' a)"
proof -
  have "\<forall>a. finished_from (st a) (st a)" by simp
  with assms show ?thesis
    by (rule chain_invariant) (blast intro: finished_from_trans store_update_finished)
qed

lemma chain_frame:
  assumes "command_chain env i cmds r st = (cmds', r', st')"
  shows "\<forall>a. a \<notin> task_handle ` set cmds \<longrightarrow> st' a = st a"
proof -
  let ?S = "task_handle ` set cmds"
  let ?P = "\<lambda>cmds0 st0. task_handle ` set cmds0 \<subseteq> ?S \<and> (\<forall>a. a \<notin> ?S \<longrightarrow> st0 a = st a)"
  have "?P cmds st" by simp
  with assms have "?P cmds' st'"
  proof (rule chain_invariant [where P = "\<lambda>cmds0 _ st0. ?P cmds0 st0"])
    fix e :: "('a, 'b, 'c) swarm_event" and t :: "('a, 'b, 'c) command_task" and A cmds0 cmds1 st0
    assume i: "?P cmds0 st0" and m: "mset cmds0 = add_mset t A"
      "mset cmds1 = A + (if task_keeps env e st0 t then {#task_after env e st0 t#} else {#})"
    have "set (map task_handle cmds1) \<subseteq> set (map task_handle cmds0)"
      using visit_handles(1) [OF m] by (metis set_mset_mono set_mset_mset)
    with i visit_handles(2) [OF m] show "?P cmds1 (st0(task_handle t := handle_after env e st0 t))" by auto
  qed
  then show ?thesis by blast
qed

lemma chain_answered:
  assumes "command_chain env i cmds r st = (cmds', r', st')" and "attended L cmds st"
  shows "attended L cmds' st' \<and> answered L (task_handle ` set cmds - task_handle ` set cmds') st'"
proof -
  have "attended L cmds st \<and> answered L (task_handle ` set cmds - task_handle ` set cmds) st"
    using assms(2) by (simp add: answered_def)
  with assms(1) show ?thesis by (rule chain_invariant) (blast intro: visit_attended)
qed

lemmas chain_effect = chain_subset chain_finished chain_frame chain_answered

section \<open>The event loop\<close>

lemma convert_command_frame:
  assumes "convert_to_node_event env t e el = (v, el')"
  shows "el_active_commands el' = el_active_commands el" "el_handles el' = el_handles el"
    "el_dc el' = el_dc el" "el_limits el' = el_limits el" "el_inbound el' = el_inbound el"
  using assms
  by (auto simp: convert_to_node_event_def handle_inbound_request_def next_pending_id_def case_prod_beta Let_def
      handle_identified_eq maybe_announce_lan_helper_addr_def try_send_event_def
      split: swarm_event.splits core_behaviour_event.splits relay_client_event.splits req_resp_event.splits
        message.splits sum.splits mdns_event.splits identify_event.splits kad_event.splits if_splits option.splits)

lemma convert_events:
  assumes "convert_to_node_event env t e el = (v, el')"
  shows "\<exists>new. el_events el' = el_events el @ new \<and> length new \<le> (if is_err (status_slot t) then 0 else 1)"
  using assms
  by (auto simp: convert_to_node_event_def handle_inbound_request_def next_pending_id_def case_prod_beta Let_def
      handle_identified_eq maybe_announce_lan_helper_addr_def try_send_event_def
      split: swarm_event.splits core_behaviour_event.splits relay_client_event.splits req_resp_event.splits
        message.splits sum.splits mdns_event.splits identify_event.splits kad_event.splits if_splits option.splits)

lemma send_event_frame [simp]:
  "el_active_commands (send_event b v el) = el_active_commands el" "el_handles (send_event b v el) = el_handles el"
  "el_dc (send_event b v el) = el_dc el" "el_limits (send_event b v el) = el_limits el"
  "el_inbound (send_event b v el) = el_inbound el"
  by (simp_all add: send_event_def)

lemma after_chain_commands:
  "el_active_commands (after_chain env e el) =
     fst (command_chain env 0 (el_active_commands el) (Some e) (el_handles el))"
  "el_handles (after_chain env e el) =
     snd (snd (command_chain env 0 (el_active_commands el) (Some e) (el_handles el)))"
  by (simp_all add: after_chain_def case_prod_beta)

lemma handle_swarm_event_frame:
  "el_active_commands (handle_swarm_event env t e el) = el_active_commands (after_chain env e el)"
  "el_handles (handle_swarm_event env t e el) = el_handles (after_chain env e el)"
  "el_dc (handle_swarm_event env t e el) = el_dc el" "el_limits (handle_swarm_event env t e el) = el_limits el"
  "el_inbound (handle_swarm_event env t e el) = el_inbound el"
proof -
  obtain v el1 where c: "convert_to_node_event env t e (after_chain env e el) = (v, el1)" by fastforce
  have h: "handle_swarm_event env t e el =
      (if consumable e then after_chain env e el
       else case v of None \<Rightarrow> el1 | Some evt \<Rightarrow> send_event (receiver_alive t) evt el1)"
    using handle_swarm_event_consumable [of e env t el] handle_swarm_event_passed [of e env t el] c by simp
  note f = convert_command_frame [OF c]
  show "el_active_commands (handle_swarm_event env t e el) = el_active_commands (after_chain env e el)"
    "el_handles (handle_swarm_event env t e el) = el_handles (after_chain env e el)"
    "el_dc (handle_swarm_event env t e el) = el_dc el" "el_limits (handle_swarm_event env t e el) = el_limits el"
    "el_inbound (handle_swarm_event env t e el) = el_inbound el"
    using f unfolding h by (simp_all split: option.split)
qed

lemma handle_swarm_event_events:
  "\<exists>new. el_events (handle_swarm_event env t e el) = el_events el @ new
     \<and> length new \<le> (if is_err (status_slot t) then 0 else 1) + (if receiver_alive t then 1 else 0)"
proof -
  obtain v el1 where c: "convert_to_node_event env t e (after_chain env e el) = (v, el1)" by fastforce
  have h: "handle_swarm_event env t e el =
      (if consumable e then after_chain env e el
       else case v of None \<Rightarrow> el1 | Some evt \<Rightarrow> send_event (receiver_alive t) evt el1)"
    using handle_swarm_event_consumable [of e env t el] handle_swarm_event_passed [of e env t el] c by simp
  obtain new where "el_events el1 = el_events el @ new" "length new \<le> (if is_err (status_slot t) then 0 else 1)"
    using convert_events [OF c] by auto
  then show ?thesis unfolding h
    by (intro exI [of _ "if consumable e then [] else new @ (case v of Some w \<Rightarrow> if receiver_alive t then [w] else [] | None \<Rightarrow> [])"])
       (auto split: option.split)
qed

lemma handle_command_frame:
  assumes "handler_run env (task_handler cmd) (el_swarm el) (el_handles el (task_handle cmd)) = (c', sw', h')"
  shows "el_active_commands (handle_command env cmd el) =
       el_active_commands el @ [cmd\<lparr>task_handler := snd (handler_take_relay c')\<rparr>]"
    and "el_handles (handle_command env cmd el) = (el_handles el)(task_handle cmd := h')"
  using assms
  by (auto simp: handle_command_def task_run_def task_take_relay_def Let_def case_prod_beta request_relay_reservations_eq
      split: option.split)

lemma handle_command_dc [simp]:
  "el_dc (handle_command env cmd el) = el_dc el" "el_limits (handle_command env cmd el) = el_limits el"
  "el_inbound (handle_command env cmd el) = el_inbound el"
  by (simp_all add: handle_command_def Let_def case_prod_beta request_relay_reservations_eq split: option.split)

lemma loop_inbound_frame [simp]:
  "el_active_commands (loop_inbound_channel slot q p s el) = el_active_commands el"
  "el_handles (loop_inbound_channel slot q p s el) = el_handles el"
  "el_limits (loop_inbound_channel slot q p s el) = el_limits el"
  by (simp_all add: loop_inbound_channel_def case_prod_beta)

lemma retain_active_commands:
  "el_active_commands (retain_active el) = filter (\<lambda>t. \<not> cancelled (state (el_handles el (task_handle t)))) (el_active_commands el)"
  by (simp add: retain_active_def task_is_cancelled_def handle_is_cancelled_def)

end
