(* ===== verification/Node_Invariants.thy ===== *)
theory Node_Invariants
  imports Running_Node Command_Effects
begin

text \<open>
  The invariant of the running node: every submitted command is in exactly one place, the commands run in the
  order of submission, handles are marked as cancelled exactly when their call is over, and a call whose
  caller waits is never abandoned.
\<close>

section \<open>What the steps change\<close>

lemma set_handle_simps [simp]:
  "nd_handles (set_handle a h nd) = (nd_handles nd)(a := h)"
  "el_active_commands (nd_loop (set_handle a h nd)) = el_active_commands (nd_loop nd)"
  "nd_calls (set_handle a h nd) = nd_calls nd" "nd_queue (set_handle a h nd) = nd_queue nd"
  "nd_running (set_handle a h nd) = nd_running nd" "nd_clients (set_handle a h nd) = nd_clients nd"
  "nd_submitted (set_handle a h nd) = nd_submitted nd" "nd_executed (set_handle a h nd) = nd_executed nd"
  by (simp_all add: set_handle_def)

lemma set_call_simps [simp]:
  "nd_calls (set_call a c nd) = (nd_calls nd)[a := c]" "nd_loop (set_call a c nd) = nd_loop nd"
  "nd_queue (set_call a c nd) = nd_queue nd"
  "nd_running (set_call a c nd) = nd_running nd" "nd_clients (set_call a c nd) = nd_clients nd"
  "nd_submitted (set_call a c nd) = nd_submitted nd" "nd_executed (set_call a c nd) = nd_executed nd"
  by (simp_all add: set_call_def)

lemma set_handle_id: "set_handle a (nd_handles nd a) (set_call a c nd) = set_call a c nd"
  by (simp add: set_handle_def set_call_def)

lemma set_dc_simps [simp]:
  "nd_handles (set_dc w nd) = nd_handles nd" "el_swarm (nd_loop (set_dc w nd)) = el_swarm (nd_loop nd)"
  "el_active_commands (nd_loop (set_dc w nd)) = el_active_commands (nd_loop nd)"
  "nd_calls (set_dc w nd) = nd_calls nd" "nd_queue (set_dc w nd) = nd_queue nd"
  "nd_running (set_dc w nd) = nd_running nd" "nd_clients (set_dc w nd) = nd_clients nd"
  "nd_submitted (set_dc w nd) = nd_submitted nd" "nd_executed (set_dc w nd) = nd_executed nd"
  by (simp_all add: set_dc_def)

lemma loop_handles_simps [simp]:
  "nd_calls (loop_handles env n inp nd) = nd_calls nd" "nd_queue (loop_handles env n inp nd) = nd_queue nd"
  "nd_clients (loop_handles env n inp nd) = nd_clients nd"
  "nd_submitted (loop_handles env n inp nd) = nd_submitted nd" "nd_executed (loop_handles env n inp nd) = nd_executed nd"
  by (simp_all add: loop_handles_def split: option.split)

lemma loop_handles_eq:
  "loop_handles env n (CommandReceived cmd) nd = nd\<lparr>nd_loop := handle_command env cmd (nd_loop nd), nd_selecting := False\<rparr>"
  "loop_handles env n (SwarmEvent e) nd =
     nd\<lparr>nd_loop := handle_swarm_event env (turn_now n nd) e
           ((nd_loop nd)\<lparr>el_swarm := el_swarm (nd_loop nd) @ [Polled e]\<rparr>), nd_selecting := False\<rparr>"
  "loop_handles env n (InboundStream q p s slot) nd =
     nd\<lparr>nd_loop := loop_inbound_channel slot q p s (nd_loop nd), nd_selecting := False\<rparr>"
  "loop_handles env n CommandsClosed nd = nd\<lparr>nd_running := False, nd_selecting := False\<rparr>"
  by (simp_all add: loop_handles_def loop_select_def)

section \<open>The invariant\<close>

definition waiting_calls :: "('req, 'resp, 'stats) node \<Rightarrow> nat set" where
  "waiting_calls nd = {a. live nd a}"

definition outstanding :: "('req, 'resp, 'stats) node \<Rightarrow> nat list" where
  "outstanding nd = map task_handle (nd_queue nd @ el_active_commands (nd_loop nd))"

definition call_ok :: "'resp cmd_handle \<Rightarrow> nat set \<Rightarrow> nat \<Rightarrow> ('req, 'resp, 'stats) call \<Rightarrow> bool" where
  "call_ok h sub a c \<longleftrightarrow>
     cancelled (state h) = call_dropped c
   \<and> (a \<in> sub \<longrightarrow> cf_handler (call_future c) = None)
   \<and> (cf_handler (call_future c) = None \<longrightarrow> \<not> call_dropped c \<longrightarrow> a \<in> sub)
   \<and> (call_polling c \<longrightarrow> \<not> call_dropped c \<and> cf_handler (call_future c) = None)"

text \<open>Commands are run in the order of their submission.\<close>

definition in_order :: "('req, 'resp, 'stats) node \<Rightarrow> bool" where
  "in_order nd \<longleftrightarrow> nd_submitted nd = nd_executed nd @ map task_handle (nd_queue nd)"

lemma in_order_cong:
  "nd_submitted nd' = nd_submitted nd \<Longrightarrow> nd_executed nd' = nd_executed nd \<Longrightarrow> nd_queue nd' = nd_queue nd \<Longrightarrow>
   in_order nd' = in_order nd"
  by (simp add: in_order_def)

definition node_inv :: "('req, 'resp, 'stats) node \<Rightarrow> bool" where
  "node_inv nd \<longleftrightarrow>
     length (nd_queue nd) \<le> unat COMMAND_CHANNEL_SIZE
   \<and> distinct (outstanding nd)
   \<and> in_order nd
   \<and> distinct (nd_submitted nd)
   \<and> set (outstanding nd) \<subseteq> set (nd_submitted nd)
   \<and> set (nd_submitted nd) \<subseteq> {..< length (nd_calls nd)}
   \<and> (\<forall>a < length (nd_calls nd). call_ok (nd_handles nd a) (set (nd_submitted nd)) a (nd_calls nd ! a))
   \<and> (\<forall>a \<ge> length (nd_calls nd). nd_handles nd a = handle_new)
   \<and> (\<not> nd_running nd \<longrightarrow> nd_queue nd = [] \<and> nd_clients nd = 0 \<and> waiting_calls nd = {})
   \<and> attended (waiting_calls nd) (el_active_commands (nd_loop nd)) (nd_handles nd)
   \<and> answered (waiting_calls nd) (set (nd_submitted nd) - set (outstanding nd)) (nd_handles nd)"

lemma inv_call_ok:
  "node_inv nd \<Longrightarrow> a < length (nd_calls nd) \<Longrightarrow> call_ok (nd_handles nd a) (set (nd_submitted nd)) a (nd_calls nd ! a)"
  unfolding node_inv_def by blast

lemma active_handles_lt:
  assumes "node_inv nd" and "t \<in> set (el_active_commands (nd_loop nd))"
  shows "task_handle t < length (nd_calls nd)"
proof -
  have "task_handle t \<in> set (outstanding nd)" using assms(2) by (auto simp: outstanding_def)
  with assms(1) show ?thesis unfolding node_inv_def by blast
qed

text \<open>The part of the state the invariant is about.\<close>

definition same_commands :: "('req, 'resp, 'stats) node \<Rightarrow> ('req, 'resp, 'stats) node \<Rightarrow> bool" where
  "same_commands nd nd' \<longleftrightarrow>
     nd_queue nd' = nd_queue nd \<and> nd_calls nd' = nd_calls nd \<and> nd_submitted nd' = nd_submitted nd
   \<and> nd_executed nd' = nd_executed nd \<and> nd_handles nd' = nd_handles nd
   \<and> el_active_commands (nd_loop nd') = el_active_commands (nd_loop nd) \<and> nd_running nd' = nd_running nd"

lemma node_inv_same:
  assumes "same_commands nd nd'" and "nd_clients nd' = nd_clients nd \<or> nd_running nd" and "node_inv nd"
  shows "node_inv nd'"
proof -
  have "in_order nd' = in_order nd" using assms(1) by (intro in_order_cong) (simp_all add: same_commands_def)
  with assms show ?thesis by (auto simp: same_commands_def node_inv_def outstanding_def waiting_calls_def live_def)
qed

lemma fold_drop_same: "same_commands nd (set_dc w nd)"
  by (simp add: same_commands_def)

lemma attended_mono: "attended L cmds st \<Longrightarrow> L' \<subseteq> L \<Longrightarrow> attended L' cmds st"
  by (auto simp: attended_def)

lemma answered_mono: "answered L S st \<Longrightarrow> L' \<subseteq> L \<Longrightarrow> S' \<subseteq> S \<Longrightarrow> answered L' S' st"
  by (auto simp: answered_def)

lemma waiting_update:
  assumes "a < length (nd_calls nd)" and "nd_calls nd' = (nd_calls nd)[a := c]"
  shows "waiting_calls nd' = (if call_dropped c then waiting_calls nd - {a} else insert a (waiting_calls nd))"
  using assms by (auto simp: waiting_calls_def live_def nth_list_update)

lemma waiting_append:
  assumes "nd_calls nd' = nd_calls nd @ [call_new cmd]"
  shows "waiting_calls nd' = insert (length (nd_calls nd)) (waiting_calls nd)"
  using assms by (auto simp: waiting_calls_def live_def nth_append call_new_def less_Suc_eq)

section \<open>Its preservation\<close>

lemma inv_new_call:
  assumes "node_inv nd" and "same_commands (nd\<lparr>nd_calls := nd_calls nd @ [call_new cmd]\<rparr>) nd'" and "nd_running nd"
  shows "node_inv nd'"
proof -
  let ?n = "length (nd_calls nd)"
  have w: "waiting_calls nd' = insert ?n (waiting_calls nd)"
    using assms(2) by (intro waiting_append) (simp add: same_commands_def)
  have n: "?n \<notin> set (nd_submitted nd)" "?n \<notin> set (outstanding nd)" using assms(1) by (auto simp: node_inv_def)
  have h: "nd_handles nd ?n = handle_new" using assms(1) by (simp add: node_inv_def)
  have "call_ok handle_new (set (nd_submitted nd)) ?n (call_new cmd)"
    using n by (simp add: call_ok_def call_new_def command_future_new_def)
  moreover have "attended (insert ?n (waiting_calls nd)) (el_active_commands (nd_loop nd)) (nd_handles nd)"
    using assms(1) n by (auto simp: node_inv_def attended_def outstanding_def)
  moreover have "answered (insert ?n (waiting_calls nd)) (set (nd_submitted nd) - set (outstanding nd)) (nd_handles nd)"
    using assms(1) n by (auto simp: node_inv_def answered_def)
  moreover have "set (nd_submitted nd) \<subseteq> {..< Suc ?n}" using assms(1) by (auto simp: node_inv_def)
  moreover have "in_order nd' = in_order nd" using assms(2) by (intro in_order_cong) (simp_all add: same_commands_def)
  ultimately show ?thesis
    using assms h unfolding node_inv_def w
    by (auto simp: same_commands_def outstanding_def nth_append less_Suc_eq)
qed

text \<open>A call that is over, by returning or by being dropped.\<close>

lemma inv_end_call:
  assumes "node_inv nd" and "live nd a" and "call_dropped c" and "\<not> call_polling c"
    and "cf_handler (call_future c) = None \<or> call_future c = call_future (nd_calls nd ! a)"
    and "cancelled (state h)"
    and "nd_running nd"
  shows "node_inv (set_handle a h (set_call a c nd))"
proof -
  let ?nd = "set_handle a h (set_call a c nd)"
  have a: "a < length (nd_calls nd)" using assms(2) by (simp add: live_def)
  have w: "waiting_calls ?nd = waiting_calls nd - {a}" using waiting_update [OF a, of ?nd c] assms(3) by simp
  have ok: "call_ok (nd_handles nd a) (set (nd_submitted nd)) a (nd_calls nd ! a)" using assms(1) a(1) by (rule inv_call_ok)
  have c: "call_ok h (set (nd_submitted nd)) a c"
    using ok assms(3-6) by (auto simp: call_ok_def)
  have o: "outstanding ?nd = outstanding nd" by (simp add: outstanding_def)
  have "attended (waiting_calls nd - {a}) (el_active_commands (nd_loop nd)) ((nd_handles nd)(a := h))"
    "answered (waiting_calls nd - {a}) (set (nd_submitted nd) - set (outstanding nd)) ((nd_handles nd)(a := h))"
    using assms(1) by (auto simp: node_inv_def attended_def answered_def)
  moreover have "in_order ?nd = in_order nd" by (rule in_order_cong) simp_all
  ultimately show ?thesis
    using c a assms(1,7) unfolding node_inv_def w o by (auto simp: nth_list_update)
qed

lemma inv_update_call:
  assumes "node_inv nd" and "live nd a" and "\<not> call_dropped c"
    and "call_future c = call_future (nd_calls nd ! a)" and "call_polling c \<longrightarrow> cf_handler (call_future c) = None"
    and "cancelled (state h) = cancelled (state (nd_handles nd a))" and "handle_result h = handle_result (nd_handles nd a)"
  shows "node_inv (set_handle a h (set_call a c nd))"
proof -
  let ?nd = "set_handle a h (set_call a c nd)"
  have a: "a < length (nd_calls nd)" "\<not> call_dropped (nd_calls nd ! a)" using assms(2) by (simp_all add: live_def)
  have w: "waiting_calls ?nd = waiting_calls nd"
    using waiting_update [OF a(1), of ?nd c] assms(2,3) by (auto simp: waiting_calls_def)
  have ok: "call_ok (nd_handles nd a) (set (nd_submitted nd)) a (nd_calls nd ! a)" using assms(1) a(1) by (rule inv_call_ok)
  have c: "call_ok h (set (nd_submitted nd)) a c"
    using ok assms(3-6) a(2) by (auto simp: call_ok_def)
  have o: "outstanding ?nd = outstanding nd" by (simp add: outstanding_def)
  have "attended (waiting_calls nd) (el_active_commands (nd_loop nd)) ((nd_handles nd)(a := h))"
    "answered (waiting_calls nd) (set (nd_submitted nd) - set (outstanding nd)) ((nd_handles nd)(a := h))"
    using assms(1,7) by (auto simp: node_inv_def attended_def answered_def)
  moreover have "in_order ?nd = in_order nd" by (rule in_order_cong) simp_all
  ultimately show ?thesis
    using c a assms(1) unfolding node_inv_def w o by (auto simp: nth_list_update)
qed

lemma inv_submit:
  assumes "node_inv nd" and "live nd a" and "cf_handler (call_future (nd_calls nd ! a)) = Some cmd"
    and "length (nd_queue nd) < unat COMMAND_CHANNEL_SIZE" and "nd_running nd"
    and "\<not> call_dropped c" and "cf_handler (call_future c) = None"
  shows "node_inv ((set_call a c nd)\<lparr>nd_queue := nd_queue nd @ [\<lparr>task_handler = cmd, task_handle = a\<rparr>],
                                    nd_submitted := nd_submitted nd @ [a]\<rparr>)"
    (is "node_inv ?nd")
proof -
  have a: "a < length (nd_calls nd)" "\<not> call_dropped (nd_calls nd ! a)" using assms(2) by (simp_all add: live_def)
  have w: "waiting_calls ?nd = waiting_calls nd"
    using waiting_update [OF a(1), of ?nd c] assms(2,6) by (auto simp: waiting_calls_def)
  have ok: "call_ok (nd_handles nd a) (set (nd_submitted nd)) a (nd_calls nd ! a)" using assms(1) a(1) by (rule inv_call_ok)
  then have n: "a \<notin> set (nd_submitted nd)" using assms(3) by (auto simp: call_ok_def)
  then have no: "a \<notin> set (outstanding nd)" using assms(1) by (auto simp: node_inv_def)
  have c: "call_ok (nd_handles nd a) (insert a (set (nd_submitted nd))) a c"
    using ok assms(6,7) a(2) by (auto simp: call_ok_def)
  have others: "call_ok (nd_handles nd b) (insert a (set (nd_submitted nd))) b (nd_calls nd ! b)"
    if "b < length (nd_calls nd)" "b \<noteq> a" for b
    using assms(1) that by (auto simp: node_inv_def call_ok_def)
  have d: "distinct (outstanding ?nd)" and s: "set (outstanding ?nd) = insert a (set (outstanding nd))"
    using assms(1) no by (auto simp: node_inv_def outstanding_def)
  have "answered (waiting_calls nd) (insert a (set (nd_submitted nd)) - insert a (set (outstanding nd))) (nd_handles nd)"
    using assms(1) by (auto simp: node_inv_def answered_def)
  moreover have "in_order ?nd" using assms(1) by (simp add: node_inv_def in_order_def)
  ultimately show ?thesis
    using c others n a assms(1,4,5) d unfolding node_inv_def w s by (auto simp: nth_list_update)
qed

lemma waiting_not_cancelled:
  assumes "node_inv nd" and "a \<in> waiting_calls nd"
  shows "\<not> cancelled (state (nd_handles nd a))"
proof -
  have "a < length (nd_calls nd)" "\<not> call_dropped (nd_calls nd ! a)" using assms(2) by (simp_all add: waiting_calls_def live_def)
  with inv_call_ok [OF assms(1)] show ?thesis by (simp add: call_ok_def)
qed

lemma inv_retain:
  assumes "node_inv nd"
  shows "node_inv (nd\<lparr>nd_loop := retain_active (nd_loop nd), nd_selecting := True\<rparr>)" (is "node_inv ?nd")
proof -
  let ?cmds = "el_active_commands (nd_loop nd)"
  let ?kept = "filter (\<lambda>t. \<not> cancelled (state (nd_handles nd (task_handle t)))) ?cmds"
  have w: "waiting_calls ?nd = waiting_calls nd" by (simp add: waiting_calls_def live_def)
  have k: "el_active_commands (nd_loop ?nd) = ?kept" by (simp add: retain_active_commands)
  have o: "outstanding ?nd = map task_handle (nd_queue nd) @ map task_handle ?kept"
    by (simp add: outstanding_def retain_active_commands)
  have sub: "set (outstanding ?nd) \<subseteq> set (outstanding nd)" unfolding o by (auto simp: outstanding_def)
  have d: "distinct (outstanding ?nd)"
    using assms unfolding o by (auto simp: node_inv_def outstanding_def distinct_map_filter)
  have "attended (waiting_calls nd) ?kept (nd_handles nd)"
    using assms by (auto simp: node_inv_def attended_def)
  moreover have "answered (waiting_calls nd) (set (nd_submitted nd) - set (outstanding ?nd)) (nd_handles nd)"
    unfolding answered_def
  proof
    fix a assume a: "a \<in> (set (nd_submitted nd) - set (outstanding ?nd)) \<inter> waiting_calls nd"
    then have "a \<notin> set (outstanding nd)"
      using waiting_not_cancelled [OF assms, of a] unfolding o by (auto simp: outstanding_def)
    with a assms show "handle_result (nd_handles nd a) \<noteq> None" by (auto simp: node_inv_def answered_def)
  qed
  moreover have "in_order ?nd = in_order nd" by (rule in_order_cong) simp_all
  ultimately show ?thesis
    using assms d sub k unfolding node_inv_def w by auto
qed

lemma call_ok_finished: "finished_from h h' \<Longrightarrow> call_ok h' S a c = call_ok h S a c"
  by (simp add: call_ok_def finished_from_cancelled)

lemma distinct_submset:
  assumes "mset xs \<subseteq># mset ys" and "distinct ys"
  shows "distinct xs"
proof -
  obtain zs where "mset ys = mset (xs @ zs)"
    using assms(1) by (metis ex_mset mset_append mset_subset_eq_exists_conv)
  then have "distinct (xs @ zs)" using assms(2) mset_eq_imp_distinct_iff by blast
  then show ?thesis by simp
qed

text \<open>Who has left the outstanding commands is answered, before the step or by it.\<close>

lemma answered_step:
  assumes "answered L (S - O1) st" and "answered L (O1 - O2) st'" and "\<forall>a. finished_from (st a) (st' a)"
  shows "answered L (S - O2) st'"
  unfolding answered_def
proof
  fix a assume a: "a \<in> (S - O2) \<inter> L"
  show "handle_result (st' a) \<noteq> None"
  proof (cases "a \<in> O1")
    case True
    with a assms(2) show ?thesis by (simp add: answered_def)
  next
    case False
    with a assms(1) have "handle_result (st a) \<noteq> None" by (simp add: answered_def)
    with assms(3) show ?thesis using finished_from_result by blast
  qed
qed

text \<open>The command that has just been run joins the active ones.\<close>

lemma attended_run:
  assumes "attended L cmds st" and "task_handle t \<notin> task_handle ` set cmds"
    and "immediate (task_handler t) \<Longrightarrow> handle_result h \<noteq> None"
  shows "attended L (cmds @ [t]) (st(task_handle t := h))"
  unfolding attended_def
proof (intro ballI impI)
  fix u assume u: "u \<in> set (cmds @ [t])" "task_handle u \<in> L" "immediate (task_handler u)"
  then consider "u = t" | "u \<in> set cmds" by auto
  then show "handle_result ((st(task_handle t := h)) (task_handle u)) \<noteq> None"
  proof cases
    case 2
    then have "task_handle u \<noteq> task_handle t" using assms(2) by (metis imageI)
    with 2 u assms(1) show ?thesis by (simp add: attended_def)
  qed (use assms(3) u in simp)
qed

lemma inv_event:
  assumes "node_inv nd" and "nd_running nd"
  shows "node_inv (loop_handles env n (SwarmEvent e) nd)" (is "node_inv ?nd")
proof -
  let ?cmds = "el_active_commands (nd_loop nd)"
  let ?el = "(nd_loop nd)\<lparr>el_swarm := el_swarm (nd_loop nd) @ [Polled e]\<rparr>"
  obtain cmds' r st' where c: "command_chain env 0 ?cmds (Some e) (nd_handles nd) = (cmds', r, st')"
    by (metis prod_cases3)
  have k: "el_active_commands (nd_loop ?nd) = cmds'" "nd_handles ?nd = st'"
    using c by (simp_all add: loop_handles_eq handle_swarm_event_frame after_chain_commands)
  have w: "waiting_calls ?nd = waiting_calls nd" by (simp add: waiting_calls_def live_def)
  have o: "outstanding ?nd = map task_handle (nd_queue nd) @ map task_handle cmds'" by (simp add: outstanding_def k)
  note eff = chain_effect [OF c]
  have sub: "set (map task_handle cmds') \<subseteq> set (map task_handle ?cmds)"
    using eff(1) by (metis set_mset_mono set_mset_mset)
  have dm: "distinct (map task_handle cmds')"
    using assms(1) by (intro distinct_submset [OF eff(1)]) (simp add: node_inv_def outstanding_def)
  have d: "distinct (outstanding ?nd)" and os: "set (outstanding ?nd) \<subseteq> set (outstanding nd)"
    using dm sub assms(1) unfolding o by (auto simp: node_inv_def outstanding_def)
  have att: "attended (waiting_calls nd) cmds' st'"
    and ans: "answered (waiting_calls nd) (task_handle ` set ?cmds - task_handle ` set cmds') st'"
    using eff(4) [of "waiting_calls nd"] assms(1) by (auto simp: node_inv_def)
  have "answered (waiting_calls nd) (set (nd_submitted nd) - set (outstanding ?nd)) st'"
  proof (rule answered_step [OF _ _ eff(2)])
    show "answered (waiting_calls nd) (set (nd_submitted nd) - set (outstanding nd)) (nd_handles nd)"
      using assms(1) by (simp add: node_inv_def)
    show "answered (waiting_calls nd) (set (outstanding nd) - set (outstanding ?nd)) st'"
      using ans unfolding o by (auto simp: outstanding_def answered_def)
  qed
  moreover have "call_ok (st' a) (set (nd_submitted nd)) a (nd_calls nd ! a)" if "a < length (nd_calls nd)" for a
    using inv_call_ok [OF assms(1) that] call_ok_finished eff(2) by blast
  moreover have "st' a = handle_new" if "length (nd_calls nd) \<le> a" for a
  proof -
    have "a \<notin> task_handle ` set ?cmds" using active_handles_lt [OF assms(1)] that by fastforce
    with eff(3) that assms(1) show ?thesis by (simp add: node_inv_def)
  qed
  moreover have "in_order ?nd = in_order nd" by (rule in_order_cong) simp_all
  moreover have "nd_running ?nd" using assms(2) by (simp add: loop_handles_eq)
  ultimately show ?thesis
    using assms(1) d os att unfolding node_inv_def w k by auto
qed

lemma inv_command:
  assumes "node_inv nd" and "nd_running nd" and "nd_queue nd = cmd # rest"
  shows "node_inv (loop_handles env n (CommandReceived cmd)
           (nd\<lparr>nd_queue := rest, nd_executed := nd_executed nd @ [task_handle cmd]\<rparr>))" (is "node_inv ?nd")
proof -
  let ?a = "task_handle cmd"
  let ?cmds = "el_active_commands (nd_loop nd)"
  obtain c' sw' h' where r: "handler_run env (task_handler cmd) (el_swarm (nd_loop nd)) (nd_handles nd ?a) = (c', sw', h')"
    by (metis prod_cases3)
  let ?t = "cmd\<lparr>task_handler := snd (handler_take_relay c')\<rparr>"
  have k: "el_active_commands (nd_loop ?nd) = ?cmds @ [?t]" "nd_handles ?nd = (nd_handles nd)(?a := h')"
    using handle_command_frame [OF r] by (simp_all add: loop_handles_eq)
  have w: "waiting_calls ?nd = waiting_calls nd" by (simp add: waiting_calls_def live_def)
  have q: "nd_queue ?nd = rest" by simp
  have o: "outstanding ?nd = map task_handle rest @ map task_handle ?cmds @ [?a]"
    by (simp add: outstanding_def k)
  have on: "outstanding nd = ?a # map task_handle rest @ map task_handle ?cmds" by (simp add: outstanding_def assms(3))
  have d: "distinct (outstanding ?nd)" and os: "set (outstanding ?nd) = set (outstanding nd)"
    using assms(1) unfolding o by (auto simp: node_inv_def on)
  have fin: "finished_from (nd_handles nd ?a) h'" using handler_run_finishes [OF r] .
  have aL: "?a < length (nd_calls nd)" using assms(1) on by (auto simp: node_inv_def)
  have ok: "call_ok (((nd_handles nd)(?a := h')) b) (set (nd_submitted nd)) b (nd_calls nd ! b)"
    if "b < length (nd_calls nd)" for b
    using inv_call_ok [OF assms(1) that] fin by (cases "b = ?a") (simp_all add: call_ok_finished)
  have "?a \<notin> task_handle ` set ?cmds" using assms(1) by (simp add: node_inv_def on)
  then have "attended (waiting_calls nd) (?cmds @ [?t]) ((nd_handles nd)(?a := h'))"
    using attended_run [of "waiting_calls nd" ?cmds "nd_handles nd" ?t h'] handler_run_immediate [OF r] assms(1)
    by (simp add: node_inv_def)
  moreover have "answered (waiting_calls nd) (set (nd_submitted nd) - set (outstanding nd)) ((nd_handles nd)(?a := h'))"
    using assms(1) by (auto simp: node_inv_def answered_def on)
  moreover have "in_order ?nd" using assms(1,3) by (simp add: node_inv_def in_order_def)
  moreover have "nd_running ?nd" using assms(2) by (simp add: loop_handles_eq)
  ultimately show ?thesis
    using assms(1,3) d ok aL unfolding node_inv_def w k os q by auto
qed

lemma poll_submit_inv:
  assumes "node_inv nd" and "live nd a" and "\<not> call_polling (nd_calls nd ! a)"
  shows "node_inv (poll_submit a nd)"
proof -
  have run: "nd_running nd" using assms(1,2) by (auto simp: node_inv_def waiting_calls_def)
  have a: "a < length (nd_calls nd)" "\<not> call_dropped (nd_calls nd ! a)" using assms(2) by (simp_all add: live_def)
  from a(1) show ?thesis
  proof (cases rule: poll_submit_cases)
    case (rejected cmd)
    show ?thesis
      unfolding rejected(4) by (rule inv_end_call [OF assms(1,2)]) (use run in \<open>simp_all add: cf_drop_def\<close>)
  next
    case (submitted cmd)
    then have l: "length (nd_queue nd) < unat COMMAND_CHANNEL_SIZE"
      by (auto simp: command_slot_def slot_of_def split: if_splits)
    show ?thesis
      unfolding submitted(4) by (rule inv_submit [OF assms(1,2) submitted(1) l run]) (use a in simp_all)
  next
    case again
    show ?thesis
      unfolding again(3)
      by (subst set_handle_id [symmetric], rule inv_update_call [OF assms(1,2)]) (use a again(1) in simp_all)
  qed
qed

lemma poll_handle_inv:
  assumes "node_inv nd" and "live nd a" and "call_polling (nd_calls nd ! a)"
  shows "node_inv (poll_handle a w nd)"
proof -
  let ?c = "nd_calls nd ! a"
  have run: "nd_running nd" using assms(1,2) by (auto simp: node_inv_def waiting_calls_def)
  have a: "a < length (nd_calls nd)" "\<not> call_dropped ?c" using assms(2) by (simp_all add: live_def)
  show ?thesis
  proof (cases "handle_result (nd_handles nd a)")
    case (Some r)
    let ?c' = "?c\<lparr>call_polling := False, call_result := Some r, call_dropped := True\<rparr>"
    let ?h = "cf_drop ((nd_handles nd a)\<lparr>state := (state (nd_handles nd a))\<lparr>result := None\<rparr>\<rparr>)"
    have "poll_handle a w nd = set_handle a ?h (set_call a ?c' nd)"
      by (rule poll_handle_ready [OF Some])
    with inv_end_call [OF assms(1,2), of ?c' ?h] run show ?thesis by (simp add: cf_drop_def)
  next
    case None
    let ?c' = "?c\<lparr>call_polling := False\<rparr>"
    let ?h = "(nd_handles nd a)\<lparr>state := (state (nd_handles nd a))\<lparr>waker := Some w\<rparr>\<rparr>"
    have "poll_handle a w nd = set_handle a ?h (set_call a ?c' nd)"
      by (rule poll_handle_pending [OF None])
    with inv_update_call [OF assms(1,2), of ?c' ?h] a show ?thesis by simp
  qed
qed

lemma drop_call_inv:
  assumes "node_inv nd" and "live nd a" and "\<not> call_polling (nd_calls nd ! a)"
  shows "node_inv (drop_call elapsed a nd)"
proof -
  have run: "nd_running nd" using assms(1,2) by (auto simp: node_inv_def waiting_calls_def)
  show ?thesis
    unfolding drop_call_def
    by (rule inv_end_call [OF assms(1,2)]) (use run assms(3) in \<open>simp_all add: cf_drop_def\<close>)
qed

text \<open>
  The actions by what they do to commands, calls and handles; most do nothing to them.
\<close>

lemma node_act_commands:
  fixes nd :: "('req, 'resp, 'stats) node"
  assumes "node_act env act nd = Some nd'"
  obtains
    (new) cmd where "same_commands (nd\<lparr>nd_calls := nd_calls nd @ [call_new cmd]\<rparr>) nd'"
      "el_swarm (nd_loop nd') = el_swarm (nd_loop nd)" "0 < nd_clients nd"
  | (submit) a where "live nd a" "\<not> call_polling (nd_calls nd ! a)" "nd' = poll_submit a nd"
  | (handle) a w where "live nd a" "call_polling (nd_calls nd ! a)" "nd' = poll_handle a w nd"
  | (drop) a elapsed where "live nd a" "\<not> call_polling (nd_calls nd ! a)" "nd' = drop_call elapsed a nd"
      "elapsed \<longrightarrow> is_request (call_command (nd_calls nd ! a))"
  | (retain) "nd' = nd\<lparr>nd_loop := retain_active (nd_loop nd), nd_selecting := True\<rparr>"
  | (command) n cmd rest where "nd_running nd" "nd_queue nd = cmd # rest"
      "nd' = loop_handles env n (CommandReceived cmd)
               (nd\<lparr>nd_queue := rest, nd_executed := nd_executed nd @ [task_handle cmd]\<rparr>)"
  | (event) n e where "act = LoopEvent n e" "nd_running nd" "nd' = loop_handles env n (SwarmEvent e) nd"
  | (closed) "waiting_calls nd = {}" "nd_queue nd = []" "nd_clients nd = 0"
      "nd' = nd\<lparr>nd_running := False, nd_selecting := False\<rparr>"
  | (other) "same_commands nd nd'" "el_swarm (nd_loop nd') = el_swarm (nd_loop nd)"
      "nd_clients nd' = nd_clients nd \<or> 0 < nd_clients nd"
proof (cases act)
  case (NewCall m)
  with assms new [of "client_command m"] show ?thesis by (auto simp: same_commands_def split: if_splits)
next
  case (NewResponse i resp)
  obtain r m where t: "send_response_start i resp (el_pending_channels (nd_loop nd)) =
      (r :: ('req, 'resp, 'stats) handler command_future res, m)" by fastforce
  have "nd' = nd\<lparr>nd_loop := (nd_loop nd)\<lparr>el_pending_channels := m\<rparr>, nd_calls := nd_calls nd @
      (case r of Inl e \<Rightarrow> [] | Inr fut \<Rightarrow> (case cf_handler fut of Some cmd \<Rightarrow> [call_new cmd] | None \<Rightarrow> []))\<rparr>"
    "0 < nd_clients nd" using assms NewResponse t by (auto split: if_splits)
  then show ?thesis
    using new other by (cases r; cases "cf_handler (projr r)") (auto simp: same_commands_def)
next
  case (PollSubmit a)
  with assms submit show ?thesis by (auto split: if_splits)
next
  case (PollHandle a w)
  with assms handle show ?thesis by (auto split: if_splits)
next
  case (DropCall a)
  with assms drop [of a False] show ?thesis by (auto split: if_splits)
next
  case (TimeoutCall a)
  with assms drop [of a True] show ?thesis by (auto split: if_splits)
next
  case LoopRetain
  with assms retain show ?thesis by (auto split: if_splits)
next
  case (LoopCommand n)
  with assms command show ?thesis by (auto simp: loop_can_select_def split: list.splits if_splits)
next
  case (LoopEvent n e)
  with assms event show ?thesis by (auto simp: loop_can_select_def split: if_splits)
next
  case (LoopStream n q p s)
  with assms show ?thesis
    by (intro other) (auto simp: same_commands_def loop_handles_eq loop_inbound_channel_def case_prod_beta Let_def split: if_splits)
next
  case LoopClosed
  with assms closed show ?thesis by (auto simp: waiting_calls_def live_def loop_handles_eq split: if_splits)
next
  case (PollOpen i out)
  with assms show ?thesis
    by (intro other) (auto simp: same_commands_def split: if_splits prod.splits option.splits)
next
  case ReceiveChannel
  with assms show ?thesis by (intro other) (auto simp: same_commands_def split: if_splits list.splits)
next
  case CloneClient
  with assms show ?thesis by (intro other) (auto simp: same_commands_def split: if_splits)
next
  case DropClient
  with assms show ?thesis by (intro other) (auto simp: same_commands_def split: if_splits)
next
  case ReceiveEvent
  with assms show ?thesis by (intro other) (auto simp: same_commands_def split: if_splits)
next
  case DropReceiver
  with assms show ?thesis by (intro other) (auto simp: same_commands_def split: if_splits)
next
  case (PurgeTick n)
  with assms show ?thesis by (intro other) (auto simp: same_commands_def split: if_splits)
next
  case (NewOpen p q)
  with assms show ?thesis by (intro other) (auto simp: same_commands_def split: if_splits)
next
  case (DropOpen i)
  with assms show ?thesis by (intro other) (auto simp: same_commands_def split: if_splits)
next
  case DropChannelReceiver
  with assms show ?thesis by (intro other) (auto simp: same_commands_def split: if_splits)
next
  case (DropChannel i)
  with assms show ?thesis by (intro other) (auto simp: same_commands_def split: if_splits)
qed

lemma node_act_inv:
  assumes "node_inv nd" and "node_act env act nd = Some nd'"
  shows "node_inv nd'"
proof -
  have run: "nd_running nd" if "0 < nd_clients nd" using assms(1) that by (auto simp: node_inv_def)
  from assms(2) show ?thesis
  proof (cases rule: node_act_commands)
    case new
    then show ?thesis using run by (intro inv_new_call [OF assms(1)]) simp_all
  next
    case submit
    then show ?thesis using assms(1) by (auto intro: poll_submit_inv)
  next
    case handle
    then show ?thesis using assms(1) by (auto intro: poll_handle_inv)
  next
    case drop
    then show ?thesis using assms(1) by (auto intro: drop_call_inv)
  next
    case retain
    then show ?thesis using assms(1) by (auto intro: inv_retain)
  next
    case command
    then show ?thesis using assms(1) by (auto intro: inv_command)
  next
    case event
    then show ?thesis using assms(1) by (auto intro: inv_event)
  next
    case closed
    then have "waiting_calls nd' = waiting_calls nd" "outstanding nd' = outstanding nd" "in_order nd' = in_order nd"
      by (simp_all add: waiting_calls_def live_def outstanding_def in_order_def)
    with closed assms(1) show ?thesis by (auto simp: node_inv_def)
  next
    case other
    then show ?thesis using run by (intro node_inv_same [OF _ _ assms(1)]) auto
  qed
qed

lemma started_loop_idle:
  assumes "node_start env None mdns_ok valid_protocol accept c cfg = Some (Inr s)"
  shows "el_active_commands (started_loop s) = []" "el_handles (started_loop s) = (\<lambda>_. handle_new)"
    "el_events (started_loop s) = []" "el_inbound (started_loop s) = []"
    "el_dc (started_loop s) = \<lparr>registry = registry_inner_default, id_counter = c\<rparr>"
    "el_limits (started_loop s) = client_limits (started_client s)"
proof -
  have l: "start_listen env as el = (r, el') \<Longrightarrow>
      el_active_commands el' = el_active_commands el \<and> el_handles el' = el_handles el \<and> el_events el' = el_events el
    \<and> el_inbound el' = el_inbound el \<and> el_dc el' = el_dc el \<and> el_limits el' = el_limits el"
    for as r and el el' :: "('a, 'b, 'c) event_loop"
    by (induction env as el rule: start_listen.induct) (auto split: prod.splits option.splits)
  have b: "el_active_commands (connect_bootstrap_peers env ps el) = el_active_commands el
    \<and> el_handles (connect_bootstrap_peers env ps el) = el_handles el
    \<and> el_events (connect_bootstrap_peers env ps el) = el_events el
    \<and> el_inbound (connect_bootstrap_peers env ps el) = el_inbound el
    \<and> el_dc (connect_bootstrap_peers env ps el) = el_dc el
    \<and> el_limits (connect_bootstrap_peers env ps el) = el_limits el" for ps and el :: "('a, 'b, 'c) event_loop"
    unfolding connect_bootstrap_peers_def
    by (induction ps arbitrary: el) (auto simp: connect_bootstrap_peer_def case_prod_beta Let_def)
  show "el_active_commands (started_loop s) = []" "el_handles (started_loop s) = (\<lambda>_. handle_new)"
    "el_events (started_loop s) = []" "el_inbound (started_loop s) = []"
    "el_dc (started_loop s) = \<lparr>registry = registry_inner_default, id_counter = c\<rparr>"
    "el_limits (started_loop s) = client_limits (started_client s)"
    using assms by (auto simp: node_start_def Let_def b event_loop_new_def dest!: l split: option.splits prod.splits sum.splits)
qed

lemma node_init_inv:
  assumes "node_start env None mdns_ok valid_protocol accept c cfg = Some (Inr s)"
  shows "node_inv (node_init s)"
  using started_loop_idle [OF assms]
  by (simp add: node_inv_def node_init_def outstanding_def in_order_def attended_def answered_def)

interpretation command_path: node_invariant env "\<lambda>_. True" node_inv for env
  by unfold_locales (auto intro: node_init_inv node_act_inv)

lemma node_reach_inv: "node_reach env nd \<Longrightarrow> node_inv nd"
  by (rule command_path.holds)

end
