(* ===== verification/Call_Refinement.thy ===== *)
theory Call_Refinement
  imports Node_Invariants
begin

text \<open>
  Every call of the running node is a run of the one-command system of Result_Handle: the state machine in which
  no wake-up is lost simulates what polls, the command channel, the event loop and other calls do to a
  call. So the properties of the future proved there hold in the node.
\<close>

section \<open>The view of one call\<close>

text \<open>
  \<open>scheduled\<close> of the abstract system is implied by facts of the node: the call has not been polled yet, or its
  handle has called a waker since the last poll began.
\<close>

definition told_to_poll :: "('req, 'resp, 'stats) node \<Rightarrow> nat \<Rightarrow> bool" where
  "told_to_poll nd a \<longleftrightarrow>
     (case call_seen (nd_calls nd ! a) of None \<Rightarrow> True | Some n \<Rightarrow> n < length (woken (nd_handles nd a)))"

definition seen_ok :: "('req, 'resp, 'stats) node \<Rightarrow> nat \<Rightarrow> bool" where
  "seen_ok nd a \<longleftrightarrow>
     (case call_seen (nd_calls nd ! a) of None \<Rightarrow> True | Some n \<Rightarrow> n \<le> length (woken (nd_handles nd a)))"

definition call_view ::
  "('req, 'resp, 'stats) node \<Rightarrow> nat \<Rightarrow> (('req, 'resp, 'stats) handler, 'resp cmd_output) csys \<Rightarrow> bool" where
  "call_view nd a s \<longleftrightarrow>
     future s = call_future (nd_calls nd ! a) \<and> handle s = nd_handles nd a
   \<and> polling s = call_polling (nd_calls nd ! a) \<and> returned s = call_result (nd_calls nd ! a)
   \<and> dropped s = call_dropped (nd_calls nd ! a) \<and> (returned s \<noteq> None \<longrightarrow> dropped s)
   \<and> (polling s \<longrightarrow> fst (cf_submit (snd (entered s)) (fst (entered s))) = None)
   \<and> seen_ok nd a
   \<and> (scheduled s \<longrightarrow> told_to_poll nd a)
   \<and> (channel s \<noteq> None \<longleftrightarrow> a \<in> task_handle ` set (nd_queue nd))
   \<and> (task s \<noteq> None \<longleftrightarrow> a \<in> task_handle ` set (el_active_commands (nd_loop nd)))"

lemma seen_frame:
  assumes "call_seen (nd_calls nd' ! a) = call_seen (nd_calls nd ! a)"
    and "woken (nd_handles nd' a) = woken (nd_handles nd a)"
  shows "told_to_poll nd' a = told_to_poll nd a" and "seen_ok nd' a = seen_ok nd a"
  using assms by (simp_all add: told_to_poll_def seen_ok_def split: option.split)

lemma woken_cf_drop [simp]: "woken (cf_drop h) = woken h"
  by (simp add: cf_drop_def)

lemma call_viewD:
  assumes "call_view nd a s"
  shows "future s = call_future (nd_calls nd ! a)" "handle s = nd_handles nd a"
    "polling s = call_polling (nd_calls nd ! a)" "returned s = call_result (nd_calls nd ! a)"
    "dropped s = call_dropped (nd_calls nd ! a)" "returned s \<noteq> None \<Longrightarrow> dropped s"
    "seen_ok nd a" "scheduled s \<Longrightarrow> told_to_poll nd a"
    "channel s \<noteq> None \<longleftrightarrow> a \<in> task_handle ` set (nd_queue nd)"
    "task s \<noteq> None \<longleftrightarrow> a \<in> task_handle ` set (el_active_commands (nd_loop nd))"
    "polling s \<Longrightarrow> fst (cf_submit (snd (entered s)) (fst (entered s))) = None"
  using assms unfolding call_view_def by blast+

lemma call_view_frame:
  assumes "call_view nd a s" and "nd_calls nd' ! a = nd_calls nd ! a" and "nd_handles nd' a = nd_handles nd a"
    and "a \<in> task_handle ` set (nd_queue nd') \<longleftrightarrow> a \<in> task_handle ` set (nd_queue nd)"
    and "a \<in> task_handle ` set (el_active_commands (nd_loop nd')) \<longleftrightarrow> a \<in> task_handle ` set (el_active_commands (nd_loop nd))"
  shows "call_view nd' a s"
proof -
  have f: "told_to_poll nd' a = told_to_poll nd a" "seen_ok nd' a = seen_ok nd a"
    by (rule seen_frame; use assms(2,3) in simp)+
  show ?thesis using assms(1) unfolding call_view_def f assms(2-) .
qed

section \<open>Simulation\<close>

definition has_view :: "('req, 'resp, 'stats) node \<Rightarrow> nat \<Rightarrow> bool" where
  "has_view nd a \<longleftrightarrow> (\<exists>s. creach (call_command (nd_calls nd ! a)) s \<and> call_view nd a s)"

lemma has_viewI:
  "creach cmd s \<Longrightarrow> call_command (nd_calls nd ! a) = cmd \<Longrightarrow> call_view nd a s \<Longrightarrow> has_view nd a"
  unfolding has_view_def by blast

lemma has_view_frame:
  assumes "has_view nd a" and "nd_calls nd' ! a = nd_calls nd ! a" and "nd_handles nd' a = nd_handles nd a"
    and "a \<in> task_handle ` set (nd_queue nd') \<longleftrightarrow> a \<in> task_handle ` set (nd_queue nd)"
    and "a \<in> task_handle ` set (el_active_commands (nd_loop nd')) \<longleftrightarrow> a \<in> task_handle ` set (el_active_commands (nd_loop nd))"
  shows "has_view nd' a"
  using assms(1) call_view_frame [OF _ assms(2-)] unfolding has_view_def assms(2) by blast

lemma has_view_new:
  assumes "nd_calls nd' ! a = call_new cmd" and "nd_handles nd' a = handle_new"
    and "a \<notin> task_handle ` set (nd_queue nd')" and "a \<notin> task_handle ` set (el_active_commands (nd_loop nd'))"
  shows "has_view nd' a"
  unfolding has_view_def call_view_def told_to_poll_def seen_ok_def
  using assms by (intro exI [of _ "csys_init cmd"]) (simp add: csys_init_def call_new_def creach_init [unfolded csys_init_def])

text \<open>A run of the abstract system that ends in a view of the new state of the call.\<close>

lemma live_view:
  assumes "has_view nd a" and "live nd a"
  obtains s where "creach (call_command (nd_calls nd ! a)) s" "call_view nd a s" "future s = call_future (nd_calls nd ! a)"
    "handle s = nd_handles nd a" "polling s = call_polling (nd_calls nd ! a)" "\<not> dropped s" "returned s = None"
proof -
  obtain s where r: "creach (call_command (nd_calls nd ! a)) s" and v: "call_view nd a s"
    using assms(1) by (auto simp: has_view_def)
  have d: "\<not> dropped s" using call_viewD(5) [OF v] assms(2) by (simp add: live_def)
  then have "returned s = None" using call_viewD(6) [OF v] by blast
  with r v d show ?thesis using that call_viewD(1-3) [OF v] by blast
qed

text \<open>The first half of a poll; the executor may always decide to poll.\<close>

lemma poll_submit_view:
  assumes "has_view nd a" and "live nd a" and "\<not> call_polling (nd_calls nd ! a)"
  shows "has_view (poll_submit a nd) a"
proof -
  let ?c = "nd_calls nd ! a"
  have a: "a < length (nd_calls nd)" using assms(2) by (simp add: live_def)
  obtain s where r: "creach (call_command ?c) s" and v: "call_view nd a s"
    and s: "future s = call_future ?c" "handle s = nd_handles nd a" "polling s = call_polling ?c" "\<not> dropped s" "returned s = None"
    using live_view [OF assms(1,2)] by metis
  let ?s = "s\<lparr>scheduled := True\<rparr>"
  have r1: "creach (call_command ?c) ?s" using r wake by (rule creach_step)
  have s1: "scheduled ?s" "\<not> polling ?s" "returned ?s = None" "\<not> dropped ?s" "future ?s = call_future ?c"
    using s assms(3) by simp_all
  from a show ?thesis
  proof (cases rule: poll_submit_cases)
    case (rejected cmd)
    let ?r = "Inl (BehaviourError ''command channel closed'')"
    let ?t = "s\<lparr>scheduled := False, entered := (call_future ?c, command_slot nd), future := \<lparr>cf_handler = None\<rparr>,
        polling := False, latest := Some (Waker 0), returned := Some ?r\<rparr>"
    let ?u = "?t\<lparr>dropped := True, handle := cf_drop (handle ?t)\<rparr>"
    have "creach (call_command ?c) ?t"
      using poll_rejected [OF s1(1-4) _ r1, of "command_slot nd"] rejected(3) s1(5) by simp
    moreover have "cstep ?t ?u" by (rule drop_future) (use s1 in simp_all)
    ultimately have u: "creach (call_command ?c) ?u" by (rule creach_step)
    have "call_view (poll_submit a nd) a ?u"
      using v s a assms(3) unfolding rejected(4) by (simp add: call_view_def seen_ok_def split: option.splits)
    then show ?thesis by (rule has_viewI [OF u, rotated]) (simp add: rejected(4) a)
  next
    case (submitted cmd)
    let ?t = "s\<lparr>scheduled := False, polling := True, entered := (call_future ?c, command_slot nd),
        future := \<lparr>cf_handler = None\<rparr>, channel := Some cmd, submitted := Suc (submitted s)\<rparr>"
    have "cstep ?s ?t" using poll_submits [OF s1(1-4), of "command_slot nd"] submitted(3) s1(5) by simp
    then have u: "creach (call_command ?c) ?t" by (rule creach_step [OF r1])
    have "call_view (poll_submit a nd) a ?t"
      using v a submitted(3) unfolding submitted(4) by (auto simp: call_view_def seen_ok_def)
    then show ?thesis by (rule has_viewI [OF u, rotated]) (simp add: submitted(4) a)
  next
    case again
    let ?t = "s\<lparr>scheduled := False, polling := True, entered := (call_future ?c, command_slot nd), future := call_future ?c\<rparr>"
    have "cstep ?s ?t" using poll_again [OF s1(1-4), of "command_slot nd"] again(2) s1(5) by simp
    then have u: "creach (call_command ?c) ?t" by (rule creach_step [OF r1])
    have "call_view (poll_submit a nd) a ?t"
      using v a again(2) unfolding again(3) by (auto simp: call_view_def seen_ok_def)
    then show ?thesis by (rule has_viewI [OF u, rotated]) (simp add: again(3) a)
  qed
qed

text \<open>The second half looks at the handle; a result ends the call.\<close>

lemma poll_handle_view:
  assumes "has_view nd a" and "live nd a" and "call_polling (nd_calls nd ! a)"
  shows "has_view (poll_handle a w nd) a"
proof -
  let ?c = "nd_calls nd ! a" and ?h = "nd_handles nd a"
  have a: "a < length (nd_calls nd)" using assms(2) by (simp add: live_def)
  obtain s where r: "creach (call_command ?c) s" and v: "call_view nd a s"
    and s: "handle s = ?h" "polling s = call_polling ?c" "\<not> dropped s" "returned s = None"
    using live_view [OF assms(1,2)] by metis
  have p: "polling s" using s(2) assms(3) by simp
  note e = call_viewD(11) [OF v p]
  show ?thesis
  proof (cases "handle_result ?h")
    case (Some res)
    let ?h' = "?h\<lparr>state := (state ?h)\<lparr>result := None\<rparr>\<rparr>"
    let ?t = "s\<lparr>polling := False, handle := ?h', latest := Some w, returned := Some res\<rparr>"
    let ?u = "?t\<lparr>dropped := True, handle := cf_drop (handle ?t)\<rparr>"
    note ph = poll_handle_ready [OF Some, of w]
    have "cstep s ?t" by (rule poll_ready [OF p surjective_pairing e]) (simp add: s handle_poll_Some [OF Some])
    moreover have "cstep ?t ?u" by (rule drop_future) (use s in simp_all)
    ultimately have u: "creach (call_command ?c) ?u" by (intro creach_step [OF creach_step [OF r]])
    have "call_view (poll_handle a w nd) a ?u"
      using v a unfolding ph by (simp add: call_view_def seen_ok_def told_to_poll_def split: option.splits)
    then show ?thesis by (rule has_viewI [OF u, rotated]) (simp add: ph a)
  next
    case None
    let ?t = "s\<lparr>polling := False, handle := ?h\<lparr>state := (state ?h)\<lparr>waker := Some w\<rparr>\<rparr>, latest := Some w, returned := None\<rparr>"
    note ph = poll_handle_pending [OF None, of w]
    have "cstep s ?t" by (rule poll_pending [OF p surjective_pairing e]) (simp add: s handle_poll_None [OF None])
    then have u: "creach (call_command ?c) ?t" by (rule creach_step [OF r])
    have "call_view (poll_handle a w nd) a ?t"
      using v a s unfolding ph by (auto simp: call_view_def seen_ok_def told_to_poll_def split: option.splits)
    then show ?thesis by (rule has_viewI [OF u, rotated]) (simp add: ph a)
  qed
qed

lemma drop_call_view:
  assumes "has_view nd a" and "live nd a" and "\<not> call_polling (nd_calls nd ! a)"
  shows "has_view (drop_call elapsed a nd) a"
proof -
  let ?c = "nd_calls nd ! a"
  have a: "a < length (nd_calls nd)" "\<not> call_dropped ?c" using assms(2) by (simp_all add: live_def)
  obtain s where r: "creach (call_command ?c) s" and v: "call_view nd a s" using assms(1) by (auto simp: has_view_def)
  have s: "handle s = nd_handles nd a" "\<not> polling s" "\<not> dropped s" using call_viewD(2,3,5) [OF v] assms(3) a(2) by simp_all
  let ?t = "s\<lparr>dropped := True, handle := cf_drop (handle s)\<rparr>"
  have "cstep s ?t" by (rule drop_future) (use s in simp_all)
  then have u: "creach (call_command ?c) ?t" by (rule creach_step [OF r])
  have e: "nd_calls (drop_call elapsed a nd) ! a = ?c\<lparr>call_dropped := True, call_timed_out := elapsed\<rparr>"
    "nd_handles (drop_call elapsed a nd) a = cf_drop (nd_handles nd a)" "nd_queue (drop_call elapsed a nd) = nd_queue nd"
    "el_active_commands (nd_loop (drop_call elapsed a nd)) = el_active_commands (nd_loop nd)"
    using a by (simp_all add: drop_call_def)
  have "told_to_poll (drop_call elapsed a nd) a = told_to_poll nd a" "seen_ok (drop_call elapsed a nd) a = seen_ok nd a"
    by (rule seen_frame; simp add: e)+
  then have "call_view (drop_call elapsed a nd) a ?t" using v s(1) by (simp add: call_view_def e)
  then show ?thesis using has_viewI [OF u] e(1) by simp
qed

section \<open>The event loop's part\<close>

lemma finishing:
  assumes "creach cmd s" and "task s \<noteq> None"
  shows "\<exists>t. creach cmd t \<and> handle t = fold handle_finish rs (handle s)
    \<and> future t = future s \<and> polling t = polling s \<and> returned t = returned s \<and> dropped t = dropped s
    \<and> channel t = channel s \<and> task t = task s \<and> entered t = entered s
    \<and> length (woken (handle s)) \<le> length (woken (handle t))
    \<and> (scheduled t \<longrightarrow> scheduled s \<or> length (woken (handle s)) < length (woken (handle t)))"
  using assms
proof (induction rs arbitrary: s)
  case Nil
  then show ?case by (intro exI [of _ s]) simp
next
  case (Cons r rs)
  obtain c where c: "task s = Some c" using Cons.prems(2) by blast
  let ?u = "s\<lparr>handle := handle_finish r (handle s), finishes := finishes s @ [r],
       scheduled := (scheduled s \<or> latest s \<in> Some ` set (newly_woken (handle s) (handle_finish r (handle s))))\<rparr>"
  have u: "creach cmd ?u" by (rule creach_step [OF Cons.prems(1) finish [OF c]])
  have l: "length (woken (handle s)) \<le> length (woken (handle ?u))"
    "scheduled ?u \<Longrightarrow> scheduled s \<or> length (woken (handle s)) < length (woken (handle ?u))"
    by (auto split: option.split)
  obtain t where t: "creach cmd t" "handle t = fold handle_finish rs (handle ?u)"
    "future t = future ?u" "polling t = polling ?u" "returned t = returned ?u" "dropped t = dropped ?u"
    "channel t = channel ?u" "task t = task ?u" "entered t = entered ?u"
    "length (woken (handle ?u)) \<le> length (woken (handle t))"
    "scheduled t \<longrightarrow> scheduled ?u \<or> length (woken (handle ?u)) < length (woken (handle t))"
    using Cons.IH [OF u] c by auto
  show ?case
  proof (intro exI [of _ t] conjI)
    show "length (woken (handle s)) \<le> length (woken (handle t))" using l(1) t(10) by linarith
    show "scheduled t \<longrightarrow> scheduled s \<or> length (woken (handle s)) < length (woken (handle t))"
      using l t(10,11) by (meson le_less_trans less_le_trans)
  qed (use t in simp_all)
qed

text \<open>The loop finishes a handle of an active command, and may then retire the command.\<close>

lemma finished_view:
  assumes v: "call_view nd a s" and "handle t = nd_handles nd' a" and "nd_calls nd' ! a = nd_calls nd ! a"
    and l: "length (woken (handle s)) \<le> length (woken (handle t))"
    and w: "scheduled t \<longrightarrow> scheduled s \<or> length (woken (handle s)) < length (woken (handle t))"
  shows "seen_ok nd' a" and "scheduled t \<Longrightarrow> told_to_poll nd' a"
proof -
  note h = call_viewD(2) [OF v] assms(2)
  show "seen_ok nd' a"
    using call_viewD(7) [OF v] l assms(3) unfolding h by (auto simp: seen_ok_def split: option.splits)
  assume t: "scheduled t"
  show "told_to_poll nd' a"
  proof (cases "scheduled s")
    case True
    from call_viewD(8) [OF v this] l assms(3) show ?thesis
      unfolding h by (auto simp: told_to_poll_def split: option.splits)
  next
    case False
    with w t call_viewD(7) [OF v] assms(3) show ?thesis
      unfolding h by (auto simp: told_to_poll_def seen_ok_def split: option.splits)
  qed
qed

lemma has_view_finish:
  assumes "has_view nd a" and "nd_calls nd' ! a = nd_calls nd ! a"
    and "a \<in> task_handle ` set (el_active_commands (nd_loop nd))"
    and "finished_from (nd_handles nd a) (nd_handles nd' a)"
    and "a \<in> task_handle ` set (nd_queue nd') \<longleftrightarrow> a \<in> task_handle ` set (nd_queue nd)"
  shows "has_view nd' a"
proof -
  let ?cmd = "call_command (nd_calls nd ! a)"
  obtain s where r: "creach ?cmd s" and v: "call_view nd a s" using assms(1) by (auto simp: has_view_def)
  obtain rs where rs: "nd_handles nd' a = fold handle_finish rs (nd_handles nd a)"
    using assms(4) by (auto simp: finished_from_def)
  obtain c where c: "task s = Some c" using call_viewD(10) [OF v] assms(3) by blast
  obtain t where t: "creach ?cmd t" "handle t = fold handle_finish rs (handle s)" "future t = future s"
    "polling t = polling s" "returned t = returned s" "dropped t = dropped s" "channel t = channel s" "task t = task s"
    "entered t = entered s"
    "length (woken (handle s)) \<le> length (woken (handle t))"
    "scheduled t \<longrightarrow> scheduled s \<or> length (woken (handle s)) < length (woken (handle t))"
    using finishing [OF r, of rs] c by blast
  have h: "handle t = nd_handles nd' a" using t(2) call_viewD(2) [OF v] rs by simp
  note seen = finished_view [OF v h assms(2) t(10,11)]
  note base = call_viewD(1-6,9-11) [OF v] t(3-9) h seen
  show ?thesis
  proof (cases "a \<in> task_handle ` set (el_active_commands (nd_loop nd'))")
    case True
    have "call_view nd' a t" unfolding call_view_def using base True c assms(2,5) by auto
    then show ?thesis using has_viewI [OF t(1)] assms(2) by simp
  next
    case False
    let ?u = "t\<lparr>task := None\<rparr>"
    have u: "creach ?cmd ?u" by (rule creach_step [OF t(1) retire [of t c]]) (use t(8) c in simp)
    have "call_view nd' a ?u" unfolding call_view_def using base False assms(2,5) by auto
    then show ?thesis using has_viewI [OF u] assms(2) by simp
  qed
qed

lemma has_view_receive:
  assumes "has_view nd a" and "nd_calls nd' ! a = nd_calls nd ! a" and "nd_handles nd' a = nd_handles nd a"
    and "a \<in> task_handle ` set (nd_queue nd)" and "a \<notin> task_handle ` set (nd_queue nd')"
    and "a \<in> task_handle ` set (el_active_commands (nd_loop nd'))"
  shows "has_view nd' a"
proof -
  obtain s where r: "creach (call_command (nd_calls nd ! a)) s" and v: "call_view nd a s"
    using assms(1) by (auto simp: has_view_def)
  obtain c where c: "channel s = Some c" using call_viewD(9) [OF v] assms(4) by blast
  let ?t = "s\<lparr>channel := None, task := Some c\<rparr>"
  have t: "creach (call_command (nd_calls nd ! a)) ?t" by (rule creach_step [OF r receive [OF c]])
  have f: "told_to_poll nd' a = told_to_poll nd a" "seen_ok nd' a = seen_ok nd a"
    by (rule seen_frame; use assms(2,3) in simp)+
  have "call_view nd' a ?t"
    unfolding call_view_def f
    using call_viewD(1-8,11) [OF v] assms(2,3,5,6) by auto
  then show ?thesis using has_viewI [OF t] assms(2) by simp
qed

section \<open>The whole node\<close>

definition all_views :: "('req, 'resp, 'stats) node \<Rightarrow> bool" where
  "all_views nd \<longleftrightarrow> (\<forall>a < length (nd_calls nd). has_view nd a)"

lemma all_views_same:
  assumes "all_views nd" and "same_commands nd nd'"
  shows "all_views nd'"
proof -
  have "has_view nd' a" if "a < length (nd_calls nd)" for a
    by (rule has_view_frame [of nd a]) (use assms that in \<open>simp_all add: all_views_def same_commands_def\<close>)
  with assms(2) show ?thesis by (simp add: all_views_def same_commands_def)
qed

lemma all_views_new:
  assumes "node_inv nd" and "all_views nd" and "same_commands (nd\<lparr>nd_calls := nd_calls nd @ [call_new cmd]\<rparr>) nd'"
  shows "all_views nd'"
proof -
  let ?n = "length (nd_calls nd)"
  have c: "nd_calls nd' = nd_calls nd @ [call_new cmd]" using assms(3) by (simp add: same_commands_def)
  have n: "?n \<notin> set (outstanding nd)" using assms(1) by (auto simp: node_inv_def)
  have "has_view nd' a" if "a < ?n" for a
    by (rule has_view_frame [of nd a]) (use assms that in \<open>simp_all add: all_views_def same_commands_def nth_append\<close>)
  moreover have "has_view nd' ?n"
    by (rule has_view_new)
       (use assms n in \<open>auto simp: node_inv_def outstanding_def same_commands_def nth_append\<close>)
  ultimately show ?thesis by (simp add: all_views_def c less_Suc_eq)
qed

text \<open>A step that concerns the call \<open>a\<close> only.\<close>

lemma all_views_one:
  assumes "all_views nd" and "has_view nd' a" and "length (nd_calls nd') = length (nd_calls nd)"
    and "\<And>b. b \<noteq> a \<Longrightarrow> nd_calls nd' ! b = nd_calls nd ! b"
    and "\<And>b. b \<noteq> a \<Longrightarrow> nd_handles nd' b = nd_handles nd b"
    and "\<And>b. b \<noteq> a \<Longrightarrow> b \<in> task_handle ` set (nd_queue nd') \<longleftrightarrow> b \<in> task_handle ` set (nd_queue nd)"
    and "\<And>b. b \<noteq> a \<Longrightarrow> b \<in> task_handle ` set (el_active_commands (nd_loop nd')) \<longleftrightarrow>
           b \<in> task_handle ` set (el_active_commands (nd_loop nd))"
  shows "all_views nd'"
proof -
  have "has_view nd' b" if "b < length (nd_calls nd)" for b
  proof (cases "b = a")
    case True
    with assms(2) show ?thesis by simp
  next
    case False
    show ?thesis
      by (rule has_view_frame [OF _ assms(4-7) [OF False]]) (use assms(1) that in \<open>simp add: all_views_def\<close>)
  qed
  with assms(3) show ?thesis by (simp add: all_views_def)
qed

lemma poll_submit_others:
  assumes "b \<noteq> a"
  shows "length (nd_calls (poll_submit a nd)) = length (nd_calls nd)"
    "nd_calls (poll_submit a nd) ! b = nd_calls nd ! b" "nd_handles (poll_submit a nd) b = nd_handles nd b"
    "b \<in> task_handle ` set (nd_queue (poll_submit a nd)) \<longleftrightarrow> b \<in> task_handle ` set (nd_queue nd)"
    "el_active_commands (nd_loop (poll_submit a nd)) = el_active_commands (nd_loop nd)"
  using assms by (auto simp: poll_submit_def call_return_def Let_def split: prod.split option.split)

lemma poll_handle_others:
  assumes "b \<noteq> a"
  shows "length (nd_calls (poll_handle a w nd)) = length (nd_calls nd)"
    "nd_calls (poll_handle a w nd) ! b = nd_calls nd ! b" "nd_handles (poll_handle a w nd) b = nd_handles nd b"
    "nd_queue (poll_handle a w nd) = nd_queue nd"
    "el_active_commands (nd_loop (poll_handle a w nd)) = el_active_commands (nd_loop nd)"
  using assms by (auto simp: poll_handle_def call_return_def split: prod.split poll.split)

lemma drop_call_others:
  assumes "b \<noteq> a"
  shows "length (nd_calls (drop_call elapsed a nd)) = length (nd_calls nd)"
    "nd_calls (drop_call elapsed a nd) ! b = nd_calls nd ! b" "nd_handles (drop_call elapsed a nd) b = nd_handles nd b"
    "nd_queue (drop_call elapsed a nd) = nd_queue nd"
    "el_active_commands (nd_loop (drop_call elapsed a nd)) = el_active_commands (nd_loop nd)"
  using assms by (auto simp: drop_call_def)

lemma all_views_poll_submit:
  assumes "all_views nd" and "live nd a" and "\<not> call_polling (nd_calls nd ! a)"
  shows "all_views (poll_submit a nd)"
proof -
  have "has_view nd a" using assms(1,2) by (simp add: all_views_def live_def)
  note v = poll_submit_view [OF this assms(2,3)]
  have l: "length (nd_calls (poll_submit a nd)) = length (nd_calls nd)" using poll_submit_others(1) [of "Suc a" a nd] by simp
  show ?thesis by (rule all_views_one [OF assms(1) v l]) (simp_all add: poll_submit_others)
qed

lemma all_views_poll_handle:
  assumes "all_views nd" and "live nd a" and "call_polling (nd_calls nd ! a)"
  shows "all_views (poll_handle a w nd)"
proof -
  have "has_view nd a" using assms(1,2) by (simp add: all_views_def live_def)
  note v = poll_handle_view [OF this assms(2,3)]
  have l: "length (nd_calls (poll_handle a w nd)) = length (nd_calls nd)" using poll_handle_others(1) [of "Suc a" a w nd] by simp
  show ?thesis by (rule all_views_one [OF assms(1) v l]) (simp_all add: poll_handle_others)
qed

lemma all_views_drop_call:
  assumes "all_views nd" and "live nd a" and "\<not> call_polling (nd_calls nd ! a)"
  shows "all_views (drop_call elapsed a nd)"
proof -
  have "has_view nd a" using assms(1,2) by (simp add: all_views_def live_def)
  note v = drop_call_view [OF this assms(2,3)]
  have l: "length (nd_calls (drop_call elapsed a nd)) = length (nd_calls nd)" using drop_call_others(1) [of "Suc a" a elapsed nd] by simp
  show ?thesis by (rule all_views_one [OF assms(1) v l]) (simp_all add: drop_call_others)
qed

text \<open>A step of the event loop: active commands are finished and retired, no command becomes active.\<close>

lemma all_views_loop:
  assumes "all_views nd" and "nd_calls nd' = nd_calls nd" and "nd_queue nd' = nd_queue nd"
    and "task_handle ` set (el_active_commands (nd_loop nd')) \<subseteq> task_handle ` set (el_active_commands (nd_loop nd))"
    and "\<And>a. finished_from (nd_handles nd a) (nd_handles nd' a)"
    and "\<And>a. a \<notin> task_handle ` set (el_active_commands (nd_loop nd)) \<Longrightarrow> nd_handles nd' a = nd_handles nd a"
  shows "all_views nd'"
proof -
  have "has_view nd' a" if "a < length (nd_calls nd)" for a
  proof (cases "a \<in> task_handle ` set (el_active_commands (nd_loop nd))")
    case True
    show ?thesis
      by (rule has_view_finish [OF _ _ True assms(5)]) (use assms(1-3) that in \<open>simp_all add: all_views_def\<close>)
  next
    case False
    then have "a \<notin> task_handle ` set (el_active_commands (nd_loop nd'))" using assms(4) by blast
    then show ?thesis
      by (intro has_view_frame [OF _ _ assms(6) [OF False]]) (use assms(1-3) that False in \<open>simp_all add: all_views_def\<close>)
  qed
  with assms(2) show ?thesis by (simp add: all_views_def)
qed

lemma all_views_event:
  assumes "all_views nd"
  shows "all_views (loop_handles env n (SwarmEvent e) nd)"
proof -
  obtain cmds' r st' where c: "command_chain env 0 (el_active_commands (nd_loop nd)) (Some e) (nd_handles nd) = (cmds', r, st')"
    by (metis prod_cases3)
  let ?nd = "loop_handles env n (SwarmEvent e) nd"
  have k: "el_active_commands (nd_loop ?nd) = cmds'" "nd_handles ?nd = st'"
    using c by (simp_all add: loop_handles_eq handle_swarm_event_frame after_chain_commands)
  note eff = chain_effect [OF c]
  have sub: "task_handle ` set cmds' \<subseteq> task_handle ` set (el_active_commands (nd_loop nd))"
    using eff(1) by (metis set_map set_mset_mono set_mset_mset)
  show ?thesis by (rule all_views_loop [OF assms]) (use sub eff(2,3) in \<open>simp_all add: k\<close>)
qed

lemma all_views_command:
  assumes "node_inv nd" and "all_views nd" and "nd_queue nd = cmd # rest"
  shows "all_views (loop_handles env n (CommandReceived cmd)
           (nd\<lparr>nd_queue := rest, nd_executed := nd_executed nd @ [task_handle cmd]\<rparr>))" (is "all_views ?nd")
proof -
  let ?a = "task_handle cmd"
  let ?cmds = "el_active_commands (nd_loop nd)"
  obtain c' sw' h' where r: "handler_run env (task_handler cmd) (el_swarm (nd_loop nd)) (nd_handles nd ?a) = (c', sw', h')"
    by (metis prod_cases3)
  have k: "el_active_commands (nd_loop ?nd) = ?cmds @ [cmd\<lparr>task_handler := snd (handler_take_relay c')\<rparr>]"
    "nd_handles ?nd = (nd_handles nd)(?a := h')"
    using handle_command_frame [OF r] by (simp_all add: loop_handles_eq)
  let ?mid = "nd\<lparr>nd_queue := rest, nd_loop := (nd_loop nd)\<lparr>el_active_commands := ?cmds @ [cmd]\<rparr>\<rparr>"
  have on: "outstanding nd = ?a # map task_handle rest @ map task_handle ?cmds" by (simp add: outstanding_def assms(3))
  have a: "?a < length (nd_calls nd)" "?a \<notin> task_handle ` set rest" using assms(1) by (auto simp: node_inv_def on)
  have "has_view ?mid ?a"
    by (rule has_view_receive [of nd]) (use assms(2,3) a in \<open>simp_all add: all_views_def\<close>)
  then have "has_view ?nd ?a"
    by (rule has_view_finish) (use handler_run_finishes [OF r] in \<open>simp_all add: k\<close>)
  then show ?thesis
    by (rule all_views_one [OF assms(2)]) (use assms(3) in \<open>auto simp: k\<close>)
qed

lemma all_views_retain:
  assumes "all_views nd"
  shows "all_views (nd\<lparr>nd_loop := retain_active (nd_loop nd), nd_selecting := True\<rparr>)"
proof -
  have h: "el_handles (retain_active el) = el_handles el" for el :: "('a, 'b, 'c) event_loop"
    by (simp add: retain_active_def)
  show ?thesis by (rule all_views_loop [OF assms]) (auto simp: h retain_active_commands)
qed

lemma node_act_views:
  assumes "node_inv nd" and "all_views nd" and "node_act env act nd = Some nd'"
  shows "all_views nd'"
  using assms(3)
proof (cases rule: node_act_commands)
  case new
  then show ?thesis by (intro all_views_new [OF assms(1,2)])
next
  case submit
  then show ?thesis using assms(2) by (auto intro: all_views_poll_submit)
next
  case handle
  then show ?thesis using assms(2) by (auto intro: all_views_poll_handle)
next
  case drop
  then show ?thesis using assms(2) by (auto intro: all_views_drop_call)
next
  case retain
  then show ?thesis using assms by (auto intro: all_views_retain)
next
  case command
  then show ?thesis using assms(1,2) by (auto intro: all_views_command)
next
  case event
  then show ?thesis using assms(2) by (auto intro: all_views_event)
next
  case closed
  show ?thesis unfolding closed(4) by (rule all_views_loop [OF assms(2)]) simp_all
next
  case other
  then show ?thesis by (intro all_views_same [OF assms(2)])
qed

lemma node_init_views: "all_views (node_init s)"
  by (simp add: all_views_def node_init_def)

interpretation call_views: node_invariant env node_inv all_views for env
  by unfold_locales (auto intro: node_reach_inv node_init_views node_act_views)

lemma node_reach_views: "node_reach env nd \<Longrightarrow> all_views nd"
  by (rule call_views.holds)

end
