(* ===== verification/Node_Channels.thy ===== *)
theory Node_Channels
  imports Node_Invariants
begin

text \<open>
  The data channels of the running node: opens polled by client tasks, channels accepted by the event loop,
  the bounded queue of accepted channels and the handles the application holds are one run of the
  system of Channel_Open, so the limits on channels hold in the node. The orders of the handles differ:
  the node keeps accepted channels in a queue of their own.
\<close>

section \<open>Simulation\<close>

definition dc_sim :: "('req, 'resp, 'stats) node \<Rightarrow> dc_sys \<Rightarrow> bool" where
  "dc_sim nd s \<longleftrightarrow>
     world s = el_dc (nd_loop nd) \<and> futures s = nd_opens nd \<and> mset (handles s) = mset (nd_channels nd @ nd_inbound nd)"

definition channels_ok :: "('req, 'resp, 'stats) node \<Rightarrow> bool" where
  "channels_ok nd \<longleftrightarrow>
     el_limits (nd_loop nd) = client_limits (nd_client nd)
   \<and> (\<exists>s. dc_reach (client_limits (nd_client nd)) s \<and> dc_sim nd s)"

lemma channels_okI:
  "dc_reach limits s \<Longrightarrow> dc_sim nd s \<Longrightarrow> client_limits (nd_client nd) = limits \<Longrightarrow> el_limits (nd_loop nd) = limits \<Longrightarrow>
   channels_ok nd"
  unfolding channels_ok_def by blast

lemma channels_okE:
  assumes "channels_ok nd"
  obtains s where "dc_reach (client_limits (nd_client nd)) s" "world s = el_dc (nd_loop nd)" "futures s = nd_opens nd"
    "mset (handles s) = mset (nd_channels nd @ nd_inbound nd)" "el_limits (nd_loop nd) = client_limits (nd_client nd)"
  using assms unfolding channels_ok_def dc_sim_def by blast

lemma mset_remove_at: "i < length xs \<Longrightarrow> mset (remove_at i xs) = mset xs - {#xs ! i#}"
proof -
  assume i: "i < length xs"
  have "mset xs = mset (take i xs @ xs ! i # drop (Suc i) xs)" using id_take_nth_drop [OF i] by simp
  then show ?thesis by (simp add: remove_at_def)
qed

text \<open>Dropping some of the handles, in any order.\<close>

lemma dropping_one:
  assumes "dc_reach limits s" and "c \<in># mset (handles s)"
  shows "\<exists>t. dc_reach limits t \<and> world t = drop_channel c (world s) \<and> futures t = futures s
           \<and> mset (handles t) = mset (handles s) - {#c#}"
proof -
  obtain i where i: "i < length (handles s)" "handles s ! i = c" using assms(2) by (auto simp: in_set_conv_nth)
  show ?thesis
    using dc_next [OF assms(1) handle_drop [OF i(1)]] i mset_remove_at [OF i(1)]
    by (intro exI [of _ "s\<lparr>world := drop_channel c (world s), handles := remove_at i (handles s)\<rparr>"])
       (simp add: drop_channel_def)
qed

lemma dropping:
  assumes "dc_reach limits s" and "mset cs \<subseteq># mset (handles s)"
  shows "\<exists>t. dc_reach limits t \<and> world t = fold drop_channel cs (world s) \<and> futures t = futures s
           \<and> mset (handles t) = mset (handles s) - mset cs"
  using assms
proof (induction cs arbitrary: s)
  case Nil
  then show ?case by (intro exI [of _ s]) simp
next
  case (Cons c cs)
  have c: "c \<in># mset (handles s)" using Cons.prems(2) by (auto dest: mset_subset_eqD)
  from dropping_one [OF Cons.prems(1) c] obtain u where u: "dc_reach limits u" "world u = drop_channel c (world s)"
    "futures u = futures s" "mset (handles u) = mset (handles s) - {#c#}" by blast
  have "mset cs \<subseteq># mset (handles u)" using Cons.prems(2) u(4) by (simp add: insert_subset_eq_iff)
  from Cons.IH [OF u(1) this] u show ?case by auto
qed

text \<open>A step that leaves the data channels alone.\<close>

definition same_channels :: "('req, 'resp, 'stats) node \<Rightarrow> ('req, 'resp, 'stats) node \<Rightarrow> bool" where
  "same_channels nd nd' \<longleftrightarrow>
     el_dc (nd_loop nd') = el_dc (nd_loop nd) \<and> el_limits (nd_loop nd') = el_limits (nd_loop nd)
   \<and> nd_opens nd' = nd_opens nd \<and> nd_channels nd' = nd_channels nd \<and> nd_inbound nd' = nd_inbound nd
   \<and> nd_client nd' = nd_client nd"

lemma channels_ok_same: "channels_ok nd \<Longrightarrow> same_channels nd nd' \<Longrightarrow> channels_ok nd'"
  unfolding channels_ok_def dc_sim_def same_channels_def by simp

lemma set_handle_same [simp]: "same_channels nd (set_handle a h nd') = same_channels nd nd'"
  by (simp add: same_channels_def set_handle_def)

lemma set_call_same [simp]: "same_channels nd (set_call a c nd') = same_channels nd nd'"
  by (simp add: same_channels_def set_call_def)

lemma same_channels_refl [simp]: "same_channels nd nd"
  by (simp add: same_channels_def)

lemma poll_submit_same: "same_channels nd (poll_submit a nd)"
proof -
  obtain e sent fut where s: "cf_submit (command_slot nd) (call_future (nd_calls nd ! a)) = (e, sent, fut)" by (metis prod_cases3)
  show ?thesis
    by (cases e; cases sent) (simp_all add: poll_submit_def s call_return_def Let_def same_channels_def set_handle_def set_call_def)
qed

lemma poll_handle_same: "same_channels nd (poll_handle a w nd)"
  by (simp add: poll_handle_def call_return_def split: prod.split poll.split)

lemma loop_handles_same:
  "same_channels nd (loop_handles env n (SwarmEvent e) nd)"
  "same_channels nd (loop_handles env n (CommandReceived cmd) nd)"
  "same_channels nd (loop_handles env n CommandsClosed nd)"
  by (simp_all add: loop_handles_eq same_channels_def handle_swarm_event_frame after_chain_def case_prod_beta)

lemma retain_same: "same_channels nd (nd\<lparr>nd_loop := retain_active (nd_loop nd), nd_selecting := True\<rparr>)"
  by (simp add: same_channels_def retain_active_def)

section \<open>Every step is a run of the data-channel system\<close>

lemma channels_open:
  assumes "channels_ok nd"
  shows "channels_ok (nd\<lparr>nd_opens := nd_opens nd @ [open_future_new p q t]\<rparr>)"
proof -
  from assms obtain s where s: "dc_reach (client_limits (nd_client nd)) s" "world s = el_dc (nd_loop nd)"
    "futures s = nd_opens nd" "mset (handles s) = mset (nd_channels nd @ nd_inbound nd)"
    "el_limits (nd_loop nd) = client_limits (nd_client nd)" by (rule channels_okE)
  show ?thesis by (rule channels_okI [OF dc_next [OF s(1) open_new [of _ s p q t]]]) (simp_all add: dc_sim_def s)
qed

lemma channels_poll:
  assumes "channels_ok nd" and "i < length (nd_opens nd)"
    and "open_future_poll (client_limits (nd_client nd)) out (nd_opens nd ! i) (el_dc (nd_loop nd)) = (Some r, st, w)"
  shows "channels_ok ((set_dc w nd)\<lparr>nd_opens := (nd_opens nd)[i := st],
                        nd_channels := nd_channels nd @ (case r of Ready (Inr c) \<Rightarrow> [c] | _ \<Rightarrow> [])\<rparr>)"
proof -
  from assms(1) obtain s where s: "dc_reach (client_limits (nd_client nd)) s" "world s = el_dc (nd_loop nd)"
    "futures s = nd_opens nd" "mset (handles s) = mset (nd_channels nd @ nd_inbound nd)"
    "el_limits (nd_loop nd) = client_limits (nd_client nd)" by (rule channels_okE)
  have "dc_step (client_limits (nd_client nd)) s (s\<lparr>world := w, futures := (futures s)[i := st],
       handles := handles s @ (case r of Ready (Inr c) \<Rightarrow> [c] | _ \<Rightarrow> [])\<rparr>)"
    by (rule open_poll) (use assms s in simp_all)
  from dc_next [OF s(1) this] show ?thesis
    by (rule channels_okI) (simp_all add: dc_sim_def set_dc_def s)
qed

lemma channels_open_drop:
  assumes "channels_ok nd" and "i < length (nd_opens nd)"
  shows "channels_ok ((set_dc (open_future_drop (nd_opens nd ! i) (el_dc (nd_loop nd))) nd)
                        \<lparr>nd_opens := remove_at i (nd_opens nd)\<rparr>)"
proof -
  from assms(1) obtain s where s: "dc_reach (client_limits (nd_client nd)) s" "world s = el_dc (nd_loop nd)"
    "futures s = nd_opens nd" "mset (handles s) = mset (nd_channels nd @ nd_inbound nd)"
    "el_limits (nd_loop nd) = client_limits (nd_client nd)" by (rule channels_okE)
  have "dc_step (client_limits (nd_client nd)) s
      (s\<lparr>world := open_future_drop (futures s ! i) (world s), futures := remove_at i (futures s)\<rparr>)"
    by (rule open_drop) (use assms s in simp_all)
  from dc_next [OF s(1) this] show ?thesis
    by (rule channels_okI) (simp_all add: dc_sim_def set_dc_def s)
qed

lemma channels_stream:
  assumes "channels_ok nd"
  shows "channels_ok
    ((loop_handles env n (InboundStream q p st slot) nd)\<lparr>nd_inbound := nd_inbound nd @
        drop (length (el_inbound (nd_loop nd))) (el_inbound (nd_loop (loop_handles env n (InboundStream q p st slot) nd)))\<rparr>)"
    (is "channels_ok ?nd")
proof -
  from assms obtain s where s: "dc_reach (client_limits (nd_client nd)) s" "world s = el_dc (nd_loop nd)"
    "futures s = nd_opens nd" "mset (handles s) = mset (nd_channels nd @ nd_inbound nd)"
    "el_limits (nd_loop nd) = client_limits (nd_client nd)" by (rule channels_okE)
  obtain d w where h: "handle_inbound_channel (client_limits (nd_client nd)) slot q p st (world s) = (d, w)" by fastforce
  from dc_next [OF s(1) inbound [OF h]] show ?thesis
    by (rule channels_okI)
       (use h s in \<open>simp_all add: dc_sim_def loop_handles_eq loop_inbound_channel_def split: option.split\<close>)
qed

lemma channels_drop_all:
  assumes "channels_ok nd"
  shows "channels_ok ((set_dc (fold drop_channel (nd_inbound nd) (el_dc (nd_loop nd))) nd)
                   \<lparr>nd_inbound := [], nd_channel_receiver := False\<rparr>)"
proof -
  from assms obtain s where s: "dc_reach (client_limits (nd_client nd)) s" "world s = el_dc (nd_loop nd)"
    "futures s = nd_opens nd" "mset (handles s) = mset (nd_channels nd @ nd_inbound nd)"
    "el_limits (nd_loop nd) = client_limits (nd_client nd)" by (rule channels_okE)
  have "mset (nd_inbound nd) \<subseteq># mset (handles s)" by (simp add: s)
  from dropping [OF s(1) this] obtain t where "dc_reach (client_limits (nd_client nd)) t"
    "world t = fold drop_channel (nd_inbound nd) (world s)" "futures t = futures s"
    "mset (handles t) = mset (handles s) - mset (nd_inbound nd)" by blast
  then show ?thesis by (intro channels_okI [of _ t]) (simp_all add: dc_sim_def set_dc_def s)
qed

lemma channels_drop_one:
  assumes "channels_ok nd" and "i < length (nd_channels nd)"
  shows "channels_ok ((set_dc (drop_channel (nd_channels nd ! i) (el_dc (nd_loop nd))) nd)
                   \<lparr>nd_channels := remove_at i (nd_channels nd)\<rparr>)"
proof -
  from assms(1) obtain s where s: "dc_reach (client_limits (nd_client nd)) s" "world s = el_dc (nd_loop nd)"
    "futures s = nd_opens nd" "mset (handles s) = mset (nd_channels nd @ nd_inbound nd)"
    "el_limits (nd_loop nd) = client_limits (nd_client nd)" by (rule channels_okE)
  have "nd_channels nd ! i \<in># mset (handles s)" using assms(2) by (simp add: s)
  from dropping_one [OF s(1) this] obtain t where "dc_reach (client_limits (nd_client nd)) t"
    "world t = drop_channel (nd_channels nd ! i) (world s)" "futures t = futures s"
    "mset (handles t) = mset (handles s) - {#nd_channels nd ! i#}" by blast
  then show ?thesis
    using assms(2) by (intro channels_okI [of _ t]) (simp_all add: dc_sim_def set_dc_def s mset_remove_at)
qed

lemma node_act_channels:
  assumes "channels_ok nd" and "node_act env act nd = Some nd'"
  shows "channels_ok nd'"
proof (cases act)
  case (NewResponse i resp)
  with assms(2) show ?thesis
    by (auto intro!: channels_ok_same [OF assms(1)] simp: same_channels_def split: if_splits prod.splits)
next
  case (PollSubmit a)
  with assms show ?thesis by (auto intro: channels_ok_same poll_submit_same split: if_splits)
next
  case (PollHandle a w)
  with assms show ?thesis by (auto intro: channels_ok_same poll_handle_same split: if_splits)
next
  case (DropCall a)
  with assms show ?thesis by (auto intro!: channels_ok_same [OF assms(1)] simp: drop_call_def split: if_splits)
next
  case (TimeoutCall a)
  with assms show ?thesis by (auto intro!: channels_ok_same [OF assms(1)] simp: drop_call_def split: if_splits)
next
  case LoopRetain
  with assms show ?thesis by (auto intro: channels_ok_same retain_same split: if_splits)
next
  case (LoopCommand n)
  with assms(2) obtain cmd rest where e: "nd' = loop_handles env n (CommandReceived cmd)
                 (nd\<lparr>nd_queue := rest, nd_executed := nd_executed nd @ [task_handle cmd]\<rparr>)"
    by (auto split: list.splits if_splits)
  show ?thesis unfolding e
    by (rule channels_ok_same [OF assms(1)]) (simp add: loop_handles_eq same_channels_def)
next
  case (LoopEvent n e)
  with assms show ?thesis by (auto intro: channels_ok_same loop_handles_same split: if_splits)
next
  case (LoopStream n q p s)
  with assms show ?thesis by (auto intro: channels_stream simp: Let_def split: if_splits)
next
  case LoopClosed
  with assms show ?thesis by (auto intro: channels_ok_same loop_handles_same split: if_splits)
next
  case (NewOpen p q)
  with assms show ?thesis by (auto simp: open_data_channel_def intro: channels_open split: if_splits)
next
  case (PollOpen i out)
  obtain p st w where o: "open_future_poll (client_limits (nd_client nd)) out (nd_opens nd ! i) (el_dc (nd_loop nd)) = (p, st, w)"
    by (metis prod_cases3)
  with assms(2) PollOpen obtain r where i: "i < length (nd_opens nd)" and r: "p = Some r"
    and e: "nd' = (set_dc w nd)\<lparr>nd_opens := (nd_opens nd)[i := st],
                     nd_channels := nd_channels nd @ (case r of Ready (Inr c) \<Rightarrow> [c] | _ \<Rightarrow> [])\<rparr>"
    by (auto split: if_splits option.splits)
  show ?thesis unfolding e by (rule channels_poll [OF assms(1) i o [unfolded r]])
next
  case (DropOpen i)
  with assms show ?thesis by (auto intro: channels_open_drop split: if_splits)
next
  case ReceiveChannel
  with assms(2) obtain c cs where "nd_inbound nd = c # cs" "nd' = nd\<lparr>nd_inbound := cs, nd_channels := nd_channels nd @ [c]\<rparr>"
    by (auto split: list.splits if_splits)
  with assms(1) show ?thesis unfolding channels_ok_def dc_sim_def by simp
next
  case DropChannelReceiver
  with assms show ?thesis by (auto intro: channels_drop_all split: if_splits)
next
  case (DropChannel i)
  with assms show ?thesis by (auto intro: channels_drop_one split: if_splits)
qed (use assms(2) in \<open>auto intro!: channels_ok_same [OF assms(1)] simp: same_channels_def split: if_splits\<close>)

lemma node_init_channels:
  assumes "node_start env None mdns_ok valid_protocol accept c cfg = Some (Inr s)"
  shows "channels_ok (node_init s)"
  by (rule channels_okI [OF dc_init [of _ c]])
     (simp_all add: dc_sim_def dc_sys_init_def node_init_def started_loop_idle [OF assms])

interpretation node_channels: node_invariant env "\<lambda>_. True" channels_ok for env
  by unfold_locales (auto intro: node_init_channels node_act_channels)

lemma node_reach_channels: "node_reach env nd \<Longrightarrow> channels_ok nd"
  by (rule node_channels.holds)

section \<open>Properties\<close>

text \<open>
  C7: the limits on data channels hold in the whole node. In every reachable state, whatever the interleaving of
  client tasks that open, poll and drop, the event loop that accepts streams and hands them to a bounded
  queue, and an application that takes and drops handles, the handles it holds and those waiting in the queue,
  with the opens in progress, stay within the configured limits per peer and direction and per protocol.
\<close>

theorem node_channels_bounded:
  assumes "node_reach env nd"
  shows "length (filter (\<lambda>c. dc_direction c = Inbound \<and> dc_peer c = p) (nd_channels nd @ nd_inbound nd))
           \<le> unat (max_inbound_per_peer (client_limits (nd_client nd)))
       \<and> length (filter (\<lambda>c. dc_direction c = Outbound \<and> dc_peer c = p) (nd_channels nd @ nd_inbound nd))
           + length (filter (opening_to p) (nd_opens nd)) \<le> unat (max_outbound_per_peer (client_limits (nd_client nd)))
       \<and> length (filter (\<lambda>c. dc_protocol c = q) (nd_channels nd @ nd_inbound nd))
           + length (filter (opening_with q) (nd_opens nd)) \<le> unat (max_per_protocol (client_limits (nd_client nd)))"
proof -
  obtain s where s: "dc_reach (client_limits (nd_client nd)) s" "futures s = nd_opens nd"
    "mset (handles s) = mset (nd_channels nd @ nd_inbound nd)"
    using node_reach_channels [OF assms] by (rule channels_okE)
  have "length (filter P (handles s)) = length (filter P (nd_channels nd @ nd_inbound nd))" for P
    by (metis s(3) mset_filter size_mset)
  with dc_reach_bounded [OF s(1), of p q] s(2) show ?thesis by (simp only:)
qed

text \<open>A started node, and one that has accepted a channel from a peer.\<close>

lemma sample_started:
  obtains s where "node_start str_env None True (\<lambda>p. True) (\<lambda>done q. q \<notin> set done) 0 sample_config = Some (Inr s)"
    "client_limits (started_client s) = data_channel_limits_default"
proof -
  have c: "listen_addrs sample_config = [[Ip4 1, Tcp 1]]" "data_channel_limits sample_config = data_channel_limits_default"
    by (simp_all add: sample_config_def config_build_def node_config_new_def node_config_default_def)
  obtain s where s: "node_start str_env None True (\<lambda>p. True) (\<lambda>done q. q \<notin> set done) 0 sample_config = Some (Inr s)"
    by (auto simp: node_start_def core_behaviour_new_def c swarm_listen_on_def Let_def)
  then have "client_limits (started_client s) = data_channel_limits_default"
    by (auto simp: node_start_def c Let_def split: option.splits prod.splits sum.splits)
  with s show ?thesis by (rule that)
qed

lemma sample_node_channel:
  "\<exists>nd. node_reach str_env nd \<and> nd_inbound nd \<noteq> [] \<and> nd_channels nd = [] \<and> nd_opens nd = [] \<and> nd_channel_receiver nd
     \<and> list_all (\<lambda>c. dc_direction c = Inbound \<and> dc_peer c = PeerId 7) (nd_inbound nd)
     \<and> client_limits (nd_client nd) = data_channel_limits_default"
proof -
  obtain s where s: "node_start str_env None True (\<lambda>p. True) (\<lambda>done q. q \<notin> set done) 0 sample_config = Some (Inr s)"
    and lim: "client_limits (started_client s) = data_channel_limits_default" by (rule sample_started)
  note idle = started_loop_idle [OF s]
  let ?nd1 = "(node_init s)\<lparr>nd_loop := retain_active (started_loop s), nd_selecting := True\<rparr>"
  have h: "handle_inbound_channel data_channel_limits_default SendOk ''/d/1'' (PeerId 7) (Stream 3)
      \<lparr>registry = registry_inner_default, id_counter = 0\<rparr>
      = (Some (data_channel_new (DataChannelId 0) (PeerId 7) ''/d/1'' Inbound (Stream 3) (Some sample_guard)),
         \<lparr>registry = sample_registry, id_counter = 1\<rparr>)"
    using sample_acquire
    by (simp add: handle_inbound_channel_def dc_sys_init_def data_channel_id_next_def fetch_add_one_def)
  have nst: "\<not> loop_stalled (node_init s)" "\<not> loop_stalled ?nd1"
    using idle(3) by (simp_all add: loop_stalled_def events_waiting_def node_init_def retain_active_def)
  have slot: "channel_slot ?nd1 = SendOk" by (simp add: channel_slot_def slot_of_def node_init_def DC_INBOUND_CHANNEL_SIZE_def)
  let ?loop = "nd_loop (loop_handles str_env 0 (InboundStream ''/d/1'' (PeerId 7) (Stream 3) SendOk) ?nd1)"
  have i: "el_inbound ?loop = [data_channel_new (DataChannelId 0) (PeerId 7) ''/d/1'' Inbound (Stream 3) (Some sample_guard)]"
    using idle h lim by (simp add: loop_handles_eq loop_inbound_channel_def retain_active_def)
  have r1: "node_reach str_env ?nd1"
    by (rule node_step [OF node_started [OF s], of LoopRetain]) (use nst in \<open>simp add: node_init_def\<close>)
  obtain nd where nd: "node_act str_env (LoopStream 0 ''/d/1'' (PeerId 7) (Stream 3)) ?nd1 = Some nd"
    "nd_inbound nd = el_inbound ?loop" "nd_channels nd = []" "nd_opens nd = []" "nd_client nd = started_client s" "nd_channel_receiver nd"
    using nst(2) slot idle by (simp add: loop_can_select_def node_init_def Let_def loop_handles_eq retain_active_def)
  have r: "node_reach str_env nd" by (rule node_step [OF r1 nd(1)])
  show ?thesis
    by (intro exI [of _ nd]) (use r nd lim i in \<open>simp add: data_channel_new_def\<close>)
qed

theorem node_channels_bounded_witness:
  "\<exists>nd. node_reach str_env nd \<and> nd_inbound nd \<noteq> []
     \<and> length (filter (\<lambda>c. dc_direction c = Inbound \<and> dc_peer c = PeerId 7) (nd_channels nd @ nd_inbound nd))
         \<le> unat (max_inbound_per_peer (client_limits (nd_client nd)))"
proof -
  obtain nd where nd: "node_reach str_env nd" "nd_inbound nd \<noteq> []" using sample_node_channel by blast
  from node_channels_bounded [OF nd(1), of "PeerId 7"] nd show ?thesis by blast
qed

text \<open>
  C13: the node leaks no quota. In every reachable state with no open in progress and no handle held by the
  application or waiting in the queue, the registry is the empty one it started with, however many
  channels were opened, accepted, rejected, timed out, dropped or discarded with the queue before.
\<close>

theorem node_leaks_no_quota:
  assumes "node_reach env nd" and "nd_opens nd = []" and "nd_channels nd = []" and "nd_inbound nd = []"
  shows "registry (el_dc (nd_loop nd)) = registry_inner_default"
proof -
  obtain s where s: "dc_reach (client_limits (nd_client nd)) s" "world s = el_dc (nd_loop nd)" "futures s = nd_opens nd"
    "mset (handles s) = mset (nd_channels nd @ nd_inbound nd)"
    using node_reach_channels [OF assms(1)] by (rule channels_okE)
  have "owned_guards s = {#}" using s(3,4) assms(2-4) by (simp add: owned_guards_def)
  with dc_reach_holds [OF s(1)] s(2) show ?thesis by (simp add: reg_holds_def registry_of_empty)
qed

theorem node_leaks_no_quota_witness:
  "\<exists>nd nd'. node_reach str_env nd \<and> nd_inbound nd \<noteq> []
     \<and> node_acts str_env [DropChannelReceiver] nd = Some nd' \<and> registry (el_dc (nd_loop nd')) = registry_inner_default"
proof -
  obtain nd where nd: "node_reach str_env nd" "nd_inbound nd \<noteq> []" "nd_channels nd = []" "nd_opens nd = []"
    "nd_channel_receiver nd" using sample_node_channel by blast
  let ?nd1 = "(set_dc (fold drop_channel (nd_inbound nd) (el_dc (nd_loop nd))) nd)
                   \<lparr>nd_inbound := [], nd_channel_receiver := False\<rparr>"
  have a: "node_acts str_env [DropChannelReceiver] nd = Some ?nd1" using nd(5) by simp
  have "registry (el_dc (nd_loop ?nd1)) = registry_inner_default"
    by (rule node_leaks_no_quota [OF node_reach_acts [OF nd(1) a]]) (use nd(3,4) in \<open>simp_all add: set_dc_def\<close>)
  with a nd(1,2) show ?thesis by blast
qed

end
