(* ===== verification/Node_Progress.thy ===== *)
theory Node_Progress
  imports Call_Refinement Node_Channels
begin

text \<open>
  What the running node guarantees to its callers: bounded queues, commands that are in one place and run in
  order, callers that are never abandoned, and the conditions under which the loop makes progress.
\<close>

section \<open>The queues are bounded\<close>

definition queues_ok :: "('req, 'resp, 'stats) node \<Rightarrow> bool" where
  "queues_ok nd \<longleftrightarrow>
     nd_received nd \<le> length (el_events (nd_loop nd))
   \<and> (nd_receiver nd \<longrightarrow> events_waiting nd \<le> Suc (unat EVENT_CHANNEL_SIZE))
   \<and> length (nd_inbound nd) \<le> unat DC_INBOUND_CHANNEL_SIZE"

definition same_queues :: "('req, 'resp, 'stats) node \<Rightarrow> ('req, 'resp, 'stats) node \<Rightarrow> bool" where
  "same_queues nd nd' \<longleftrightarrow>
     nd_received nd' = nd_received nd \<and> el_events (nd_loop nd') = el_events (nd_loop nd)
   \<and> nd_receiver nd' = nd_receiver nd \<and> nd_inbound nd' = nd_inbound nd"

lemma queues_ok_same: "queues_ok nd \<Longrightarrow> same_queues nd nd' \<Longrightarrow> queues_ok nd'"
  by (simp add: queues_ok_def same_queues_def events_waiting_def)

lemma same_queues_set [simp]:
  "same_queues nd (set_handle a h nd') = same_queues nd nd'"
  "same_queues nd (set_call a c nd') = same_queues nd nd'"
  "same_queues nd (set_dc w nd') = same_queues nd nd'"
  "same_queues nd nd"
  by (simp_all add: same_queues_def set_handle_def set_call_def set_dc_def)

lemma handle_command_events [simp]: "el_events (handle_command env cmd el) = el_events el"
  by (simp add: handle_command_def Let_def case_prod_beta request_relay_reservations_eq split: option.split)

lemma poll_submit_queues: "same_queues nd (poll_submit a nd)"
proof -
  obtain e sent fut where s: "cf_submit (command_slot nd) (call_future (nd_calls nd ! a)) = (e, sent, fut)" by (metis prod_cases3)
  show ?thesis
    by (cases e; cases sent) (simp_all add: poll_submit_def s call_return_def Let_def same_queues_def set_handle_def set_call_def)
qed

lemma poll_handle_queues: "same_queues nd (poll_handle a w nd)"
  by (simp add: poll_handle_def call_return_def split: prod.split poll.split)

lemma loop_event_queues:
  assumes "queues_ok nd" and "\<not> loop_stalled nd"
  shows "queues_ok (loop_handles env n (SwarmEvent e) nd)"
proof -
  let ?el = "(nd_loop nd)\<lparr>el_swarm := el_swarm (nd_loop nd) @ [Polled e]\<rparr>"
  let ?nd = "loop_handles env n (SwarmEvent e) nd"
  obtain new where new: "el_events (nd_loop ?nd) = el_events (nd_loop nd) @ new"
    "length new \<le> (if is_err (event_slot nd) then 0 else 1) + (if nd_receiver nd then 1 else 0)"
    using handle_swarm_event_events [of env "turn_now n nd" e ?el] by (auto simp: loop_handles_eq turn_now_def)
  have f: "nd_received ?nd = nd_received nd" "nd_receiver ?nd = nd_receiver nd" "nd_inbound ?nd = nd_inbound nd"
    by (simp_all add: loop_handles_eq)
  have "events_waiting ?nd \<le> Suc (unat EVENT_CHANNEL_SIZE)" if "nd_receiver nd"
  proof (cases "events_waiting nd < unat EVENT_CHANNEL_SIZE")
    case True
    with new that assms(1) show ?thesis by (auto simp: events_waiting_def f queues_ok_def split: if_splits)
  next
    case False
    then have "is_err (event_slot nd)" using that by (simp add: event_slot_def slot_of_def is_err_def)
    moreover have "events_waiting nd \<le> unat EVENT_CHANNEL_SIZE" using assms(2) that by (simp add: loop_stalled_def)
    ultimately show ?thesis using new assms(1) by (auto simp: events_waiting_def f queues_ok_def split: if_splits)
  qed
  with new(1) assms(1) show ?thesis by (simp add: queues_ok_def f)
qed

lemma loop_stream_queues:
  assumes "queues_ok nd"
  shows "queues_ok ((loop_handles env n (InboundStream q p s (channel_slot nd)) nd)\<lparr>nd_inbound := nd_inbound nd @
        drop (length (el_inbound (nd_loop nd)))
          (el_inbound (nd_loop (loop_handles env n (InboundStream q p s (channel_slot nd)) nd)))\<rparr>)"
proof -
  obtain d w where h: "handle_inbound_channel (el_limits (nd_loop nd)) (channel_slot nd) q p s (el_dc (nd_loop nd)) = (d, w)"
    by fastforce
  have "channel_slot nd = SendOk" if "d \<noteq> None"
    using h that by (auto simp: handle_inbound_channel_def Let_def split: option.splits prod.splits try_send_outcome.splits)
  then have "length (nd_inbound nd) < unat DC_INBOUND_CHANNEL_SIZE" if "d \<noteq> None"
    using that by (auto simp: channel_slot_def slot_of_def split: if_splits)
  with assms h show ?thesis
    by (auto simp: queues_ok_def events_waiting_def loop_handles_eq loop_inbound_channel_def split: option.split)
qed

lemma node_act_queues:
  assumes "queues_ok nd" and "node_act env act nd = Some nd'"
  shows "queues_ok nd'"
proof (cases act)
  case (NewResponse i resp)
  with assms(2) show ?thesis
    by (auto intro!: queues_ok_same [OF assms(1)] simp: same_queues_def split: if_splits prod.splits)
next
  case (PollSubmit a)
  with assms show ?thesis by (auto intro: queues_ok_same poll_submit_queues split: if_splits)
next
  case (PollHandle a w)
  with assms show ?thesis by (auto intro: queues_ok_same poll_handle_queues split: if_splits)
next
  case (DropCall a)
  with assms show ?thesis by (auto intro!: queues_ok_same [OF assms(1)] simp: drop_call_def split: if_splits)
next
  case (TimeoutCall a)
  with assms show ?thesis by (auto intro!: queues_ok_same [OF assms(1)] simp: drop_call_def split: if_splits)
next
  case LoopRetain
  with assms show ?thesis
    by (auto intro!: queues_ok_same [OF assms(1)] simp: same_queues_def retain_active_def split: if_splits)
next
  case (LoopCommand n)
  with assms(2) obtain cmd rest where e: "nd' = loop_handles env n (CommandReceived cmd)
                 (nd\<lparr>nd_queue := rest, nd_executed := nd_executed nd @ [task_handle cmd]\<rparr>)"
    by (auto split: list.splits if_splits)
  show ?thesis unfolding e
    by (rule queues_ok_same [OF assms(1)]) (simp add: loop_handles_eq same_queues_def)
next
  case (LoopEvent n e)
  with assms show ?thesis by (auto intro: loop_event_queues simp: loop_can_select_def split: if_splits)
next
  case (LoopStream n q p s)
  with assms show ?thesis by (auto intro: loop_stream_queues simp: Let_def split: if_splits)
next
  case LoopClosed
  with assms show ?thesis
    by (auto intro!: queues_ok_same [OF assms(1)] simp: loop_handles_eq same_queues_def split: if_splits)
next
  case ReceiveEvent
  with assms show ?thesis by (auto simp: queues_ok_def events_waiting_def split: if_splits)
next
  case DropReceiver
  with assms show ?thesis by (auto simp: queues_ok_def events_waiting_def split: if_splits)
next
  case (PollOpen i out)
  with assms(2) show ?thesis
    by (auto intro!: queues_ok_same [OF assms(1)] simp: same_queues_def set_dc_def split: if_splits prod.splits option.splits)
next
  case ReceiveChannel
  with assms show ?thesis by (auto simp: queues_ok_def events_waiting_def split: if_splits list.splits)
next
  case DropChannelReceiver
  with assms show ?thesis by (auto simp: queues_ok_def events_waiting_def set_dc_def split: if_splits)
qed (use assms(2) in \<open>auto intro!: queues_ok_same [OF assms(1)] simp: same_queues_def set_dc_def split: if_splits\<close>)

lemma node_init_queues:
  assumes "node_start env None mdns_ok valid_protocol accept c cfg = Some (Inr s)"
  shows "queues_ok (node_init s)"
  by (simp add: queues_ok_def events_waiting_def node_init_def started_loop_idle [OF assms])

interpretation node_queues: node_invariant env "\<lambda>_. True" queues_ok for env
  by unfold_locales (auto intro: node_init_queues node_act_queues)

lemma node_reach_queues: "node_reach env nd \<Longrightarrow> queues_ok nd"
  by (rule node_queues.holds)

end
