(* ===== verification/Node_Typing.thy ===== *)
theory Node_Typing
  imports Node_Progress
begin

text \<open>
  The tasks of the running node serve the calls that submitted them: a queued command is the command of its call,
  an active one is still of the same kind, and what its handle holds, and what its call returns, has the
  result type of the call.
\<close>

section \<open>Kinds of commands\<close>

definition same_kind :: "('req, 'resp, 'stats) handler \<Rightarrow> ('req, 'resp, 'stats) handler \<Rightarrow> bool" where
  "same_kind c d \<longleftrightarrow> has_result_type c = has_result_type d \<and> immediate c = immediate d"

lemma same_kind_refl [simp]: "same_kind c c"
  by (simp add: same_kind_def)

lemma same_kind_trans: "same_kind c d \<Longrightarrow> same_kind d e \<Longrightarrow> same_kind c e"
  unfolding same_kind_def by (metis (no_types))

lemma same_kind_typed: "same_kind c d \<Longrightarrow> well_typed c h = well_typed d h"
  by (rule well_typed_same) (simp only: same_kind_def)

lemma take_relay_kind [simp]: "same_kind (snd (handler_take_relay c)) c"
  by (cases c) (simp_all add: same_kind_def add_infrastructure_peer_take_relay_def fun_eq_iff)

lemma run_kind:
  assumes "handler_run env c sw h = (c', sw', h')" and "well_typed c h"
  shows "same_kind c' c" and "well_typed c h'"
proof -
  show k: "same_kind c' c"
    using handler_run_typed [OF assms] handler_run_immediate(1) [OF assms(1)] unfolding same_kind_def by blast
  show "well_typed c h'" using handler_run_typed [OF assms] same_kind_typed [OF k] by blast
qed

lemma on_event_kind:
  assumes "handler_on_event env c e h = ((keep, ret), c', h')" and "well_typed c h"
  shows "same_kind c' c" and "well_typed c h'"
proof -
  show k: "same_kind c' c"
    using handler_on_event_typed [OF assms] handler_on_event_retires(1) [OF assms(1)] unfolding same_kind_def by blast
  show "well_typed c h'" using handler_on_event_typed [OF assms] same_kind_typed [OF k] by blast
qed

text \<open>Tasks of the kinds \<open>K\<close> prescribes for their handles, which hold results of those kinds.\<close>

definition kinds_ok ::
  "(nat \<Rightarrow> ('req, 'resp, 'stats) handler) \<Rightarrow> ('req, 'resp, 'stats) command_task list \<Rightarrow> 'resp handle_store \<Rightarrow> bool" where
  "kinds_ok K cmds st \<longleftrightarrow>
     (\<forall>t \<in> set cmds. same_kind (task_handler t) (K (task_handle t))) \<and> (\<forall>a. well_typed (K a) (st a))"

lemma kinds_ok_after:
  assumes "same_kind (task_handler t) (K (task_handle t))" and "\<forall>a. well_typed (K a) (st a)"
  shows "same_kind (task_handler (task_after env e st t)) (K (task_handle t))"
    and "\<forall>a. well_typed (K a) ((st(task_handle t := handle_after env e st t)) a)"
proof -
  obtain keep ret c h where e: "handler_on_event env (task_handler t) e (st (task_handle t)) = ((keep, ret), c, h)"
    by (metis surj_pair)
  have "well_typed (task_handler t) (st (task_handle t))" using assms same_kind_typed by blast
  note k = on_event_kind [OF e this]
  show "same_kind (task_handler (task_after env e st t)) (K (task_handle t))"
    using same_kind_trans [OF k(1) assms(1)] e by (simp add: task_after_def task_on_event_def)
  have "well_typed (K (task_handle t)) h" using k(2) same_kind_typed [OF assms(1)] by simp
  then show "\<forall>a. well_typed (K a) ((st(task_handle t := handle_after env e st t)) a)"
    using assms(2) e by (simp add: handle_after_def)
qed

lemma chain_kinds:
  assumes "command_chain env i cmds r st = (cmds', r', st')" and "kinds_ok K cmds st"
  shows "kinds_ok K cmds' st'"
  using assms
proof (rule chain_invariant [where P = "\<lambda>cmds _ st. kinds_ok K cmds st"])
  fix e :: "('a, 'b, 'c) swarm_event" and t :: "('a, 'b, 'c) command_task" and A cmds cmds1 st
  assume k: "kinds_ok K cmds st" and m: "mset cmds = add_mset t A"
    and m1: "mset cmds1 = A + (if task_keeps env e st t then {#task_after env e st t#} else {#})"
  have s: "set cmds = insert t (set_mset A)" using arg_cong [OF m, of set_mset] by simp
  have s1: "set cmds1 \<subseteq> insert (task_after env e st t) (set_mset A)"
    using arg_cong [OF m1, of set_mset] by (auto split: if_splits)
  show "kinds_ok K cmds1 (st(task_handle t := handle_after env e st t))"
    using kinds_ok_after [of t K st env e] k s s1 by (auto simp: kinds_ok_def)
qed

section \<open>The invariant\<close>

abbreviation command_of :: "('req, 'resp, 'stats) node \<Rightarrow> nat \<Rightarrow> ('req, 'resp, 'stats) handler" where
  "command_of nd a \<equiv> call_command (nd_calls nd ! a)"

definition served :: "('req, 'resp, 'stats) node \<Rightarrow> bool" where
  "served nd \<longleftrightarrow>
     (\<forall>t \<in> set (nd_queue nd). task_handler t = command_of nd (task_handle t))
   \<and> (\<forall>t \<in> set (el_active_commands (nd_loop nd)). same_kind (task_handler t) (command_of nd (task_handle t)))
   \<and> (\<forall>a < length (nd_calls nd). well_typed (command_of nd a) (nd_handles nd a))
   \<and> (\<forall>a < length (nd_calls nd). \<forall>v. call_result (nd_calls nd ! a) = Some (Inr v) \<longrightarrow> has_result_type (command_of nd a) v)"

lemma servedD:
  assumes "served nd"
  shows "t \<in> set (nd_queue nd) \<Longrightarrow> task_handler t = command_of nd (task_handle t)"
    and "t \<in> set (el_active_commands (nd_loop nd)) \<Longrightarrow> same_kind (task_handler t) (command_of nd (task_handle t))"
    and "a < length (nd_calls nd) \<Longrightarrow> well_typed (command_of nd a) (nd_handles nd a)"
    and "a < length (nd_calls nd) \<Longrightarrow> call_result (nd_calls nd ! a) = Some (Inr v) \<Longrightarrow> has_result_type (command_of nd a) v"
  using assms unfolding served_def by blast+

lemma served_same:
  assumes "served nd" and "same_commands nd nd'"
  shows "served nd'"
  using assms by (simp add: served_def same_commands_def)

lemma outstanding_lt:
  assumes "node_inv nd" and "t \<in> set (nd_queue nd) \<or> t \<in> set (el_active_commands (nd_loop nd))"
  shows "task_handle t < length (nd_calls nd)"
proof -
  have "task_handle t \<in> set (outstanding nd)" using assms(2) by (auto simp: outstanding_def)
  with assms(1) show ?thesis unfolding node_inv_def by blast
qed

lemma served_new:
  assumes "node_inv nd" and "served nd" and "same_commands (nd\<lparr>nd_calls := nd_calls nd @ [call_new cmd]\<rparr>) nd'"
  shows "served nd'"
proof -
  let ?n = "length (nd_calls nd)"
  have f: "nd_calls nd' = nd_calls nd @ [call_new cmd]" "nd_queue nd' = nd_queue nd" "nd_handles nd' = nd_handles nd"
    "el_active_commands (nd_loop nd') = el_active_commands (nd_loop nd)"
    using assms(3) by (simp_all add: same_commands_def)
  have old: "nd_calls nd' ! a = nd_calls nd ! a" if "a < ?n" for a using that by (simp add: f nth_append)
  have new: "nd_calls nd' ! ?n = call_new cmd" "nd_handles nd ?n = handle_new"
    using assms(1) by (simp_all add: f node_inv_def)
  show ?thesis
    unfolding served_def f(2-4)
  proof (intro conjI ballI allI impI)
    fix t assume t: "t \<in> set (nd_queue nd)"
    with old [OF outstanding_lt [OF assms(1)]] servedD(1) [OF assms(2) t]
    show "task_handler t = command_of nd' (task_handle t)" by simp
  next
    fix t assume t: "t \<in> set (el_active_commands (nd_loop nd))"
    with old [OF outstanding_lt [OF assms(1)]] servedD(2) [OF assms(2) t]
    show "same_kind (task_handler t) (command_of nd' (task_handle t))" by simp
  next
    fix a assume "a < length (nd_calls nd')"
    then consider "a < ?n" | "a = ?n" unfolding f(1) by fastforce
    then show "well_typed (command_of nd' a) (nd_handles nd a)"
      using old servedD(3) [OF assms(2)] new by cases simp_all
  next
    fix a v assume "a < length (nd_calls nd')" and r: "call_result (nd_calls nd' ! a) = Some (Inr v)"
    then consider "a < ?n" | "a = ?n" unfolding f(1) by fastforce
    then show "has_result_type (command_of nd' a) v"
      using old servedD(4) [OF assms(2)] new r by cases (simp_all add: call_new_def)
  qed
qed

text \<open>A step of one call, which keeps its command.\<close>

lemma served_one:
  assumes "served nd" and "live nd a" and "call_command c = command_of nd a"
    and "well_typed (command_of nd a) h"
    and "\<And>v. call_result c = Some (Inr v) \<Longrightarrow> has_result_type (command_of nd a) v"
  shows "served (set_handle a h (set_call a c nd))"
proof -
  let ?nd = "set_handle a h (set_call a c nd)"
  have a: "a < length (nd_calls nd)" using assms(2) by (simp add: live_def)
  have k: "command_of ?nd b = command_of nd b" for b
    using assms(3) a by (cases "b = a") simp_all
  show ?thesis
    unfolding served_def k
    using servedD [OF assms(1)] assms(4,5) a by (auto simp: nth_list_update)
qed

lemma served_submitted:
  assumes "served nd" and "task_handler t = command_of nd (task_handle t)"
  shows "served (nd\<lparr>nd_queue := nd_queue nd @ [t], nd_submitted := s\<rparr>)"
  using assms by (auto simp: served_def)

lemma view_command:
  assumes "has_view nd a" and "cf_handler (call_future (nd_calls nd ! a)) = Some cmd"
  shows "cmd = command_of nd a"
proof -
  obtain s where r: "creach (command_of nd a) s" and v: "call_view nd a s" using assms(1) by (auto simp: has_view_def)
  from creach_cinv [OF r] call_viewD(1) [OF v] assms(2) show ?thesis by (simp add: cinv_def)
qed

lemma view_waiting:
  assumes "has_view nd a" and "live nd a"
  shows "call_result (nd_calls nd ! a) = None"
proof -
  obtain s where v: "call_view nd a s" using assms(1) by (auto simp: has_view_def)
  have "returned s = None" using call_viewD(5) [OF v] call_viewD(6) [OF v] assms(2) unfolding live_def by blast
  with call_viewD(4) [OF v] show ?thesis by simp
qed

lemma set_call_twice [simp]: "set_call a c (set_call a d nd) = set_call a c nd"
  by (simp add: set_call_def)

lemma set_handle_twice [simp]: "set_handle a h (set_call a c (set_handle a g nd)) = set_handle a h (set_call a c nd)"
  by (simp add: set_handle_def set_call_def)

lemma well_typed_drop [simp]: "well_typed c (cf_drop h) = well_typed c h"
  by (simp add: well_typed_def cf_drop_def)

lemma served_poll_submit:
  assumes "served nd" and "has_view nd a" and "live nd a"
  shows "served (poll_submit a nd)"
proof -
  let ?c = "nd_calls nd ! a"
  have a: "a < length (nd_calls nd)" using assms(3) by (simp add: live_def)
  note w = servedD(3) [OF assms(1) a] and res = servedD(4) [OF assms(1) a]
  from a show ?thesis
  proof (cases rule: poll_submit_cases)
    case (rejected cmd)
    show ?thesis unfolding rejected(4) by (rule served_one [OF assms(1,3)]) (use w in simp_all)
  next
    case (submitted cmd)
    let ?c' = "?c\<lparr>call_future := \<lparr>cf_handler = None\<rparr>, call_polling := True,
        call_seen := Some (length (woken (nd_handles nd a)))\<rparr>"
    have sv: "served (set_call a ?c' nd)"
      using served_one [OF assms(1,3), of ?c' "nd_handles nd a"] w res by (simp add: set_handle_id)
    have "cmd = command_of nd a" using view_command [OF assms(2)] submitted(1) by simp
    then have "task_handler \<lparr>task_handler = cmd, task_handle = a\<rparr> = command_of (set_call a ?c' nd) a"
      using a by simp
    with served_submitted [OF sv, of "\<lparr>task_handler = cmd, task_handle = a\<rparr>" "nd_submitted nd @ [a]"]
    show ?thesis unfolding submitted(4) by simp
  next
    case again
    show ?thesis
      unfolding again(3)
      by (subst set_handle_id [symmetric], rule served_one [OF assms(1,3)]) (use w res in simp_all)
  qed
qed

lemma served_poll_handle:
  assumes "served nd" and "live nd a"
  shows "served (poll_handle a w nd)"
proof -
  let ?c = "nd_calls nd ! a"
  have a: "a < length (nd_calls nd)" using assms(2) by (simp add: live_def)
  note wt = servedD(3) [OF assms(1) a] and res = servedD(4) [OF assms(1) a]
  show ?thesis
  proof (cases "handle_result (nd_handles nd a)")
    case (Some r)
    let ?c' = "?c\<lparr>call_polling := False, call_result := Some r, call_dropped := True\<rparr>"
    let ?h = "cf_drop ((nd_handles nd a)\<lparr>state := (state (nd_handles nd a))\<lparr>result := None\<rparr>\<rparr>)"
    have "poll_handle a w nd = set_handle a ?h (set_call a ?c' nd)"
      by (rule poll_handle_ready [OF Some])
    moreover have "served (set_handle a ?h (set_call a ?c' nd))"
      by (rule served_one [OF assms]) (use wt Some in \<open>simp_all add: well_typed_def cf_drop_def\<close>)
    ultimately show ?thesis by simp
  next
    case None
    let ?c' = "?c\<lparr>call_polling := False\<rparr>"
    let ?h = "(nd_handles nd a)\<lparr>state := (state (nd_handles nd a))\<lparr>waker := Some w\<rparr>\<rparr>"
    have "poll_handle a w nd = set_handle a ?h (set_call a ?c' nd)"
      by (rule poll_handle_pending [OF None])
    moreover have "served (set_handle a ?h (set_call a ?c' nd))"
      by (rule served_one [OF assms]) (use res None in \<open>simp_all add: well_typed_def\<close>)
    ultimately show ?thesis by simp
  qed
qed

lemma served_drop_call:
  assumes "served nd" and "live nd a"
  shows "served (drop_call elapsed a nd)"
proof -
  have a: "a < length (nd_calls nd)" using assms(2) by (simp add: live_def)
  show ?thesis unfolding drop_call_def
    by (rule served_one [OF assms]) (use servedD(3,4) [OF assms(1) a] in simp_all)
qed

lemma served_kinds:
  assumes "served nd" and "node_inv nd"
  shows "kinds_ok (\<lambda>a. if a < length (nd_calls nd) then command_of nd a else HGetListenAddrs)
           (el_active_commands (nd_loop nd)) (nd_handles nd)"
  using servedD(2,3) [OF assms(1)] assms(2) active_handles_lt [OF assms(2)]
  unfolding kinds_ok_def node_inv_def by auto

lemma served_event:
  assumes "served nd" and "node_inv nd"
  shows "served (loop_handles env n (SwarmEvent e) nd)"
proof -
  let ?nd = "loop_handles env n (SwarmEvent e) nd"
  obtain cmds' r st' where c: "command_chain env 0 (el_active_commands (nd_loop nd)) (Some e) (nd_handles nd) = (cmds', r, st')"
    by (metis prod_cases3)
  have k: "el_active_commands (nd_loop ?nd) = cmds'" "nd_handles ?nd = st'" "nd_calls ?nd = nd_calls nd" "nd_queue ?nd = nd_queue nd"
    using c by (simp_all add: loop_handles_eq handle_swarm_event_frame after_chain_commands)
  have "set (map task_handle cmds') \<subseteq> set (map task_handle (el_active_commands (nd_loop nd)))"
    using chain_effect(1) [OF c] by (metis set_mset_mono set_mset_mset)
  then have lt: "task_handle t < length (nd_calls nd)" if "t \<in> set cmds'" for t
    using that active_handles_lt [OF assms(2)] by fastforce
  from chain_kinds [OF c served_kinds [OF assms]] lt servedD(1,4) [OF assms(1)]
  show ?thesis unfolding served_def kinds_ok_def k by (auto split: if_splits)
qed

lemma served_command:
  assumes "served nd" and "node_inv nd" and "nd_queue nd = cmd # rest"
  shows "served (loop_handles env n (CommandReceived cmd)
           (nd\<lparr>nd_queue := rest, nd_executed := nd_executed nd @ [task_handle cmd]\<rparr>))" (is "served ?nd")
proof -
  let ?a = "task_handle cmd"
  obtain c' sw' h' where r: "handler_run env (task_handler cmd) (el_swarm (nd_loop nd)) (nd_handles nd ?a) = (c', sw', h')"
    by (metis prod_cases3)
  have k: "el_active_commands (nd_loop ?nd) = el_active_commands (nd_loop nd) @ [cmd\<lparr>task_handler := snd (handler_take_relay c')\<rparr>]"
    "nd_handles ?nd = (nd_handles nd)(?a := h')" "nd_calls ?nd = nd_calls nd" "nd_queue ?nd = rest"
    using handle_command_frame [OF r] by (simp_all add: loop_handles_eq)
  have a: "?a < length (nd_calls nd)" using outstanding_lt [OF assms(2)] assms(3) by simp
  have cmd: "task_handler cmd = command_of nd ?a" using servedD(1) [OF assms(1)] assms(3) by simp
  have "well_typed (task_handler cmd) (nd_handles nd ?a)" using servedD(3) [OF assms(1) a] cmd by simp
  note rk = run_kind [OF r this]
  have "same_kind (snd (handler_take_relay c')) (command_of nd ?a)"
    using same_kind_trans [OF take_relay_kind rk(1)] cmd by simp
  with rk(2) cmd servedD [OF assms(1)] assms(3) show ?thesis unfolding served_def k by auto
qed

lemma served_retain:
  assumes "served nd"
  shows "served (nd\<lparr>nd_loop := retain_active (nd_loop nd), nd_selecting := True\<rparr>)"
proof -
  have h: "el_handles (retain_active (nd_loop nd)) = nd_handles nd" by (simp add: retain_active_def)
  from assms show ?thesis by (auto simp: served_def retain_active_commands h)
qed

lemma node_act_served:
  assumes "served nd" and "node_inv nd" and "all_views nd" and "node_act env act nd = Some nd'"
  shows "served nd'"
  using assms(4)
proof (cases rule: node_act_commands)
  case new
  then show ?thesis by (intro served_new [OF assms(2,1)])
next
  case submit
  then show ?thesis using assms by (auto intro: served_poll_submit simp: all_views_def live_def)
next
  case handle
  then show ?thesis using assms by (auto intro: served_poll_handle)
next
  case drop
  then show ?thesis using assms by (auto intro: served_drop_call)
next
  case retain
  then show ?thesis using assms by (auto intro: served_retain)
next
  case command
  then show ?thesis using assms by (auto intro: served_command)
next
  case event
  then show ?thesis using assms by (auto intro: served_event)
next
  case closed
  then show ?thesis using assms(1) by (simp add: served_def)
next
  case other
  then show ?thesis by (intro served_same [OF assms(1)])
qed

lemma node_init_served:
  assumes "node_start env None mdns_ok valid_protocol accept c cfg = Some (Inr s)"
  shows "served (node_init s)"
  by (simp add: served_def node_init_def started_loop_idle [OF assms])

interpretation node_served: node_invariant env "\<lambda>nd. node_inv nd \<and> all_views nd" served for env
  by unfold_locales (auto intro: node_reach_inv node_reach_views node_init_served node_act_served)

lemma node_reach_served: "node_reach env nd \<Longrightarrow> served nd"
  by (rule node_served.holds)

end
