(* ===== verification/Node_Service.thy ===== *)
theory Node_Service
  imports Node_Typing
begin

text \<open>
  The service the running node gives: how a waiting call gets on, what a stalled event loop cannot do, and the
  properties of the node as one system.
\<close>

section \<open>The loop empties the command queue\<close>

lemma stalled_same: "same_queues nd nd' \<Longrightarrow> loop_stalled nd' = loop_stalled nd"
  by (simp add: same_queues_def loop_stalled_def events_waiting_def)

lemma retain_step:
  assumes "nd_running nd" and "\<not> loop_stalled nd"
  shows "\<exists>as nd'. set as \<subseteq> {LoopRetain} \<and> length as \<le> 1 \<and> node_acts env as nd = Some nd' \<and> nd_selecting nd'
    \<and> nd_running nd' \<and> \<not> loop_stalled nd' \<and> nd_queue nd' = nd_queue nd \<and> nd_executed nd' = nd_executed nd
    \<and> nd_submitted nd' = nd_submitted nd \<and> nd_calls nd' = nd_calls nd"
proof (cases "nd_selecting nd")
  case True
  with assms show ?thesis by (intro exI [of _ "[]"] exI [of _ nd]) simp
next
  case False
  let ?nd = "nd\<lparr>nd_loop := retain_active (nd_loop nd), nd_selecting := True\<rparr>"
  have "loop_stalled ?nd = loop_stalled nd" by (rule stalled_same) (simp add: same_queues_def retain_active_def)
  with False assms show ?thesis by (intro exI [of _ "[LoopRetain]"] exI [of _ ?nd]) simp
qed

lemma node_acts_append:
  "node_acts env (as @ bs) nd = (case node_acts env as nd of None \<Rightarrow> None | Some nd' \<Rightarrow> node_acts env bs nd')"
  by (induction as arbitrary: nd) (simp_all split: option.split)

lemma command_step:
  assumes "nd_running nd" and "nd_selecting nd" and "\<not> loop_stalled nd" and "nd_queue nd = cmd # rest"
  shows "\<exists>nd'. node_act env (LoopCommand n) nd = Some nd' \<and> nd_running nd' \<and> \<not> loop_stalled nd'
    \<and> nd_queue nd' = rest \<and> nd_executed nd' = nd_executed nd @ [task_handle cmd]
    \<and> nd_submitted nd' = nd_submitted nd \<and> nd_calls nd' = nd_calls nd"
proof -
  let ?nd = "loop_handles env n (CommandReceived cmd)
                 (nd\<lparr>nd_queue := rest, nd_executed := nd_executed nd @ [task_handle cmd]\<rparr>)"
  have "loop_stalled ?nd = loop_stalled nd" by (rule stalled_same) (simp add: same_queues_def loop_handles_eq)
  with assms show ?thesis by (intro exI [of _ ?nd]) (simp add: loop_can_select_def loop_handles_eq)
qed

lemma queue_drains:
  assumes "nd_running nd" and "\<not> loop_stalled nd"
  shows "\<exists>as nd'. set as \<subseteq> {LoopRetain, LoopCommand n} \<and> length as \<le> 2 * length (nd_queue nd)
    \<and> node_acts env as nd = Some nd' \<and> nd_queue nd' = []
    \<and> nd_executed nd' = nd_executed nd @ map task_handle (nd_queue nd)
    \<and> nd_submitted nd' = nd_submitted nd \<and> nd_calls nd' = nd_calls nd \<and> nd_running nd' \<and> \<not> loop_stalled nd'"
  using assms
proof (induction "nd_queue nd" arbitrary: nd)
  case Nil
  then show ?case by (intro exI [of _ "[]"] exI [of _ nd]) simp
next
  case (Cons cmd rest)
  from retain_step [OF Cons.prems, of env] obtain as1 nd1 where r: "set as1 \<subseteq> {LoopRetain}" "length as1 \<le> 1"
    "node_acts env as1 nd = Some nd1" "nd_selecting nd1" "nd_running nd1" "\<not> loop_stalled nd1" "nd_queue nd1 = cmd # rest"
    "nd_executed nd1 = nd_executed nd" "nd_submitted nd1 = nd_submitted nd" "nd_calls nd1 = nd_calls nd"
    unfolding Cons.hyps(2) by blast
  from command_step [OF r(5,4,6,7), of env n] obtain nd2 where c: "node_act env (LoopCommand n) nd1 = Some nd2"
    "nd_running nd2" "\<not> loop_stalled nd2" "nd_queue nd2 = rest" "nd_executed nd2 = nd_executed nd @ [task_handle cmd]"
    "nd_submitted nd2 = nd_submitted nd" "nd_calls nd2 = nd_calls nd"
    unfolding r(8-10) by blast
  from Cons.hyps(1) [OF c(4) [symmetric] c(2,3)] obtain as2 nd' where i: "set as2 \<subseteq> {LoopRetain, LoopCommand n}"
    "length as2 \<le> 2 * length (nd_queue nd2)" "node_acts env as2 nd2 = Some nd'" "nd_queue nd' = []"
    "nd_executed nd' = nd_executed nd2 @ map task_handle (nd_queue nd2)" "nd_submitted nd' = nd_submitted nd2"
    "nd_calls nd' = nd_calls nd2" "nd_running nd'" "\<not> loop_stalled nd'"
    by blast
  show ?case
  proof (intro exI [of _ "as1 @ LoopCommand n # as2"] exI [of _ nd'] conjI)
    show "set (as1 @ LoopCommand n # as2) \<subseteq> {LoopRetain, LoopCommand n}" using r(1) i(1) by auto
    show "length (as1 @ LoopCommand n # as2) \<le> 2 * length (nd_queue nd)"
      using r(2) i(2) unfolding Cons.hyps(2) [symmetric] c(4) by simp
    show "node_acts env (as1 @ LoopCommand n # as2) nd = Some nd'" using r(3) c(1) i(3) by (simp add: node_acts_append)
    show "nd_executed nd' = nd_executed nd @ map task_handle (nd_queue nd)"
      unfolding Cons.hyps(2) [symmetric] using i(5) c(4,5) by simp
  qed (use i c in simp_all)
qed

text \<open>A waiting call that was submitted and is of an immediate command has its result once nothing is queued.\<close>

lemma immediate_answered:
  assumes "node_inv nd" and "served nd" and "nd_queue nd = []" and "live nd a" and "a \<in> set (nd_submitted nd)"
    and "immediate (command_of nd a)"
  shows "handle_result (nd_handles nd a) \<noteq> None"
proof -
  have L: "a \<in> waiting_calls nd" using assms(4) by (simp add: waiting_calls_def)
  show ?thesis
  proof (cases "a \<in> set (outstanding nd)")
    case True
    then obtain t where t: "t \<in> set (el_active_commands (nd_loop nd))" "task_handle t = a"
      using assms(3) by (auto simp: outstanding_def)
    have "immediate (task_handler t)" using servedD(2) [OF assms(2) t(1)] assms(6) t(2) by (simp add: same_kind_def)
    with t L assms(1) show ?thesis unfolding node_inv_def attended_def by blast
  next
    case False
    with L assms(1,5) show ?thesis unfolding node_inv_def answered_def by blast
  qed
qed

text \<open>The next poll of a call whose result has arrived returns it.\<close>

definition one_poll :: "('req, 'resp, 'stats) node \<Rightarrow> nat \<Rightarrow> waker \<Rightarrow> ('req, 'resp, 'stats) node_action list" where
  "one_poll nd a w = (if call_polling (nd_calls nd ! a) then [PollHandle a w] else [PollSubmit a, PollHandle a w])"

lemma poll_returns:
  assumes "node_inv nd" and "live nd a" and "a \<in> set (nd_submitted nd)" and "handle_result (nd_handles nd a) = Some r"
  shows "\<exists>nd'. node_acts env (one_poll nd a w) nd = Some nd' \<and> call_result (nd_calls nd' ! a) = Some r
    \<and> length (nd_calls nd') = length (nd_calls nd)
    \<and> el_swarm (nd_loop nd') = el_swarm (nd_loop nd) \<and> el_events (nd_loop nd') = el_events (nd_loop nd)
    \<and> (\<forall>b. b \<noteq> a \<longrightarrow> nd_calls nd' ! b = nd_calls nd ! b \<and> nd_handles nd' b = nd_handles nd b)"
proof -
  let ?c = "nd_calls nd ! a"
  have a: "a < length (nd_calls nd)" "\<not> call_dropped ?c" using assms(2) by (simp_all add: live_def)
  have "call_ok (nd_handles nd a) (set (nd_submitted nd)) a ?c" using inv_call_ok [OF assms(1) a(1)] .
  then have f: "cf_handler (call_future ?c) = None" using assms(3) by (simp add: call_ok_def)
  have r: "call_result (nd_calls (poll_handle a w nd1) ! a) = Some r \<and> length (nd_calls (poll_handle a w nd1)) = length (nd_calls nd1)
    \<and> el_swarm (nd_loop (poll_handle a w nd1)) = el_swarm (nd_loop nd1) \<and> el_events (nd_loop (poll_handle a w nd1)) = el_events (nd_loop nd1)
    \<and> (\<forall>b. b \<noteq> a \<longrightarrow> nd_calls (poll_handle a w nd1) ! b = nd_calls nd1 ! b \<and> nd_handles (poll_handle a w nd1) b = nd_handles nd1 b)"
    if "handle_result (nd_handles nd1 a) = Some r" "a < length (nd_calls nd1)" for nd1 :: "('a, 'b, 'c) node"
    using that by (simp add: poll_handle_ready set_handle_def set_call_def)
  show ?thesis
  proof (cases "call_polling ?c")
    case True
    with assms(2,4) a r show ?thesis by (simp add: one_poll_def)
  next
    case False
    note s = poll_submit_again [OF f]
    have "live (poll_submit a nd) a" "call_polling (nd_calls (poll_submit a nd) ! a)"
      "handle_result (nd_handles (poll_submit a nd) a) = Some r" "a < length (nd_calls (poll_submit a nd))"
      "length (nd_calls (poll_submit a nd)) = length (nd_calls nd)" "nd_loop (poll_submit a nd) = nd_loop nd"
      "\<And>b. b \<noteq> a \<Longrightarrow> nd_calls (poll_submit a nd) ! b = nd_calls nd ! b"
      using a assms(4) by (simp_all add: s live_def)
    with assms(2) False r show ?thesis by (simp add: one_poll_def)
  qed
qed

text \<open>A waiting call whose result has arrived is being polled, or its task has been told to poll it.\<close>

lemma result_noticed:
  assumes "has_view nd a" and "live nd a" and "handle_result (nd_handles nd a) = Some r"
  shows "call_polling (nd_calls nd ! a) \<or> told_to_poll nd a"
proof -
  obtain s where s: "creach (command_of nd a) s" and v: "call_view nd a s" using assms(1) by (auto simp: has_view_def)
  note vd = call_viewD [OF v]
  have d: "\<not> dropped s" using vd(5) assms(2) by (simp add: live_def)
  then have "returned s = None" using vd(6) by blast
  with creach_cinv [OF s] d vd(2) assms(3) have "polling s \<or> scheduled s" by (auto simp: cinv_defs)
  with vd(3,8) show ?thesis by blast
qed

text \<open>The application takes the events that wait; after the end of the loop, its receiver then says so.\<close>

lemma receive_events:
  assumes "nd_receiver nd" and "k \<le> events_waiting nd"
  shows "node_acts env (replicate k ReceiveEvent) nd = Some (nd\<lparr>nd_received := nd_received nd + k\<rparr>)"
  using assms
proof (induction k arbitrary: nd)
  case (Suc k)
  then have "node_act env ReceiveEvent nd = Some (nd\<lparr>nd_received := Suc (nd_received nd)\<rparr>)" by simp
  with Suc.IH [of "nd\<lparr>nd_received := Suc (nd_received nd)\<rparr>"] Suc.prems show ?case by (simp add: events_waiting_def)
qed simp

lemma application_sees_the_end:
  assumes "node_reach env nd" and "\<not> nd_running nd" and "nd_receiver nd"
  shows "\<exists>nd'. node_acts env (replicate (events_waiting nd) ReceiveEvent) nd = Some nd' \<and> fst (event_recv nd') = Ready None"
  using receive_events [OF assms(3) order_refl, of env] node_reach_queues [OF assms(1)] assms(2)
  by (auto simp: recv_over events_waiting_def queues_ok_def)

section \<open>Timeouts\<close>

definition timeouts_ok :: "('req, 'resp, 'stats) node \<Rightarrow> bool" where
  "timeouts_ok nd \<longleftrightarrow>
     (\<forall>c \<in> set (nd_calls nd). call_timed_out c \<longrightarrow> is_request (call_command c) \<and> call_dropped c \<and> call_result c = None)"

lemma timeouts_ok_same: "timeouts_ok nd \<Longrightarrow> nd_calls nd' = nd_calls nd \<Longrightarrow> timeouts_ok nd'"
  by (simp add: timeouts_ok_def)

lemma timeouts_ok_update:
  assumes "timeouts_ok nd" and "nd_calls nd' = (nd_calls nd)[a := c]"
    and "call_timed_out c \<Longrightarrow> is_request (call_command c) \<and> call_dropped c \<and> call_result c = None"
  shows "timeouts_ok nd'"
  using assms by (auto simp: timeouts_ok_def dest!: set_update_subset_insert [THEN subsetD])

lemma live_not_timed_out:
  assumes "timeouts_ok nd" and "live nd a"
  shows "\<not> call_timed_out (nd_calls nd ! a)"
  using assms by (auto simp: timeouts_ok_def live_def)

lemma timeouts_ok_act:
  assumes "all_views nd" and "timeouts_ok nd" and "node_act env act nd = Some nd'"
  shows "timeouts_ok nd'"
  using assms(3)
proof (cases rule: node_act_commands)
  case (new cmd)
  with assms(2) show ?thesis by (auto simp: timeouts_ok_def same_commands_def call_new_def)
next
  case (submit a)
  then have "a < length (nd_calls nd)" by (simp add: live_def)
  then show ?thesis
    by (cases rule: poll_submit_cases)
       (use live_not_timed_out [OF assms(2) submit(1)] submit(3) in
         \<open>auto intro!: timeouts_ok_update [OF assms(2)] simp: set_call_def set_handle_def\<close>)
next
  case (handle a w)
  show ?thesis
    by (cases "handle_result (nd_handles nd a)")
       (use live_not_timed_out [OF assms(2) handle(1)] handle(3) in
         \<open>auto intro!: timeouts_ok_update [OF assms(2)] simp: poll_handle_ready poll_handle_pending set_call_def set_handle_def\<close>)
next
  case (drop a elapsed)
  have "has_view nd a" using assms(1) drop(1) by (simp add: all_views_def live_def)
  note v = view_waiting [OF this drop(1)]
  have c: "nd_calls nd' = (nd_calls nd)[a := (nd_calls nd ! a)\<lparr>call_dropped := True, call_timed_out := elapsed\<rparr>]"
    by (simp add: drop(3) drop_call_def)
  show ?thesis by (rule timeouts_ok_update [OF assms(2) c]) (use v drop(4) in simp)
next
  case other
  then show ?thesis by (intro timeouts_ok_same [OF assms(2)]) (simp add: same_commands_def)
qed (simp_all add: timeouts_ok_same [OF assms(2)])

lemma node_init_timeouts: "timeouts_ok (node_init s)"
  by (simp add: timeouts_ok_def node_init_def)

interpretation timeouts: node_invariant env all_views timeouts_ok for env
  by unfold_locales (auto intro: node_reach_views node_init_timeouts timeouts_ok_act)

lemma node_reach_timeouts: "node_reach env nd \<Longrightarrow> timeouts_ok nd"
  by (rule timeouts.holds)

section \<open>A stalled loop\<close>

definition loop_work where
  "loop_work nd = (nd_executed nd, el_swarm (nd_loop nd), el_active_commands (nd_loop nd))"

definition unanswered :: "('req, 'resp, 'stats) node \<Rightarrow> nat \<Rightarrow> bool" where
  "unanswered nd a \<longleftrightarrow>
     a \<in> set (nd_submitted nd) \<and> call_result (nd_calls nd ! a) = None \<and> handle_result (nd_handles nd a) = None"

lemma unanswered_poll_submit:
  assumes "node_inv nd" and "live nd b" and "unanswered nd a"
  shows "unanswered (poll_submit b nd) a"
proof -
  have b: "b < length (nd_calls nd)" using assms(2) by (simp add: live_def)
  have ok: "call_ok (nd_handles nd b) (set (nd_submitted nd)) b (nd_calls nd ! b)" using inv_call_ok [OF assms(1) b] .
  obtain e sent fut where s: "cf_submit (command_slot nd) (call_future (nd_calls nd ! b)) = (e, sent, fut)" by (metis prod_cases3)
  have "b \<noteq> a" if "e \<noteq> None"
    using that s ok assms(3) by (auto simp: cf_submit_def call_ok_def unanswered_def split: option.splits)
  with assms(3) b s show ?thesis
    by (cases e; cases sent; cases "b = a") (auto simp: poll_submit_def call_return_def Let_def unanswered_def)
qed

lemma unanswered_poll_handle:
  assumes "live nd b" and "unanswered nd a"
  shows "unanswered (poll_handle b w nd) a"
proof -
  have b: "b < length (nd_calls nd)" using assms(1) by (simp add: live_def)
  obtain p h where s: "handle_poll w (nd_handles nd b) = (p, h)" by fastforce
  show ?thesis
    using assms(2) b s
    by (cases "b = a"; cases p)
       (auto simp: poll_handle_def call_return_def unanswered_def handle_poll_def split: option.splits)
qed

lemma loop_work_set [simp]:
  "loop_work (set_handle a h nd) = loop_work nd" "loop_work (set_call a c nd) = loop_work nd"
  "loop_work (set_dc w nd) = loop_work nd"
  by (simp_all add: loop_work_def set_handle_def set_call_def set_dc_def)

lemma loop_stalled_set [simp]:
  "loop_stalled (set_handle a h nd) = loop_stalled nd" "loop_stalled (set_call a c nd) = loop_stalled nd"
  "loop_stalled (set_dc w nd) = loop_stalled nd"
  by (simp_all add: loop_stalled_def events_waiting_def set_handle_def set_call_def set_dc_def)

lemma poll_submit_work:
  "loop_work (poll_submit a nd) = loop_work nd" "loop_stalled (poll_submit a nd) = loop_stalled nd"
proof -
  obtain e sent fut where s: "cf_submit (command_slot nd) (call_future (nd_calls nd ! a)) = (e, sent, fut)" by (metis prod_cases3)
  show "loop_work (poll_submit a nd) = loop_work nd"
    by (cases e; cases sent)
       (simp_all add: poll_submit_def s call_return_def Let_def loop_work_def set_call_def set_handle_def)
  show "loop_stalled (poll_submit a nd) = loop_stalled nd" by (rule stalled_same [OF poll_submit_queues])
qed

lemma poll_handle_work:
  "loop_work (poll_handle a w nd) = loop_work nd" "loop_stalled (poll_handle a w nd) = loop_stalled nd"
  by (simp_all add: poll_handle_def call_return_def split: prod.split poll.split)

lemma stalled_act:
  assumes "node_inv nd" and "loop_stalled nd" and "node_act env act nd = Some nd'"
    and "act \<noteq> ReceiveEvent" and "act \<noteq> DropReceiver"
  shows "loop_stalled nd'" and "loop_work nd' = loop_work nd" and "unanswered nd a \<Longrightarrow> unanswered nd' a"
proof -
  have lt: "a < length (nd_calls nd)" if "unanswered nd a"
    using that assms(1) unfolding unanswered_def node_inv_def by blast
  have "loop_stalled nd' \<and> loop_work nd' = loop_work nd \<and> (unanswered nd a \<longrightarrow> unanswered nd' a)"
  proof (cases act)
    case (NewCall m)
    with assms(2,3) lt show ?thesis
      by (auto simp: loop_stalled_def events_waiting_def loop_work_def unanswered_def nth_append split: if_splits)
  next
    case (NewResponse i resp)
    with assms(2,3) lt show ?thesis
      by (auto simp: loop_stalled_def events_waiting_def loop_work_def unanswered_def nth_append
          split: if_splits prod.splits)
  next
    case (PollSubmit b)
    with assms(3) have "live nd b" "nd' = poll_submit b nd" by (auto split: if_splits)
    with unanswered_poll_submit [OF assms(1)] assms(2) show ?thesis by (simp add: poll_submit_work)
  next
    case (PollHandle b w)
    with assms(3) have "live nd b" "nd' = poll_handle b w nd" by (auto split: if_splits)
    with unanswered_poll_handle [of nd b a w] assms(2) show ?thesis by (auto simp: poll_handle_work)
  next
    case (DropCall b)
    with assms(3) have "live nd b" "nd' = drop_call False b nd" by (auto split: if_splits)
    with assms(2) show ?thesis by (cases "b = a") (auto simp: drop_call_def unanswered_def cf_drop_def live_def)
  next
    case (TimeoutCall b)
    with assms(3) have "live nd b" "nd' = drop_call True b nd" by (auto split: if_splits)
    with assms(2) show ?thesis by (cases "b = a") (auto simp: drop_call_def unanswered_def cf_drop_def live_def)
  next
    case (PollOpen i out)
    with assms(2,3) show ?thesis
      by (auto simp: loop_stalled_def events_waiting_def loop_work_def unanswered_def set_dc_def
          split: if_splits prod.splits option.splits)
  next
    case ReceiveChannel
    with assms(2,3) show ?thesis
      by (auto simp: loop_stalled_def events_waiting_def loop_work_def unanswered_def split: if_splits list.splits)
  next
    case (LoopCommand n)
    with assms(2,3) show ?thesis by (auto simp: loop_can_select_def split: if_splits list.splits)
  qed (use assms(2-5) in \<open>auto simp: loop_can_select_def loop_stalled_def events_waiting_def loop_work_def unanswered_def
         set_dc_def split: if_splits\<close>)
  then show "loop_stalled nd'" and "loop_work nd' = loop_work nd" and "unanswered nd a \<Longrightarrow> unanswered nd' a" by blast+
qed

lemma stalled_acts:
  assumes "node_inv nd" and "loop_stalled nd" and "node_acts env as nd = Some nd'"
    and "ReceiveEvent \<notin> set as" and "DropReceiver \<notin> set as"
  shows "loop_stalled nd' \<and> loop_work nd' = loop_work nd \<and> (unanswered nd a \<longrightarrow> unanswered nd' a)"
  using assms
proof (induction as arbitrary: nd)
  case (Cons x as)
  obtain nd1 where x: "node_act env x nd = Some nd1" "node_acts env as nd1 = Some nd'"
    using Cons.prems(3) by (auto split: option.splits)
  have n: "x \<noteq> ReceiveEvent" "x \<noteq> DropReceiver" using Cons.prems(4,5) by auto
  note st = stalled_act [OF Cons.prems(1,2) x(1) n]
  from Cons.IH [OF node_act_inv [OF Cons.prems(1) x(1)] st(1) x(2)] Cons.prems(4,5) st(2,3) show ?case by simp
qed simp

section \<open>Runs of a node\<close>

text \<open>A freshly started node, and one on which \<open>k\<close> calls have been submitted while the loop did nothing.\<close>

definition untouched :: "('req, 'resp) client_call \<Rightarrow> nat \<Rightarrow> ('req, 'resp, 'stats) node \<Rightarrow> bool" where
  "untouched m k nd \<longleftrightarrow>
     nd_running nd \<and> \<not> nd_selecting nd \<and> length (nd_queue nd) = k \<and> length (nd_calls nd) = k \<and> nd_clients nd = 1
   \<and> nd_submitted nd = [0..<k] \<and> nd_executed nd = [] \<and> nd_received nd = 0 \<and> nd_receiver nd
   \<and> el_events (nd_loop nd) = [] \<and> el_active_commands (nd_loop nd) = [] \<and> nd_handles nd = (\<lambda>_. handle_new)
   \<and> (\<forall>a < k. nd_calls nd ! a =
        \<lparr>call_command = client_command m, call_future = \<lparr>cf_handler = None\<rparr>,
         call_polling = True, call_seen = Some 0, call_result = None, call_dropped = False, call_timed_out = False\<rparr>)"

abbreviation asked :: "nat \<Rightarrow> (string, string, nat) node \<Rightarrow> bool" where
  "asked \<equiv> untouched (IsConnected (PeerId 1))"

lemma started_untouched: "\<exists>nd. node_trace str_env [] nd \<and> untouched m 0 nd"
proof -
  obtain s where s: "node_start str_env None True (\<lambda>p. True) (\<lambda>done q. q \<notin> set done) 0 sample_config = Some (Inr s)"
    using sample_started by blast
  have "untouched m 0 (node_init s)" by (simp add: untouched_def node_init_def started_loop_idle [OF s])
  with trace_started [OF s] show ?thesis by blast
qed

lemma untouched_submit:
  assumes "untouched m k nd" and "k < 32"
  shows "\<exists>nd'. node_acts env [NewCall m, PollSubmit k] nd = Some nd' \<and> untouched m (Suc k) nd'
    \<and> el_swarm (nd_loop nd') = el_swarm (nd_loop nd)"
proof -
  let ?cmd = "client_command m"
  let ?nd1 = "nd\<lparr>nd_calls := nd_calls nd @ [call_new ?cmd]\<rparr>"
  have a1: "node_act env (NewCall m) nd = Some ?nd1" using assms(1) by (simp add: untouched_def)
  have slot: "command_slot ?nd1 = SendOk"
    using assms(1,2) by (simp add: untouched_def command_slot_def slot_of_def COMMAND_CHANNEL_SIZE_def)
  have c: "nd_calls ?nd1 ! k = call_new ?cmd" using assms(1) by (simp add: untouched_def nth_append)
  have a2: "node_act env (PollSubmit k) ?nd1 = Some (poll_submit k ?nd1)"
    using assms(1) c by (simp add: untouched_def live_def call_new_def)
  have s: "cf_submit SendOk (call_future (call_new ?cmd)) = (None, Some ?cmd, \<lparr>cf_handler = None\<rparr>)"
    by (simp add: cf_submit_def call_new_def command_future_new_def is_err_def)
  have h: "woken (nd_handles ?nd1 k) = []" using assms(1) by (simp add: untouched_def)
  let ?c = "\<lparr>call_command = ?cmd, call_future = \<lparr>cf_handler = None\<rparr>, call_polling = True, call_seen = Some 0,
      call_result = None, call_dropped = False, call_timed_out = False\<rparr>"
  have c': "(call_new ?cmd)\<lparr>call_future := \<lparr>cf_handler = None\<rparr>, call_polling := True, call_seen := Some (length [])\<rparr> = ?c"
    by (simp add: call_new_def)
  have p: "poll_submit k ?nd1 = (set_call k ?c ?nd1)
      \<lparr>nd_queue := nd_queue ?nd1 @ [\<lparr>task_handler = ?cmd, task_handle = k\<rparr>], nd_submitted := nd_submitted ?nd1 @ [k]\<rparr>"
    unfolding poll_submit_def c slot s h Let_def prod.case option.case c' by (rule refl)
  have "untouched m (Suc k) (poll_submit k ?nd1)"
    unfolding p using assms(1) by (auto simp: untouched_def set_call_def nth_append less_Suc_eq nth_list_update)
  moreover have "el_swarm (nd_loop (poll_submit k ?nd1)) = el_swarm (nd_loop nd)" unfolding p by (simp add: set_call_def)
  ultimately show ?thesis using a1 a2 by (intro exI [of _ "poll_submit k ?nd1"]) (simp del: node_act.simps)
qed

lemma untouched_reach: "k \<le> 32 \<Longrightarrow> \<exists>nd. node_reach str_env nd \<and> untouched m k nd"
proof (induction k)
  case 0
  show ?case using started_untouched [of m] node_trace_reach by blast
next
  case (Suc k)
  then obtain nd where "node_reach str_env nd" "untouched m k nd" by auto
  with untouched_submit [of m k nd str_env] Suc.prems node_reach_acts show ?case by (metis Suc_le_eq)
qed

lemma asked_reach: "k \<le> 32 \<Longrightarrow> \<exists>nd. node_reach str_env nd \<and> asked k nd"
  by (rule untouched_reach)

lemma untouched_queue:
  assumes "node_reach env nd" and "untouched m k nd"
  shows "map task_handle (nd_queue nd) = [0..<k]"
proof -
  have "nd_submitted nd = nd_executed nd @ map task_handle (nd_queue nd)"
    using node_reach_inv [OF assms(1)] unfolding node_inv_def in_order_def by blast
  moreover have "nd_submitted nd = [0..<k]" "nd_executed nd = []" using assms(2) by (simp_all add: untouched_def)
  ultimately show ?thesis by (metis append_Nil)
qed

text \<open>With no command active, a ping only adds one event.\<close>

definition sample_ping :: "(string, string, nat) swarm_event" where
  "sample_ping = Behaviour (PingEvent (PeerId 1) (Inr 0))"

lemma ping_turn:
  assumes "el_active_commands el = []"
  shows "handle_swarm_event str_env t sample_ping el =
    send_event (receiver_alive t) (PingSuccess (PeerId 1) 0) el"
  using assms by (cases el) (simp add: handle_swarm_event_def sample_ping_def chain_end(1) convert_to_node_event_def as_millis_u64_def Let_def)

definition pinged :: "('req, 'resp) client_call \<Rightarrow> nat \<Rightarrow> nat \<Rightarrow> ('req, 'resp, 'stats) node \<Rightarrow> bool" where
  "pinged c k m nd \<longleftrightarrow>
     nd_running nd \<and> \<not> nd_selecting nd \<and> length (nd_queue nd) = k \<and> length (nd_calls nd) = k
   \<and> nd_submitted nd = [0..<k] \<and> nd_received nd = 0 \<and> nd_receiver nd
   \<and> length (el_events (nd_loop nd)) = m \<and> el_active_commands (nd_loop nd) = [] \<and> nd_handles nd = (\<lambda>_. handle_new)
   \<and> (\<forall>a < k. call_result (nd_calls nd ! a) = None \<and> call_polling (nd_calls nd ! a) \<and> \<not> call_dropped (nd_calls nd ! a)
        \<and> \<not> call_timed_out (nd_calls nd ! a) \<and> call_seen (nd_calls nd ! a) = Some 0
        \<and> call_command (nd_calls nd ! a) = client_command c)"

lemma pinged_more:
  assumes "node_reach str_env nd" and "pinged c k m nd" and "m \<le> 64"
  shows "\<exists>nd'. node_reach str_env nd' \<and> pinged c k (Suc m) nd'"
proof -
  let ?nd1 = "nd\<lparr>nd_loop := retain_active (nd_loop nd), nd_selecting := True\<rparr>"
  let ?nd2 = "loop_handles str_env 0 (SwarmEvent sample_ping) ?nd1"
  have r: "retain_active (nd_loop nd) = nd_loop nd" using assms(2) by (simp add: pinged_def retain_active_def)
  have st: "\<not> loop_stalled nd" "\<not> loop_stalled ?nd1"
    using assms(2,3) by (simp_all add: r loop_stalled_def events_waiting_def pinged_def EVENT_CHANNEL_SIZE_def)
  have a1: "node_act str_env LoopRetain nd = Some ?nd1" using assms(2) st(1) by (simp add: pinged_def)
  have a2: "node_act str_env (LoopEvent 0 sample_ping) ?nd1 = Some ?nd2"
    using assms(2) st(2) by (simp add: pinged_def loop_can_select_def)
  have "pinged c k (Suc m) ?nd2"
    using assms(2) by (simp add: pinged_def loop_handles_eq r ping_turn turn_now_def send_event_def)
  with node_step [OF node_step [OF assms(1) a1] a2] show ?thesis by blast
qed

lemma pinged_reach:
  assumes "k \<le> 32"
  shows "m \<le> 65 \<Longrightarrow> \<exists>nd. node_reach str_env nd \<and> pinged c k m nd"
proof (induction m)
  case 0
  obtain nd where "node_reach str_env nd" "untouched c k nd" using untouched_reach [OF assms] by blast
  then show ?case by (intro exI [of _ nd]) (simp add: untouched_def pinged_def)
next
  case (Suc m)
  then obtain nd where "node_reach str_env nd" "pinged c k m nd" by auto
  moreover have "m \<le> 64" using Suc.prems by simp
  ultimately show ?case using pinged_more by blast
qed

text \<open>The one call of such a node is run and answered.\<close>

lemma asked_answered:
  "\<exists>nd x. node_reach str_env nd \<and> nd_running nd \<and> \<not> nd_selecting nd \<and> \<not> loop_stalled nd
     \<and> length (el_active_commands (nd_loop nd)) = 1 \<and> length (nd_calls nd) = 1 \<and> live nd 0 \<and> 0 \<in> set (nd_submitted nd)
     \<and> handle_result (nd_handles nd 0) = Some (Inr (OBool x))"
proof -
  obtain nd where nd: "node_reach str_env nd" "asked 1 nd" using asked_reach [of 1] by auto
  obtain t where t: "nd_queue nd = [t]" using nd(2) by (auto simp: untouched_def length_Suc_conv)
  have a: "task_handle t = 0" using untouched_queue [OF nd] t by simp
  have h: "task_handler t = HIsConnected \<lparr>is_connected_peer = PeerId 1\<rparr>"
    using servedD(1) [OF node_reach_served [OF nd(1)], of t] t a nd(2) by (simp add: untouched_def)
  let ?el = "retain_active (nd_loop nd)"
  let ?nd1 = "nd\<lparr>nd_loop := ?el, nd_selecting := True\<rparr>"
  let ?nd2 = "loop_handles str_env 0 (CommandReceived t) (?nd1\<lparr>nd_queue := [], nd_executed := nd_executed ?nd1 @ [task_handle t]\<rparr>)"
  have el: "el_events ?el = []" "el_handles ?el = (\<lambda>_. handle_new)" "nd_received nd = 0" "nd_running nd" "\<not> nd_selecting nd"
    using nd(2) by (simp_all add: untouched_def retain_active_def)
  have acts: "node_acts str_env [LoopRetain, LoopCommand 0] nd = Some ?nd2"
    using nd(2) el t by (simp add: untouched_def loop_stalled_def events_waiting_def loop_can_select_def)
  have r2: "node_reach str_env ?nd2" by (rule node_reach_acts [OF nd(1) acts])
  obtain b h' where b: "handler_run str_env (task_handler t) (el_swarm ?el) (el_handles ?el (task_handle t)) =
      (HIsConnected \<lparr>is_connected_peer = PeerId 1\<rparr>, b, h') \<and> (\<exists>x. handle_result h' = Some (Inr (OBool x)))"
    by (auto simp: h is_connected_run_def el)
  have st: "live ?nd2 0" "0 \<in> set (nd_submitted ?nd2)"
    using nd(2) by (simp_all add: untouched_def live_def)
  obtain x where x: "handle_result (nd_handles ?nd2 0) = Some (Inr (OBool x))"
    using handle_command_frame(2) [of str_env t ?el] b a by (auto simp: loop_handles_eq)
  have "nd_running ?nd2" "\<not> nd_selecting ?nd2" "\<not> loop_stalled ?nd2" "length (nd_calls ?nd2) = 1"
    "length (el_active_commands (nd_loop ?nd2)) = 1"
    using nd(2) el handle_command_frame(1) [of str_env t ?el] b
    by (simp_all add: loop_handles_eq untouched_def loop_stalled_def events_waiting_def retain_active_def)
  with r2 st x show ?thesis by blast
qed

section \<open>Properties\<close>

text \<open>
  C8: every command is in one place and commands run in the order of submission. In every reachable state of the
  node, at most 32 commands wait in the channel; what has been submitted is what the loop has run, in order,
  followed by what waits in the channel; no call submits twice; and no command is queued or active twice.
\<close>

theorem commands_accounted_for:
  assumes "node_reach env nd"
  shows "length (nd_queue nd) \<le> 32
       \<and> nd_submitted nd = nd_executed nd @ map task_handle (nd_queue nd)
       \<and> distinct (nd_submitted nd)
       \<and> distinct (outstanding nd) \<and> set (outstanding nd) \<subseteq> set (nd_submitted nd)"
proof -
  note inv = node_reach_inv [OF assms]
  have "length (nd_queue nd) \<le> 32" using inv unfolding node_inv_def COMMAND_CHANNEL_SIZE_def by simp
  with inv show ?thesis unfolding node_inv_def in_order_def by blast
qed

theorem commands_accounted_for_witness:
  "\<exists>nd. node_reach str_env nd \<and> length (nd_queue nd) = 32 \<and> map task_handle (nd_queue nd) = [0..<32]"
proof -
  obtain nd where nd: "node_reach str_env nd" "asked 32 nd" using asked_reach [of 32] by auto
  have u: "length (nd_queue nd) = 32" "nd_submitted nd = [0..<32]" "nd_executed nd = []"
    using nd(2) by (simp_all add: untouched_def)
  have "nd_submitted nd = nd_executed nd @ map task_handle (nd_queue nd)" using commands_accounted_for [OF nd(1)] by blast
  then have "map task_handle (nd_queue nd) = [0..<32]" unfolding u(2,3) by simp
  with nd(1) u(1) show ?thesis by blast
qed

text \<open>
  C16: the application's queues are bounded. In every reachable state, as long as the application keeps its
  receiver, at most 64 events wait in the channel and one more in the hands of the loop, and at most 16 accepted
  data channels wait for the application.
\<close>

theorem application_queues_bounded:
  assumes "node_reach env nd"
  shows "(nd_receiver nd \<longrightarrow> events_waiting nd \<le> 65) \<and> length (nd_inbound nd) \<le> 16"
  using node_reach_queues [OF assms]
  unfolding queues_ok_def EVENT_CHANNEL_SIZE_def DC_INBOUND_CHANNEL_SIZE_def by simp

theorem application_queues_bounded_witness:
  "\<exists>nd. node_reach str_env nd \<and> events_waiting nd = 65 \<and> events_waiting nd \<le> 65"
proof -
  obtain nd where nd: "node_reach str_env nd" "pinged (IsConnected (PeerId 1)) 1 65 nd" using pinged_reach [of 1 65] by auto
  from application_queues_bounded [OF nd(1)] nd(2) show ?thesis
    by (intro exI [of _ nd]) (simp add: nd(1) pinged_def events_waiting_def)
qed

text \<open>
  C3: no caller is abandoned. In every reachable state of the node, for a call that has been submitted and whose
  caller still waits: the event loop is running; its command is in the channel or among the active ones,
  or its result is in the handle; and when the result is there, the call is in the middle of a poll or its
  task has been told to poll it, and that poll returns the result.
\<close>

theorem waiting_call_never_abandoned:
  assumes "node_reach env nd" and "live nd a" and "a \<in> set (nd_submitted nd)"
  shows "nd_running nd
       \<and> (a \<in> set (outstanding nd) \<or> handle_result (nd_handles nd a) \<noteq> None)
       \<and> (\<forall>r. handle_result (nd_handles nd a) = Some r \<longrightarrow>
            (call_polling (nd_calls nd ! a) \<or> told_to_poll nd a)
          \<and> (\<exists>nd'. node_acts env (one_poll nd a w) nd = Some nd' \<and> call_result (nd_calls nd' ! a) = Some r))"
proof -
  note inv = node_reach_inv [OF assms(1)]
  have L: "a \<in> waiting_calls nd" using assms(2) by (simp add: waiting_calls_def)
  have v: "has_view nd a" using node_reach_views [OF assms(1)] assms(2) by (simp add: all_views_def live_def)
  have "nd_running nd" using inv L unfolding node_inv_def by blast
  moreover have "a \<in> set (outstanding nd) \<or> handle_result (nd_handles nd a) \<noteq> None"
    using inv L assms(3) unfolding node_inv_def answered_def by blast
  ultimately show ?thesis using result_noticed [OF v assms(2)] poll_returns [OF inv assms(2,3)] by blast
qed

theorem waiting_call_never_abandoned_witness:
  "\<exists>nd. node_reach str_env nd \<and> nd_running nd \<and> 0 \<in> set (outstanding nd)"
proof -
  obtain nd where nd: "node_reach str_env nd" "asked 1 nd" using asked_reach [of 1] by auto
  have "live nd 0" "0 \<in> set (nd_submitted nd)" "handle_result (nd_handles nd 0) = None"
    using nd(2) by (simp_all add: untouched_def live_def)
  with waiting_call_never_abandoned [OF nd(1), of 0 "Waker 0"] nd(1) show ?thesis by blast
qed

text \<open>
  C14: the loop is the last to go. In every reachable state in which the event loop has ended, the command channel
  is empty, no client is left, every call is over, and each command the loop still owned had been
  cancelled: ending the loop strands nobody.
\<close>

theorem loop_ends_last:
  assumes "node_reach env nd" and "\<not> nd_running nd"
  shows "nd_queue nd = [] \<and> nd_clients nd = 0 \<and> (\<forall>a. \<not> live nd a)
       \<and> list_all (\<lambda>t. cancelled (state (nd_handles nd (task_handle t)))) (el_active_commands (nd_loop nd))"
proof -
  note inv = node_reach_inv [OF assms(1)]
  have q: "nd_queue nd = []" "nd_clients nd = 0" "waiting_calls nd = {}"
    using inv assms(2) unfolding node_inv_def by blast+
  have "cancelled (state (nd_handles nd (task_handle t)))" if t: "t \<in> set (el_active_commands (nd_loop nd))" for t
  proof -
    have lt: "task_handle t < length (nd_calls nd)" by (rule active_handles_lt [OF inv t])
    then have "call_dropped (nd_calls nd ! task_handle t)" using q(3) by (auto simp: waiting_calls_def live_def)
    with inv_call_ok [OF inv lt] show ?thesis by (simp add: call_ok_def)
  qed
  with q show ?thesis by (simp add: list_all_iff waiting_calls_def)
qed

theorem loop_ends_last_witness:
  "\<exists>nd. node_reach str_env nd \<and> \<not> nd_running nd \<and> nd_clients nd = 0"
proof -
  obtain nd where nd: "node_reach str_env nd" "asked 0 nd" using asked_reach [of 0] by auto
  let ?nd1 = "nd\<lparr>nd_clients := 0\<rparr>"
  let ?nd2 = "?nd1\<lparr>nd_loop := retain_active (nd_loop ?nd1), nd_selecting := True\<rparr>"
  let ?nd3 = "?nd2\<lparr>nd_running := False, nd_selecting := False\<rparr>"
  have ev: "el_events (retain_active (nd_loop nd)) = []" using nd(2) by (simp add: untouched_def retain_active_def)
  have "node_acts str_env [DropClient, LoopRetain, LoopClosed] nd = Some ?nd3"
    using nd(2) ev by (simp add: untouched_def loop_stalled_def events_waiting_def loop_can_select_def loop_handles_eq)
  from node_reach_acts [OF nd(1) this] have r: "node_reach str_env ?nd3" .
  from loop_ends_last [OF r] r show ?thesis by (intro exI [of _ ?nd3]) simp
qed

text \<open>
  C15: the error \<open>command channel closed\<close> never means that the channel is closed. In a running node, whenever the
  submission with which the first poll of a call begins makes the call return, the call fails with that error although
  the event loop is running, and what the submission met was a channel with all of its 32 slots taken; the command is not
  submitted.
\<close>

theorem closed_error_means_full:
  assumes "node_reach env nd" and "node_act env (PollSubmit a) nd = Some nd'"
    and "call_result (nd_calls nd' ! a) = Some r"
  shows "r = Inl (BehaviourError ''command channel closed'') \<and> nd_running nd \<and> length (nd_queue nd) = 32
       \<and> a \<notin> set (nd_submitted nd')"
proof -
  note inv = node_reach_inv [OF assms(1)]
  have l: "live nd a" and e: "nd' = poll_submit a nd" using assms(2) by (auto split: if_splits)
  have a: "a < length (nd_calls nd)" using l by (simp add: live_def)
  have run: "nd_running nd" using inv l unfolding node_inv_def waiting_calls_def by blast
  have "has_view nd a" using node_reach_views [OF assms(1)] a by (simp add: all_views_def)
  then have n: "call_result (nd_calls nd ! a) = None" using view_waiting l by blast
  obtain err sent fut where s: "cf_submit (command_slot nd) (call_future (nd_calls nd ! a)) = (err, sent, fut)" by (metis prod_cases3)
  obtain x where x: "err = Some x"
    using assms(3) n a s by (cases err; cases sent) (auto simp: e poll_submit_def Let_def)
  note sc = cf_submit_cases(3) [OF s x]
  have r: "r = Inl x" using assms(3) a s x by (simp add: e poll_submit_def call_return_def Let_def)
  have "is_err (command_slot nd)" using s x by (auto simp: cf_submit_def split: option.splits if_splits)
  then have "\<not> length (nd_queue nd) < 32"
    using run by (auto simp: command_slot_def slot_of_def is_err_def COMMAND_CHANNEL_SIZE_def)
  moreover have "length (nd_queue nd) \<le> 32" using inv unfolding node_inv_def COMMAND_CHANNEL_SIZE_def by simp
  moreover have "a \<notin> set (nd_submitted nd)" using inv_call_ok [OF inv a] sc by (auto simp: call_ok_def)
  then have "a \<notin> set (nd_submitted nd')" using s x by (simp add: e poll_submit_def call_return_def Let_def)
  ultimately show ?thesis using r sc run by simp
qed

theorem closed_error_means_full_witness:
  "\<exists>nd nd'. node_act str_env (PollSubmit 32) nd = Some nd' \<and> nd_running nd \<and> length (nd_queue nd) = 32
     \<and> call_result (nd_calls nd' ! 32) = Some (Inl (BehaviourError ''command channel closed''))"
proof -
  obtain nd0 where nd0: "node_reach str_env nd0" "asked 32 nd0" using asked_reach [of 32] by auto
  let ?nd = "nd0\<lparr>nd_calls := nd_calls nd0 @ [call_new (client_command GetAddrs)]\<rparr>"
  have r: "node_reach str_env ?nd"
    by (rule node_step [OF nd0(1), of "NewCall GetAddrs"]) (use nd0(2) in \<open>simp add: untouched_def\<close>)
  have c: "nd_calls ?nd ! 32 = call_new (client_command GetAddrs)" using nd0(2) by (simp add: untouched_def nth_append)
  have slot: "command_slot ?nd = SendFull"
    using nd0(2) by (simp add: untouched_def command_slot_def slot_of_def COMMAND_CHANNEL_SIZE_def)
  have a: "node_act str_env (PollSubmit 32) ?nd = Some (poll_submit 32 ?nd)"
    using nd0(2) c by (simp add: untouched_def live_def call_new_def)
  have s: "cf_submit SendFull (call_future (call_new (client_command GetAddrs))) =
      (Some (BehaviourError ''command channel closed''), None, \<lparr>cf_handler = None\<rparr>)"
    by (simp add: cf_submit_def call_new_def command_future_new_def is_err_def)
  have res: "call_result (nd_calls (poll_submit 32 ?nd) ! 32) = Some (Inl (BehaviourError ''command channel closed''))"
    unfolding poll_submit_def c slot s Let_def prod.case option.case
    using nd0(2) by (simp add: call_return_def untouched_def)
  from closed_error_means_full [OF r a res] a res show ?thesis by blast
qed

text \<open>
  C12: the loop keeps no command for nobody. In every reachable state, right after the loop has cleared out, every
  active command belongs to a call whose caller still waits, each to a different one; so there are no more
  active commands than waiting callers, however many calls were dropped or timed out before.
\<close>

theorem no_command_leaks:
  assumes "node_reach env nd" and "node_act env LoopRetain nd = Some nd'"
  shows "list_all (\<lambda>t. live nd' (task_handle t)) (el_active_commands (nd_loop nd'))
       \<and> distinct (map task_handle (el_active_commands (nd_loop nd')))
       \<and> length (el_active_commands (nd_loop nd')) \<le> card (waiting_calls nd')"
proof -
  have e: "nd' = nd\<lparr>nd_loop := retain_active (nd_loop nd), nd_selecting := True\<rparr>" using assms(2) by (auto split: if_splits)
  let ?cmds = "el_active_commands (nd_loop nd')"
  have inv: "node_inv nd'" using node_reach_inv [OF node_step [OF assms]] .
  have l: "live nd' (task_handle t)" if t: "t \<in> set ?cmds" for t
  proof -
    have lt: "task_handle t < length (nd_calls nd')" by (rule active_handles_lt [OF inv t])
    have "\<not> cancelled (state (nd_handles nd (task_handle t)))" using t by (simp add: e retain_active_commands)
    moreover have "nd_handles nd' = nd_handles nd" by (simp add: e retain_active_def)
    ultimately have "\<not> call_dropped (nd_calls nd' ! task_handle t)"
      using inv_call_ok [OF inv lt] by (simp add: call_ok_def)
    with lt show ?thesis by (simp add: live_def)
  qed
  have d: "distinct (map task_handle ?cmds)" using inv unfolding node_inv_def outstanding_def by simp
  have "waiting_calls nd' \<subseteq> {..< length (nd_calls nd')}" by (auto simp: waiting_calls_def live_def)
  then have "finite (waiting_calls nd')" by (rule finite_subset) simp
  moreover have "set (map task_handle ?cmds) \<subseteq> waiting_calls nd'" using l by (auto simp: waiting_calls_def)
  ultimately have "card (set (map task_handle ?cmds)) \<le> card (waiting_calls nd')" by (rule card_mono)
  then have "length ?cmds \<le> card (waiting_calls nd')" using distinct_card [OF d] by simp
  with l d show ?thesis by (simp add: list_all_iff)
qed

theorem no_command_leaks_witness:
  "\<exists>nd nd'. node_reach str_env nd \<and> length (el_active_commands (nd_loop nd)) = 1
     \<and> node_act str_env LoopRetain nd = Some nd' \<and> length (el_active_commands (nd_loop nd')) \<le> card (waiting_calls nd')"
proof -
  obtain nd where nd: "node_reach str_env nd" "nd_running nd" "\<not> nd_selecting nd" "\<not> loop_stalled nd"
    "length (el_active_commands (nd_loop nd)) = 1" using asked_answered by blast
  then have "node_act str_env LoopRetain nd = Some (nd\<lparr>nd_loop := retain_active (nd_loop nd), nd_selecting := True\<rparr>)" by simp
  with no_command_leaks [OF nd(1) this] nd(1,5) show ?thesis by blast
qed

text \<open>
  C9: immediate commands are answered. In every reachable state of a node whose event loop runs and is not held up by
  a full event channel, at most twice as many steps of the loop as commands wait, on its own and without
  any event from the network, run all of them in order, and every waiting call of a command that needs no
  event (connection status, addresses, responses, removals) then has its result.
\<close>

theorem immediate_calls_answered:
  assumes "node_reach env nd" and "nd_running nd" and "\<not> loop_stalled nd"
  shows "\<exists>as nd'. set as \<subseteq> {LoopRetain, LoopCommand n} \<and> length as \<le> 2 * length (nd_queue nd)
     \<and> node_acts env as nd = Some nd' \<and> nd_executed nd' = nd_submitted nd
     \<and> (\<forall>a. live nd a \<and> a \<in> set (nd_submitted nd) \<and> immediate (command_of nd a) \<longrightarrow>
            handle_result (nd_handles nd' a) \<noteq> None)"
proof -
  from queue_drains [OF assms(2,3), of n env] obtain as nd' where d: "set as \<subseteq> {LoopRetain, LoopCommand n}"
    "length as \<le> 2 * length (nd_queue nd)" "node_acts env as nd = Some nd'" "nd_queue nd' = []"
    "nd_executed nd' = nd_executed nd @ map task_handle (nd_queue nd)" "nd_submitted nd' = nd_submitted nd"
    "nd_calls nd' = nd_calls nd" by blast
  have r: "node_reach env nd'" by (rule node_reach_acts [OF assms(1) d(3)])
  have "in_order nd" using node_reach_inv [OF assms(1)] unfolding node_inv_def by blast
  then have x: "nd_executed nd' = nd_submitted nd" using d(5) by (simp add: in_order_def)
  have "handle_result (nd_handles nd' a) \<noteq> None"
    if "live nd a" "a \<in> set (nd_submitted nd)" "immediate (command_of nd a)" for a
    by (rule immediate_answered [OF node_reach_inv [OF r] node_reach_served [OF r] d(4)])
       (use that d(6,7) in \<open>simp_all add: live_def\<close>)
  with d x show ?thesis by blast
qed

theorem immediate_calls_answered_witness:
  "\<exists>(nd :: (string, string, nat) node) (nd' :: (string, string, nat) node).
     node_reach str_env nd \<and> length (nd_queue nd) = 3 \<and> nd_executed nd' = [0, 1, 2]
     \<and> handle_result (nd_handles nd' 2) \<noteq> None"
proof -
  obtain nd where nd: "node_reach str_env nd" "asked 3 nd" using asked_reach [of 3] by auto
  have s: "nd_running nd" "\<not> loop_stalled nd" "live nd 2" "2 \<in> set (nd_submitted nd)" "immediate (command_of nd 2)"
    "nd_submitted nd = [0, 1, 2]" "length (nd_queue nd) = 3"
    using nd(2) by (simp_all add: untouched_def loop_stalled_def events_waiting_def live_def upt_rec)
  from immediate_calls_answered [OF nd(1) s(1,2), of 0] obtain nd' :: "(string, string, nat) node" where
    x: "nd_executed nd' = nd_submitted nd"
    "\<forall>a. live nd a \<and> a \<in> set (nd_submitted nd) \<and> immediate (command_of nd a) \<longrightarrow> handle_result (nd_handles nd' a) \<noteq> None"
    by (elim exE conjE)
  have "handle_result (nd_handles nd' 2) \<noteq> None" by (rule x(2) [rule_format]) (intro conjI s(3-5))
  with nd(1) s(6,7) x(1) show ?thesis by (intro exI [of _ nd] exI [of _ nd']) simp
qed

text \<open>
  C17: an application that does not take its events stops the node. Once the event channel is full and one more event
  waits, whatever the callers, the channels and the timers do, no further command runs, no call is made to
  the network stack, and no call that has been submitted and not answered is answered, until the application
  takes an event or drops its receiver. The only thing such a call can still return is the timeout error, and only if
  it is a request whose own timeout has elapsed.
\<close>

theorem full_event_channel_stops_calls:
  assumes "node_reach env nd" and "loop_stalled nd"
    and "a \<in> set (nd_submitted nd)" and "call_outcome (nd_calls nd ! a) = None" and "handle_result (nd_handles nd a) = None"
    and "node_acts env as nd = Some nd'" and "ReceiveEvent \<notin> set as" and "DropReceiver \<notin> set as"
  shows "loop_stalled nd' \<and> nd_executed nd' = nd_executed nd \<and> el_swarm (nd_loop nd') = el_swarm (nd_loop nd)
       \<and> call_result (nd_calls nd' ! a) = None
       \<and> (call_outcome (nd_calls nd' ! a) = None
          \<or> call_outcome (nd_calls nd' ! a) = Some (Inl (NetworkError TimeoutKind)) \<and> is_request (command_of nd' a))"
proof -
  have "call_result (nd_calls nd ! a) = None" using assms(4) by (auto simp: call_outcome_def split: if_splits)
  with assms(3,5) have "unanswered nd a" by (simp add: unanswered_def)
  with stalled_acts [OF node_reach_inv [OF assms(1)] assms(2,6-8), of a]
  have s: "loop_stalled nd'" "loop_work nd' = loop_work nd" "unanswered nd' a" by blast+
  have r: "node_reach env nd'" by (rule node_reach_acts [OF assms(1,6)])
  have "a < length (nd_calls nd')" using s(3) node_reach_inv [OF r] unfolding unanswered_def node_inv_def by blast
  with node_reach_timeouts [OF r] have "call_timed_out (nd_calls nd' ! a) \<longrightarrow> is_request (command_of nd' a)"
    by (simp add: timeouts_ok_def)
  with s show ?thesis by (simp add: unanswered_def loop_work_def call_outcome_def)
qed

text \<open>A request that is polled again and again gets no answer, and then times out.\<close>

theorem full_event_channel_stops_calls_witness:
  "\<exists>nd nd'. node_reach str_env nd \<and> loop_stalled nd'
     \<and> node_acts str_env [PollHandle 0 (Waker 0), PollSubmit 0, PollHandle 0 (Waker 1), TimeoutCall 0] nd = Some nd'
     \<and> call_result (nd_calls nd' ! 0) = None \<and> call_outcome (nd_calls nd' ! 0) \<noteq> None
     \<and> call_outcome (nd_calls nd' ! 0) = Some (Inl (NetworkError TimeoutKind))"
proof -
  let ?c = "SendRequest (PeerId 1) ''hello''"
  obtain nd where nd: "node_reach str_env nd" "pinged ?c 1 65 nd" using pinged_reach [of 1 65 ?c] by auto
  have s: "loop_stalled nd" "0 \<in> set (nd_submitted nd)" "call_outcome (nd_calls nd ! 0) = None"
    "handle_result (nd_handles nd 0) = None" "live nd 0" "call_polling (nd_calls nd ! 0)" "nd_calls nd \<noteq> []"
    "call_seen (nd_calls nd ! 0) = Some 0" "is_request (call_command (nd_calls nd ! 0))"
    using nd(2) by (auto simp: pinged_def loop_stalled_def events_waiting_def live_def EVENT_CHANNEL_SIZE_def
        call_outcome_def is_request_def)
  have ok: "cf_handler (call_future (nd_calls nd ! 0)) = None"
    using inv_call_ok [OF node_reach_inv [OF nd(1)], of 0] s by (simp add: call_ok_def)
  let ?as = "[PollHandle 0 (Waker 0), PollSubmit 0, PollHandle 0 (Waker 1), TimeoutCall 0]"
  have "\<exists>nd'. node_acts str_env ?as nd = Some nd' \<and> call_timed_out (nd_calls nd' ! 0)"
    using s ok by (simp add: poll_handle_pending poll_submit_again live_def drop_call_def)
  then obtain nd' where nd': "node_acts str_env ?as nd = Some nd'" and t: "call_timed_out (nd_calls nd' ! 0)" by blast
  have "ReceiveEvent \<notin> set ?as" "DropReceiver \<notin> set ?as" by simp_all
  note c = full_event_channel_stops_calls [OF nd(1) s(1-4) nd' this]
  then have "call_outcome (nd_calls nd' ! 0) = Some (Inl (NetworkError TimeoutKind))" using t by (simp add: call_outcome_def)
  with c nd(1) nd' show ?thesis by blast
qed

text \<open>
  C11: the node refines the command future. In every reachable state of the node, each call, with its handle, its
  command in the channel or among the active ones, and what it has been told, is a reachable state of the
  one-command system in which no wake-up is lost: polls of other calls, events, the clearing out of
  cancelled commands and the end of the loop are at most steps of that system.
\<close>

theorem calls_refine_command_futures:
  assumes "node_reach env nd" and "a < length (nd_calls nd)"
  shows "\<exists>s. creach (command_of nd a) s \<and> call_view nd a s"
  using node_reach_views [OF assms(1)] assms(2) unfolding all_views_def has_view_def by blast

theorem calls_refine_command_futures_witness:
  "\<exists>nd s. node_reach str_env nd \<and> creach (command_of nd 2) s \<and> call_view nd 2 s \<and> polling s \<and> channel s \<noteq> None"
proof -
  obtain nd where nd: "node_reach str_env nd" "asked 3 nd" using asked_reach [of 3] by auto
  have p: "2 < length (nd_calls nd)" "call_polling (nd_calls nd ! 2)" using nd(2) by (simp_all add: untouched_def)
  have "set (map task_handle (nd_queue nd)) = {0..<3}" using untouched_queue [OF nd] by simp
  then have q: "2 \<in> task_handle ` set (nd_queue nd)" by simp
  from calls_refine_command_futures [OF nd(1) p(1)] obtain s where s: "creach (command_of nd 2) s" "call_view nd 2 s" by blast
  with call_viewD(3,9) [OF s(2)] p(2) q nd(1) show ?thesis by blast
qed

end
