(* ===== verification/Node_History.thy ===== *)
theory Node_History
  imports Node_Typing
begin

text \<open>
  What the history of a node's swarm says about its calls. A response that a call of \<open>send_request\<close> holds or has
  returned was delivered by the network for the identifier of that very request; a response the node sends was
  given by its application for a request the application has been shown. The first is an invariant of the
  state, the second one of the run, because it names what the application did.
\<close>

section \<open>Calls that carry messages\<close>

fun is_message :: "('req, 'resp, 'stats) swarm_call \<Rightarrow> bool" where
  "is_message (Polled e) = True"
| "is_message (CallSendRequest p r) = True"
| "is_message (CallSendResponse ch resp) = True"
| "is_message _ = False"

definition messages_in :: "('req, 'resp, 'stats) swarm \<Rightarrow> ('req, 'resp, 'stats) swarm" where
  "messages_in sw = filter is_message sw"

lemma messages_in_simps [simp]:
  "messages_in [] = []" "messages_in (sw @ sw') = messages_in sw @ messages_in sw'"
  "messages_in (c # sw) = (if is_message c then c # messages_in sw else messages_in sw)"
  by (simp_all add: messages_in_def)

text \<open>A history that was only added to, and by nothing that carries a message.\<close>

definition adds_quietly :: "('req, 'resp, 'stats) swarm \<Rightarrow> ('req, 'resp, 'stats) swarm \<Rightarrow> bool" where
  "adds_quietly sw sw' \<longleftrightarrow> (\<exists>new. sw' = sw @ new \<and> messages_in new = [])"

lemma adds_quietlyI: "messages_in new = [] \<Longrightarrow> adds_quietly sw (sw @ new)"
  by (auto simp: adds_quietly_def)

lemma adds_quietly_refl [simp, intro]: "adds_quietly sw sw"
  using adds_quietlyI [of "[]" sw] by simp

lemma adds_quietly_trans: "adds_quietly sw sw' \<Longrightarrow> adds_quietly sw' sw'' \<Longrightarrow> adds_quietly sw sw''"
  by (auto simp: adds_quietly_def)

lemma adds_quietly_fold:
  assumes "\<And>x sw'. adds_quietly sw sw' \<Longrightarrow> adds_quietly sw (f x sw')" and "adds_quietly sw sw'"
  shows "adds_quietly sw (fold f xs sw')"
  using assms by (induction xs arbitrary: sw') simp_all

lemma adds_quietly_set:
  assumes "adds_quietly sw sw'" and "is_message c"
  shows "c \<in> set sw' \<longleftrightarrow> c \<in> set sw"
proof -
  obtain new where m: "sw' = sw @ new" "messages_in new = []" using assms(1) by (auto simp: adds_quietly_def)
  then have "c \<notin> set new" using assms(2) by (auto simp: messages_in_def filter_empty_conv)
  with m show ?thesis by simp
qed

lemma adds_quietly_calls [simp]:
  assumes "adds_quietly sw sw'"
  shows "adds_quietly sw (swarm_add_peer_address p a sw')" "adds_quietly sw (swarm_kad_add_address p a sw')"
    "adds_quietly sw (swarm_add_external_address a sw')" "adds_quietly sw (snd (swarm_dial env p sw'))"
    "adds_quietly sw (snd (swarm_listen_on env a sw'))" "adds_quietly sw (register_identified_addr p a sw')"
    "adds_quietly sw (dial_if_unconnected env p sw')"
  using assms
  by (auto simp: swarm_call_defs register_identified_addr_def dial_if_unconnected_def adds_quietly_def)

lemma adds_quietly_folds [simp]:
  assumes "adds_quietly sw sw'"
  shows "adds_quietly sw (fold (swarm_add_peer_address p) as sw')"
    "adds_quietly sw (fold (register_identified_addr p) as sw')"
    "adds_quietly sw (fold (register_infrastructure_addr c) as sw')"
    "adds_quietly sw (handle_discovered env peers sw')"
  using assms
  by (auto simp: handle_discovered_def register_infrastructure_addr_def Let_def case_prod_beta intro!: adds_quietly_fold)

lemma adds_quietly_relays [simp]:
  assumes "adds_quietly sw (el_swarm el)"
  shows "adds_quietly sw (el_swarm (request_relay_reservations env peer addrs el))"
proof -
  have "messages_in (map (\<lambda>a. CallListenOn (relay_listen_addr peer a)) addrs) = []"
    by (simp add: messages_in_def filter_empty_conv)
  with assms show ?thesis unfolding request_relay_reservations_eq adds_quietly_def by auto
qed

lemma adds_quietly_identified [simp]: "adds_quietly (el_swarm el) (el_swarm (handle_identified env p info el))"
  by (auto simp: handle_identified_def Let_def split: option.split)

lemma convert_adds_quietly:
  assumes "convert_to_node_event env t e el = (v, el')"
  shows "adds_quietly (el_swarm el) (el_swarm el')"
  using assms
  by (auto simp: convert_to_node_event_def handle_inbound_request_def next_pending_id_def case_prod_beta Let_def
      maybe_announce_lan_helper_addr_def try_send_event_def
      split: swarm_event.splits core_behaviour_event.splits relay_client_event.splits req_resp_event.splits
        message.splits sum.splits mdns_event.splits identify_event.splits kad_event.splits if_splits option.splits)

lemma handle_swarm_event_swarm: "adds_quietly (el_swarm el) (el_swarm (handle_swarm_event env t e el))"
proof -
  obtain v el1 where c: "convert_to_node_event env t e (after_chain env e el) = (v, el1)" by fastforce
  have "handle_swarm_event env t e el =
      (if consumable e then after_chain env e el
       else case v of None \<Rightarrow> el1 | Some evt \<Rightarrow> send_event (receiver_alive t) evt el1)"
    using handle_swarm_event_consumable [of e env t el] handle_swarm_event_passed [of e env t el] c by simp
  with convert_adds_quietly [OF c] show ?thesis by (simp add: send_event_def split: option.split)
qed

text \<open>A command sends at most the one message it was made for.\<close>

lemma handler_run_swarm:
  assumes "handler_run env c sw h = (c', sw', h')"
  obtains (quiet) "adds_quietly sw sw'"
    | (request) d r where "c = HSendRequest d" "sr_request d = Some r" "sw' = sw @ [CallSendRequest (sr_peer_id d) r]"
    | (response) ch resp where "c = HSendResponse (send_response_new ch resp)" "sw' = sw @ [CallSendResponse ch resp]"
proof (cases c)
  case (HSendRequest d)
  with assms quiet request show ?thesis
    by (cases "sr_request d") (auto simp: send_request_run_def apfst_def map_prod_def)
next
  case (HSendResponse d)
  with assms quiet response show ?thesis
    by (cases d) (auto simp: send_response_run_def send_response_new_def apfst_def map_prod_def Let_def split: option.splits)
next
  case (HAddInfrastructurePeer d)
  let ?sw = "fold (register_infrastructure_addr d) (aip_addrs d) sw"
  have "adds_quietly sw ?sw" "adds_quietly sw (snd (swarm_dial env (aip_peer d) ?sw))" by simp_all
  then have "adds_quietly sw sw'"
    using assms HAddInfrastructurePeer
    by (auto simp: add_infrastructure_peer_run_def apfst_def map_prod_def Let_def case_prod_beta split: if_splits)
  then show ?thesis by (rule quiet)
next
  case (HAddPeerAddrs d)
  have "adds_quietly sw (fold (swarm_add_peer_address (apa_peer d)) (apa_addrs d) sw)" by simp
  with assms HAddPeerAddrs show ?thesis
    by (intro quiet) (auto simp: add_peer_addrs_run_def apfst_def map_prod_def)
qed (use assms quiet in \<open>auto simp: dial_run_def disconnect_run_def is_connected_run_def get_listen_addrs_run_def
       bootstrap_run_def get_closest_peers_run_def get_providers_run_def get_record_run_def put_record_run_def
       remove_record_run_def start_provide_run_def stop_provide_run_def apfst_def map_prod_def Let_def swarm_call_defs
       adds_quietlyI
       split: option.splits if_splits sum.splits bool.splits\<close>)

section \<open>Responses are delivered for the request\<close>

definition response_event :: "peer_id \<Rightarrow> outbound_request_id \<Rightarrow> 'resp \<Rightarrow> ('req, 'resp, 'stats) swarm_event" where
  "response_event p q resp = Behaviour (ReqRespEvent (Message p (Response q resp)))"

text \<open>The history has the request of \<open>r\<close> to \<open>p\<close> that the library gave the identifier \<open>q\<close>.\<close>

definition sent_as ::
  "('req, 'resp, 'stats) net_env \<Rightarrow> peer_id \<Rightarrow> 'req \<Rightarrow> outbound_request_id \<Rightarrow> ('req, 'resp, 'stats) swarm \<Rightarrow> bool" where
  "sent_as env p r q sw \<longleftrightarrow>
     (\<exists>i < length sw. sw ! i = CallSendRequest p r \<and> send_request_query env (take i sw) p r = q)"

text \<open>After that request, the response \<open>resp\<close> for its identifier was delivered.\<close>

definition answered_in ::
  "('req, 'resp, 'stats) net_env \<Rightarrow> peer_id \<Rightarrow> 'req \<Rightarrow> 'resp \<Rightarrow> ('req, 'resp, 'stats) swarm \<Rightarrow> bool" where
  "answered_in env p r resp sw \<longleftrightarrow>
     (\<exists>k < length sw. \<exists>q. sw ! k = Polled (response_event p q resp) \<and> sent_as env p r q (take k sw))"

lemma sent_as_append:
  assumes "sent_as env p r q sw"
  shows "sent_as env p r q (sw @ new)"
proof -
  obtain i where "i < length sw" "sw ! i = CallSendRequest p r" "send_request_query env (take i sw) p r = q"
    using assms by (auto simp: sent_as_def)
  then show ?thesis unfolding sent_as_def by (intro exI [of _ i]) (simp add: nth_append)
qed

lemma sent_as_now: "sent_as env p r (send_request_query env sw p r) (sw @ [CallSendRequest p r])"
  unfolding sent_as_def by (intro exI [of _ "length sw"]) simp

lemma answered_in_append:
  assumes "answered_in env p r resp sw"
  shows "answered_in env p r resp (sw @ new)"
proof -
  obtain k q where "k < length sw" "sw ! k = Polled (response_event p q resp)" "sent_as env p r q (take k sw)"
    using assms by (auto simp: answered_in_def)
  then show ?thesis unfolding answered_in_def by (intro exI [of _ k]) (auto simp: nth_append)
qed

lemma answered_in_now:
  "sent_as env p r q sw \<Longrightarrow> answered_in env p r resp (sw @ [Polled (response_event p q resp)])"
  unfolding answered_in_def by (intro exI [of _ "length sw"]) auto

text \<open>
  What an active command knows of its request, and what a result owes to the history, by the command \<open>c\<close>
  of the call.
\<close>

definition task_sent ::
  "('req, 'resp, 'stats) net_env \<Rightarrow> ('req, 'resp, 'stats) swarm \<Rightarrow> ('req, 'resp, 'stats) handler \<Rightarrow>
   ('req, 'resp, 'stats) handler \<Rightarrow> bool" where
  "task_sent env sw c h \<longleftrightarrow>
     (\<forall>p r. c = client_command (SendRequest p r) \<longrightarrow>
        (\<exists>d. h = HSendRequest d \<and> sr_peer_id d = p \<and> (\<forall>q. sr_request_id d = Some q \<longrightarrow> sent_as env p r q sw)))"

definition genuine ::
  "('req, 'resp, 'stats) net_env \<Rightarrow> ('req, 'resp, 'stats) swarm \<Rightarrow> ('req, 'resp, 'stats) handler \<Rightarrow>
   'resp cmd_output res option \<Rightarrow> bool" where
  "genuine env sw c res \<longleftrightarrow>
     (\<forall>p r resp. c = client_command (SendRequest p r) \<longrightarrow> res = Some (Inr (OResponse resp)) \<longrightarrow>
        answered_in env p r resp sw)"

lemma send_request_new_inject [simp]: "send_request_new p r = send_request_new p' r' \<longleftrightarrow> p = p' \<and> r = r'"
  by (auto simp: send_request_new_def)

lemma task_sent_append: "task_sent env sw c h \<Longrightarrow> task_sent env (sw @ new) c h"
  by (force simp: task_sent_def intro: sent_as_append)

lemma genuine_append: "genuine env sw c res \<Longrightarrow> genuine env (sw @ new) c res"
  by (simp add: genuine_def answered_in_append)

lemma genuine_None [simp]: "genuine env sw c None" "genuine env sw c (Some (Inl e))"
  by (simp_all add: genuine_def)

text \<open>One event offered to an active request.\<close>

lemma event_keeps_genuine:
  assumes "task_sent env sw c (task_handler t)" and "genuine env (sw @ [Polled e]) c (handle_result (st (task_handle t)))"
  shows "task_sent env sw c (task_handler (task_after env e st t))
    \<and> genuine env (sw @ [Polled e]) c (handle_result (handle_after env e st t))"
proof (cases "\<exists>p r. c = client_command (SendRequest p r)")
  case False
  then show ?thesis by (simp add: task_sent_def genuine_def)
next
  case True
  then obtain p r where c: "c = client_command (SendRequest p r)" by (elim exE)
  obtain d where d: "task_handler t = HSendRequest d" "sr_peer_id d = p"
    "\<And>q. sr_request_id d = Some q \<Longrightarrow> sent_as env p r q sw"
    using assms(1) c by (auto simp: task_sent_def)
  obtain keep ret d' h where e: "send_request_on_event d e (st (task_handle t)) = ((keep, ret), d', h)" by (metis surj_pair)
  have same: "d' = d" and res: "handle_result h = handle_result (st (task_handle t))
      \<or> (\<exists>x. handle_result h = Some (Inl x))
      \<or> (\<exists>q resp. e = response_event p q resp \<and> sr_request_id d = Some q \<and> handle_result h = Some (Inr (OResponse resp)))"
    using e d(2)
    by (auto simp: send_request_on_event_def response_event_def
        split: swarm_event.splits core_behaviour_event.splits req_resp_event.splits message.splits if_splits)
  from res have "genuine env (sw @ [Polled e]) c (handle_result h)"
  proof (elim disjE exE conjE)
    fix q resp assume "e = response_event p q resp" "sr_request_id d = Some q" "handle_result h = Some (Inr (OResponse resp))"
    then show ?thesis
      using answered_in_now [OF d(3), of q resp] c by (auto simp: genuine_def)
  qed (use assms(2) in simp_all)
  moreover have "task_handler (task_after env e st t) = HSendRequest d" "handle_after env e st t = h"
    using e d(1) same by (simp_all add: task_answer_defs task_on_event_def)
  ultimately show ?thesis using assms(1) d(1) by simp
qed

text \<open>The invariant: the active requests know what they sent, and all responses are genuine.\<close>

definition requests_ok :: "('req, 'resp, 'stats) net_env \<Rightarrow> ('req, 'resp, 'stats) node \<Rightarrow> bool" where
  "requests_ok env nd \<longleftrightarrow>
     (\<forall>t \<in> set (el_active_commands (nd_loop nd)).
        task_sent env (el_swarm (nd_loop nd)) (command_of nd (task_handle t)) (task_handler t))
   \<and> (\<forall>a < length (nd_calls nd).
        genuine env (el_swarm (nd_loop nd)) (command_of nd a) (handle_result (nd_handles nd a))
      \<and> genuine env (el_swarm (nd_loop nd)) (command_of nd a) (call_result (nd_calls nd ! a)))"

lemma requests_okD:
  assumes "requests_ok env nd"
  shows "t \<in> set (el_active_commands (nd_loop nd)) \<Longrightarrow>
      task_sent env (el_swarm (nd_loop nd)) (command_of nd (task_handle t)) (task_handler t)"
    and "a < length (nd_calls nd) \<Longrightarrow> genuine env (el_swarm (nd_loop nd)) (command_of nd a) (handle_result (nd_handles nd a))"
    and "a < length (nd_calls nd) \<Longrightarrow> genuine env (el_swarm (nd_loop nd)) (command_of nd a) (call_result (nd_calls nd ! a))"
  using assms unfolding requests_ok_def by blast+

lemma requests_ok_same:
  assumes "requests_ok env nd" and "same_commands nd nd'" and "el_swarm (nd_loop nd') = el_swarm (nd_loop nd)"
  shows "requests_ok env nd'"
  using assms unfolding requests_ok_def same_commands_def by simp

lemma requests_ok_new:
  assumes "node_inv nd" and "requests_ok env nd" and "same_commands (nd\<lparr>nd_calls := nd_calls nd @ [call_new cmd]\<rparr>) nd'"
    and "el_swarm (nd_loop nd') = el_swarm (nd_loop nd)"
  shows "requests_ok env nd'"
proof -
  let ?n = "length (nd_calls nd)"
  have f: "nd_calls nd' = nd_calls nd @ [call_new cmd]" "nd_handles nd' = nd_handles nd"
    "el_active_commands (nd_loop nd') = el_active_commands (nd_loop nd)"
    using assms(3) by (simp_all add: same_commands_def)
  have "command_of nd' (task_handle t) = command_of nd (task_handle t)" if "t \<in> set (el_active_commands (nd_loop nd))" for t
    using active_handles_lt [OF assms(1) that] by (simp add: f nth_append)
  moreover have "nd_handles nd ?n = handle_new" using assms(1) by (simp add: node_inv_def)
  ultimately show ?thesis
    using requests_okD [OF assms(2)] unfolding requests_ok_def f(2,3) assms(4)
    by (auto simp: f(1) nth_append less_Suc_eq call_new_def)
qed

text \<open>A step of one call, which keeps its command, and whose result comes from its handle.\<close>

lemma requests_ok_one:
  assumes "requests_ok env nd" and "live nd a" and "call_command c = command_of nd a"
    and "genuine env (el_swarm (nd_loop nd)) (command_of nd a) (handle_result h)"
    and "genuine env (el_swarm (nd_loop nd)) (command_of nd a) (call_result c)"
  shows "requests_ok env (set_handle a h (set_call a c nd))"
proof -
  let ?nd = "set_handle a h (set_call a c nd)"
  have a: "a < length (nd_calls nd)" using assms(2) by (simp add: live_def)
  have k: "command_of ?nd b = command_of nd b" for b using assms(3) a by (cases "b = a") simp_all
  have s: "el_swarm (nd_loop ?nd) = el_swarm (nd_loop nd)" by (simp add: set_handle_def set_call_def)
  show ?thesis
    unfolding requests_ok_def k s
    using requests_okD [OF assms(1)] assms(4,5) a by (auto simp: nth_list_update)
qed

lemma requests_ok_poll_submit:
  assumes "requests_ok env nd" and "live nd a"
  shows "requests_ok env (poll_submit a nd)"
proof -
  have a: "a < length (nd_calls nd)" using assms(2) by (simp add: live_def)
  note g = requests_okD(2,3) [OF assms(1) a]
  from a show ?thesis
  proof (cases rule: poll_submit_cases)
    case (rejected cmd)
    show ?thesis unfolding rejected(4) by (rule requests_ok_one [OF assms]) (use g in \<open>simp_all add: cf_drop_def\<close>)
  next
    case (submitted cmd)
    let ?c = "(nd_calls nd ! a)\<lparr>call_future := \<lparr>cf_handler = None\<rparr>, call_polling := True,
        call_seen := Some (length (woken (nd_handles nd a)))\<rparr>"
    have "requests_ok env (set_handle a (nd_handles nd a) (set_call a ?c nd))"
      by (rule requests_ok_one [OF assms]) (use g in simp_all)
    then show ?thesis unfolding submitted(4) set_handle_id by (simp add: requests_ok_def)
  next
    case again
    show ?thesis
      unfolding again(3) by (subst set_handle_id [symmetric], rule requests_ok_one [OF assms]) (use g in simp_all)
  qed
qed

lemma requests_ok_poll_handle:
  assumes "requests_ok env nd" and "live nd a"
  shows "requests_ok env (poll_handle a w nd)"
proof -
  have a: "a < length (nd_calls nd)" using assms(2) by (simp add: live_def)
  note g = requests_okD(2,3) [OF assms(1) a]
  show ?thesis
  proof (cases "handle_result (nd_handles nd a)")
    case (Some r)
    show ?thesis unfolding poll_handle_ready [OF Some]
      by (rule requests_ok_one [OF assms]) (use g Some in \<open>simp_all add: cf_drop_def\<close>)
  next
    case None
    show ?thesis unfolding poll_handle_pending [OF None]
      by (rule requests_ok_one [OF assms]) (use g None in simp_all)
  qed
qed

text \<open>Asking the active commands about the event \<open>e\<close>, which is already in the history.\<close>

definition asking_requests ::
  "('req, 'resp, 'stats) net_env \<Rightarrow> ('req, 'resp, 'stats) swarm \<Rightarrow> ('req, 'resp, 'stats) swarm_event \<Rightarrow>
   (nat \<Rightarrow> ('req, 'resp, 'stats) handler) \<Rightarrow> nat \<Rightarrow> ('req, 'resp, 'stats) command_task list \<Rightarrow> 'resp handle_store \<Rightarrow> bool" where
  "asking_requests env sw e K n cmds st \<longleftrightarrow>
     (\<forall>t \<in> set cmds. task_handle t < n \<and> task_sent env sw (K (task_handle t)) (task_handler t))
   \<and> (\<forall>a < n. genuine env (sw @ [Polled e]) (K a) (handle_result (st a)))"

lemma asking_requests_visit:
  assumes "asking_requests env sw e K n cmds st" and m: "mset cmds = add_mset t A"
    and m1: "mset cmds1 = A + (if task_keeps env e st t then {#task_after env e st t#} else {#})"
  shows "asking_requests env sw e K n cmds1 (st(task_handle t := handle_after env e st t))"
proof -
  have s: "set cmds = insert t (set_mset A)" using arg_cong [OF m, of set_mset] by simp
  have s1: "set cmds1 \<subseteq> insert (task_after env e st t) (set_mset A)"
    using arg_cong [OF m1, of set_mset] by (auto split: if_splits)
  have t: "task_handle t < n" using assms(1) s by (simp add: asking_requests_def)
  have "task_sent env sw (K (task_handle t)) (task_handler (task_after env e st t))
      \<and> genuine env (sw @ [Polled e]) (K (task_handle t)) (handle_result (handle_after env e st t))"
    by (rule event_keeps_genuine) (use assms(1) s t in \<open>simp_all add: asking_requests_def\<close>)
  with assms(1) s s1 t show ?thesis by (auto simp: asking_requests_def)
qed

lemma asking_requests_chain:
  assumes "command_chain env i cmds (Some e) st = (cmds', r', st')" and "asking_requests env sw e K n cmds st"
  shows "asking_requests env sw e K n cmds' st'"
proof -
  let ?P = "\<lambda>cmds r st. r \<in> {None, Some e} \<and> asking_requests env sw e K n cmds st"
  have "?P cmds (Some e) st" using assms(2) by simp
  with assms(1) have "?P cmds' r' st'"
  proof (rule chain_invariant [where P = ?P])
    fix e' :: "('a, 'b, 'c) swarm_event" and t :: "('a, 'b, 'c) command_task" and A cmds cmds1 st
    assume p: "?P cmds (Some e') st" and m: "mset cmds = add_mset t A"
      "mset cmds1 = A + (if task_keeps env e' st t then {#task_after env e' st t#} else {#})"
    have e: "e' = e" using p by simp
    have "task_returns env e st t \<in> {None, Some e}"
      using handler_returned [of env "task_handler t" e "st (task_handle t)"]
      by (simp add: task_returns_def task_on_event_def case_prod_beta)
    then show "?P cmds1 (task_returns env e' st t) (st(task_handle t := handle_after env e' st t))"
      using asking_requests_visit [OF _ m(1) m(2) [unfolded e]] p unfolding e by simp
  qed
  then show ?thesis by (rule conjunct2)
qed

lemma requests_ok_event:
  assumes "requests_ok env nd" and "node_inv nd"
  shows "requests_ok env (loop_handles env n (SwarmEvent e) nd)"
proof -
  let ?nd = "loop_handles env n (SwarmEvent e) nd" and ?sw = "el_swarm (nd_loop nd)"
  let ?ask = "asking_requests env ?sw e (command_of nd) (length (nd_calls nd))"
  obtain cmds' r st' where c: "command_chain env 0 (el_active_commands (nd_loop nd)) (Some e) (nd_handles nd) = (cmds', r, st')"
    by (metis prod_cases3)
  obtain new where new: "el_swarm (nd_loop ?nd) = ?sw @ [Polled e] @ new"
    using handle_swarm_event_swarm [of "(nd_loop nd)\<lparr>el_swarm := ?sw @ [Polled e]\<rparr>" env "turn_now n nd" e]
    by (auto simp: loop_handles_eq adds_quietly_def)
  have k: "el_active_commands (nd_loop ?nd) = cmds'" "nd_handles ?nd = st'" "nd_calls ?nd = nd_calls nd"
    using c by (simp_all add: loop_handles_eq handle_swarm_event_frame after_chain_commands)
  have "?ask (el_active_commands (nd_loop nd)) (nd_handles nd)"
    using requests_okD(1,2) [OF assms(1)] active_handles_lt [OF assms(2)]
    by (simp add: asking_requests_def genuine_append)
  with c have "?ask cmds' st'" by (rule asking_requests_chain)
  then show ?thesis
    using requests_okD(3) [OF assms(1)] task_sent_append [of env ?sw _ _ "[Polled e] @ new"]
      genuine_append [of env "?sw @ [Polled e]" _ _ new] genuine_append [of env ?sw _ _ "[Polled e] @ new"]
    unfolding requests_ok_def asking_requests_def k new by simp
qed

lemma handle_command_swarm:
  assumes "handler_run env (task_handler cmd) (el_swarm el) (el_handles el (task_handle cmd)) = (c', sw', h')"
  shows "adds_quietly sw' (el_swarm (handle_command env cmd el))"
  using assms
  by (auto simp: handle_command_def task_run_def Let_def case_prod_beta split: option.split)

text \<open>Running a command: the request is sent with the identifier that the command remembers.\<close>

lemma run_keeps_genuine:
  assumes "handler_run env c sw h = (c', sw', h')" and "genuine env sw c (handle_result h)"
  shows "task_sent env sw' c (snd (handler_take_relay c'))" and "genuine env sw' c (handle_result h')"
proof -
  have "task_sent env sw' c (snd (handler_take_relay c')) \<and> genuine env sw' c (handle_result h')"
  proof (cases "\<exists>p r. c = client_command (SendRequest p r)")
    case False
    then show ?thesis by (simp add: task_sent_def genuine_def)
  next
    case True
    then obtain p r where c: "c = client_command (SendRequest p r)" by (elim exE)
    with assms have "c' = HSendRequest \<lparr>sr_peer_id = p, sr_request = None, sr_request_id = Some (send_request_query env sw p r)\<rparr>"
      "sw' = sw @ [CallSendRequest p r]" "h' = h"
      by (auto simp: send_request_run_def send_request_new_def)
    then show ?thesis
      using sent_as_now [of env p r sw] genuine_append [OF assms(2), of "[CallSendRequest p r]"] by (simp add: task_sent_def c)
  qed
  then show "task_sent env sw' c (snd (handler_take_relay c'))" and "genuine env sw' c (handle_result h')" by blast+
qed

lemma handler_run_extends:
  assumes "handler_run env c sw h = (c', sw', h')"
  shows "\<exists>new. sw' = sw @ new"
  using assms by (rule handler_run_swarm) (auto simp: adds_quietly_def)

lemma requests_ok_command:
  assumes "requests_ok env nd" and "node_inv nd" and "served nd" and "nd_queue nd = cmd # rest"
  shows "requests_ok env (loop_handles env n (CommandReceived cmd)
           (nd\<lparr>nd_queue := rest, nd_executed := nd_executed nd @ [task_handle cmd]\<rparr>))" (is "requests_ok env ?nd")
proof -
  let ?a = "task_handle cmd" and ?sw = "el_swarm (nd_loop nd)"
  obtain c' sw' h' where r: "handler_run env (task_handler cmd) ?sw (nd_handles nd ?a) = (c', sw', h')" by (metis prod_cases3)
  have k: "el_active_commands (nd_loop ?nd) = el_active_commands (nd_loop nd) @ [cmd\<lparr>task_handler := snd (handler_take_relay c')\<rparr>]"
    "nd_handles ?nd = (nd_handles nd)(?a := h')" "nd_calls ?nd = nd_calls nd"
    using handle_command_frame [OF r] by (simp_all add: loop_handles_eq)
  obtain new1 new2 where sw: "sw' = ?sw @ new1" "el_swarm (nd_loop ?nd) = sw' @ new2"
    using handler_run_extends [OF r] handle_command_swarm [OF r] by (auto simp: loop_handles_eq adds_quietly_def)
  have a: "?a < length (nd_calls nd)" using outstanding_lt [OF assms(2)] assms(4) by simp
  have cmd: "task_handler cmd = command_of nd ?a" using servedD(1) [OF assms(3)] assms(4) by simp
  have g: "genuine env ?sw (task_handler cmd) (handle_result (nd_handles nd ?a))"
    using requests_okD(2) [OF assms(1) a] cmd by simp
  note own = run_keeps_genuine [OF r this]
  have "task_sent env (el_swarm (nd_loop ?nd)) (command_of nd ?a) (snd (handler_take_relay c'))"
    "genuine env (el_swarm (nd_loop ?nd)) (command_of nd ?a) (handle_result h')"
    unfolding sw(2) cmd [symmetric] by (rule task_sent_append [OF own(1)], rule genuine_append [OF own(2)])
  moreover have "task_sent env (el_swarm (nd_loop ?nd)) c h" if "task_sent env ?sw c h" for c h
    using task_sent_append [OF that, of "new1 @ new2"] by (simp add: sw)
  moreover have "genuine env (el_swarm (nd_loop ?nd)) c x" if "genuine env ?sw c x" for c x
    using genuine_append [OF that, of "new1 @ new2"] by (simp add: sw)
  ultimately show ?thesis
    using requests_okD [OF assms(1)] unfolding requests_ok_def k by auto
qed

lemma requests_ok_retain:
  assumes "requests_ok env nd"
  shows "requests_ok env (nd\<lparr>nd_loop := retain_active (nd_loop nd), nd_selecting := True\<rparr>)"
proof -
  have "el_handles (retain_active (nd_loop nd)) = nd_handles nd" "el_swarm (retain_active (nd_loop nd)) = el_swarm (nd_loop nd)"
    by (simp_all add: retain_active_def)
  with requests_okD [OF assms] show ?thesis unfolding requests_ok_def by (auto simp: retain_active_commands)
qed

lemma node_act_requests:
  assumes "requests_ok env nd" and "node_inv nd" and "served nd" and "node_act env act nd = Some nd'"
  shows "requests_ok env nd'"
  using assms(4)
proof (cases rule: node_act_commands)
  case new
  then show ?thesis by (intro requests_ok_new [OF assms(2,1)])
next
  case submit
  then show ?thesis using assms(1) by (auto intro: requests_ok_poll_submit)
next
  case handle
  then show ?thesis using assms(1) by (auto intro: requests_ok_poll_handle)
next
  case (drop a elapsed)
  then have a: "a < length (nd_calls nd)" by (simp add: live_def)
  show ?thesis unfolding drop(3) drop_call_def
    by (rule requests_ok_one [OF assms(1) drop(1)]) (use requests_okD(2,3) [OF assms(1) a] in \<open>simp_all add: cf_drop_def\<close>)
next
  case retain
  then show ?thesis using assms(1) by (auto intro: requests_ok_retain)
next
  case command
  then show ?thesis using assms by (auto intro: requests_ok_command)
next
  case event
  then show ?thesis using assms by (auto intro: requests_ok_event)
next
  case closed
  then show ?thesis using assms(1) by (simp add: requests_ok_def)
next
  case other
  then show ?thesis by (intro requests_ok_same [OF assms(1)])
qed

lemma node_init_requests:
  assumes "node_start env None mdns_ok valid_protocol accept c cfg = Some (Inr s)"
  shows "requests_ok env (node_init s)"
  by (simp add: requests_ok_def node_init_def started_loop_idle [OF assms])

interpretation node_requests: node_invariant env "\<lambda>nd. node_inv nd \<and> served nd" "requests_ok env" for env
  by unfold_locales (auto intro: node_reach_inv node_reach_served node_init_requests node_act_requests)

lemma node_reach_requests: "node_reach env nd \<Longrightarrow> requests_ok env nd"
  by (rule node_requests.holds)

end
