(* ===== verification/Node_Messages.thy ===== *)
theory Node_Messages
  imports Node_History
begin

text \<open>
  What one step of a node does to the messages it handles: which calls it makes, what it sends to and gets from
  the swarm, what it announces to the application and which response channels it keeps. Most steps do nothing to
  them; one case rule has the four that do.
\<close>

section \<open>Calls\<close>

definition response_command :: "response_channel \<Rightarrow> 'resp \<Rightarrow> ('req, 'resp, 'stats) handler" where
  "response_command ch resp = HSendResponse (send_response_new ch resp)"

lemma response_command_client [simp]: "client_command m \<noteq> response_command ch resp"
  by (cases m) (simp_all add: response_command_def)

lemma response_command_inject [simp]: "response_command ch resp = response_command ch' resp' \<longleftrightarrow> ch = ch' \<and> resp = resp'"
  by (auto simp: response_command_def send_response_new_def)

lemma map_command_update:
  "call_command c = command_of nd a \<Longrightarrow> map call_command ((nd_calls nd)[a := c]) = map call_command (nd_calls nd)"
  by (metis list_update_id map_update)

lemma poll_submit_messages:
  assumes "a < length (nd_calls nd)"
  shows "map call_command (nd_calls (poll_submit a nd)) = map call_command (nd_calls nd)"
    and "el_swarm (nd_loop (poll_submit a nd)) = el_swarm (nd_loop nd)"
    and "el_events (nd_loop (poll_submit a nd)) = el_events (nd_loop nd)"
    and "nd_receiver (poll_submit a nd) = nd_receiver nd"
    and "el_pending_channels (nd_loop (poll_submit a nd)) = el_pending_channels (nd_loop nd)"
    and "nd_executed (poll_submit a nd) = nd_executed nd"
  using assms
  by (cases rule: poll_submit_cases; simp add: map_command_update set_handle_def set_call_def)+

lemma poll_handle_messages:
  "map call_command (nd_calls (poll_handle a w nd)) = map call_command (nd_calls nd)"
  "el_swarm (nd_loop (poll_handle a w nd)) = el_swarm (nd_loop nd)"
  "el_events (nd_loop (poll_handle a w nd)) = el_events (nd_loop nd)"
  "nd_receiver (poll_handle a w nd) = nd_receiver nd"
  "el_pending_channels (nd_loop (poll_handle a w nd)) = el_pending_channels (nd_loop nd)"
  "nd_executed (poll_handle a w nd) = nd_executed nd"
  by (cases "handle_result (nd_handles nd a)";
      simp add: poll_handle_ready poll_handle_pending map_command_update set_handle_def set_call_def)+

lemma drop_call_messages:
  "map call_command (nd_calls (drop_call elapsed a nd)) = map call_command (nd_calls nd)"
  "el_swarm (nd_loop (drop_call elapsed a nd)) = el_swarm (nd_loop nd)"
  "el_events (nd_loop (drop_call elapsed a nd)) = el_events (nd_loop nd)"
  "nd_receiver (drop_call elapsed a nd) = nd_receiver nd"
  "el_pending_channels (nd_loop (drop_call elapsed a nd)) = el_pending_channels (nd_loop nd)"
  "nd_executed (drop_call elapsed a nd) = nd_executed nd"
  by (simp_all add: drop_call_def map_command_update set_handle_def set_call_def)

lemma delete_subseq [simp]: "subseq (AList.delete k es) es"
  by (simp add: AList.delete_eq)

lemma set_update_subset: "set (AList.update k v es) \<subseteq> insert (k, v) (set es)"
  by (induction es) auto

lemma purge_subseq [simp]: "subseq (entries (snd (pm_purge_expired n m))) (entries m)"
  by (simp add: pm_purge_eq)

section \<open>Steps\<close>

text \<open>
  The step makes calls of the commands \<open>new\<close> and moves no message; response channels may be taken or purged, and the
  application may give up its receiver.
\<close>

definition same_messages ::
  "('req, 'resp, 'stats) node \<Rightarrow> ('req, 'resp, 'stats) handler list \<Rightarrow> ('req, 'resp, 'stats) node \<Rightarrow> bool" where
  "same_messages nd new nd' \<longleftrightarrow>
     el_swarm (nd_loop nd') = el_swarm (nd_loop nd) \<and> el_events (nd_loop nd') = el_events (nd_loop nd)
   \<and> (nd_receiver nd' \<longrightarrow> nd_receiver nd)
   \<and> subseq (entries (el_pending_channels (nd_loop nd'))) (entries (el_pending_channels (nd_loop nd)))
   \<and> map call_command (nd_calls nd') = map call_command (nd_calls nd) @ new \<and> nd_executed nd' = nd_executed nd"

lemma same_messages_entries:
  "same_messages nd new nd' \<Longrightarrow>
   set (entries (el_pending_channels (nd_loop nd'))) \<subseteq> set (entries (el_pending_channels (nd_loop nd)))"
  by (auto simp: same_messages_def dest: list_emb_set)

text \<open>The application answers: the channel it takes is one of a request it was shown under that identifier.\<close>

lemma new_response_cases:
  assumes "node_act env (NewResponse i resp) nd = Some nd'"
  obtains (refused) "nd' = nd\<lparr>nd_loop := (nd_loop nd)\<lparr>el_pending_channels := snd (pm_take i (el_pending_channels (nd_loop nd)))\<rparr>\<rparr>"
  | (taken) e where "(i, e) \<in> set (entries (el_pending_channels (nd_loop nd)))"
      "nd' = nd\<lparr>nd_loop := (nd_loop nd)\<lparr>el_pending_channels := snd (pm_take i (el_pending_channels (nd_loop nd)))\<rparr>,
                nd_calls := nd_calls nd @ [call_new (response_command (entry_value e) resp)]\<rparr>"
proof (cases "map_of (entries (el_pending_channels (nd_loop nd))) i")
  case None
  with assms refused show ?thesis
    by (auto simp: send_response_start_def pm_take_def split: if_splits)
next
  case (Some e)
  then have "(i, e) \<in> set (entries (el_pending_channels (nd_loop nd)))" by (rule map_of_SomeD)
  with assms Some taken show ?thesis
    by (auto simp: send_response_start_def pm_take_def command_future_new_def response_command_def split: if_splits)
qed

lemma node_act_messages [consumes 1, case_names call answer command event quiet]:
  assumes "node_act env act nd = Some nd'"
  obtains
    (call) m where "act = NewCall m" "same_messages nd [client_command m] nd'"
  | (answer) i resp e where "act = NewResponse i resp" "(i, e) \<in> set (entries (el_pending_channels (nd_loop nd)))"
      "same_messages nd [response_command (entry_value e) resp] nd'"
  | (command) n cmd rest where "act = LoopCommand n" "nd_queue nd = cmd # rest"
      "nd' = loop_handles env n (CommandReceived cmd)
               (nd\<lparr>nd_queue := rest, nd_executed := nd_executed nd @ [task_handle cmd]\<rparr>)"
  | (event) n e where "act = LoopEvent n e" "nd' = loop_handles env n (SwarmEvent e) nd"
  | (quiet) "same_messages nd [] nd'" "\<And>n e. act \<noteq> LoopEvent n e"
proof (cases act)
  case (NewCall m)
  with assms show ?thesis by (intro call) (auto simp: same_messages_def call_new_def split: if_splits)
next
  case (NewResponse i resp)
  from assms [unfolded NewResponse] show ?thesis
  proof (cases rule: new_response_cases)
    case refused
    show ?thesis
      by (rule quiet) (use NewResponse refused in \<open>auto simp: same_messages_def pm_take_def\<close>)
  next
    case (taken e)
    show ?thesis
      by (rule answer [OF NewResponse taken(1)])
         (auto simp: taken(2) same_messages_def pm_take_def call_new_def)
  qed
next
  case (PollSubmit a)
  with assms have "a < length (nd_calls nd)" "nd' = poll_submit a nd" by (auto simp: live_def split: if_splits)
  then show ?thesis by (intro quiet) (simp_all add: PollSubmit same_messages_def poll_submit_messages)
next
  case (PollHandle a w)
  with assms have "nd' = poll_handle a w nd" by (auto split: if_splits)
  then show ?thesis by (intro quiet) (simp_all add: PollHandle same_messages_def poll_handle_messages)
next
  case (DropCall a)
  with assms have "nd' = drop_call False a nd" by (auto split: if_splits)
  then show ?thesis by (intro quiet) (simp_all add: DropCall same_messages_def drop_call_messages)
next
  case (TimeoutCall a)
  with assms have "nd' = drop_call True a nd" by (auto split: if_splits)
  then show ?thesis by (intro quiet) (simp_all add: TimeoutCall same_messages_def drop_call_messages)
next
  case (LoopCommand n)
  with assms show ?thesis by (auto intro: command split: list.splits if_splits)
next
  case (LoopEvent n e)
  with assms show ?thesis by (auto intro: event split: if_splits)
next
  case (LoopStream n q p s)
  with assms show ?thesis
    by (intro quiet)
       (auto simp: same_messages_def loop_handles_eq loop_inbound_channel_def case_prod_beta Let_def split: if_splits)
next
  case (PurgeTick n)
  with assms show ?thesis by (intro quiet) (auto simp: same_messages_def)
next
  case (PollOpen i out)
  with assms show ?thesis
    by (intro quiet) (auto simp: same_messages_def set_dc_def split: if_splits prod.splits option.splits)
next
  case ReceiveChannel
  with assms show ?thesis by (intro quiet) (auto simp: same_messages_def split: if_splits list.splits)
qed (use assms in \<open>auto intro!: quiet simp: same_messages_def retain_active_def loop_handles_eq set_dc_def split: if_splits\<close>)

section \<open>Running a command\<close>

text \<open>The command of a step adds at most the message it was made for, and nothing else is moved.\<close>

lemma command_messages:
  assumes "node_inv nd" and "served nd" and "nd_queue nd = cmd # rest"
    and "nd' = loop_handles env n (CommandReceived cmd)
               (nd\<lparr>nd_queue := rest, nd_executed := nd_executed nd @ [task_handle cmd]\<rparr>)"
  obtains new where "el_swarm (nd_loop nd') = el_swarm (nd_loop nd) @ new" and "task_handle cmd < length (nd_calls nd)"
    and "\<And>p r. CallSendRequest p r \<in> set new \<Longrightarrow>
           \<exists>d. command_of nd (task_handle cmd) = HSendRequest d \<and> sr_peer_id d = p \<and> sr_request d = Some r"
    and "\<And>ch resp. CallSendResponse ch resp \<in> set new \<Longrightarrow> command_of nd (task_handle cmd) = response_command ch resp"
    and "\<And>e. Polled e \<notin> set new" and "length (messages_in new) \<le> 1"
    and "el_events (nd_loop nd') = el_events (nd_loop nd)" and "nd_receiver nd' = nd_receiver nd"
    and "el_pending_channels (nd_loop nd') = el_pending_channels (nd_loop nd)" and "nd_calls nd' = nd_calls nd"
proof -
  let ?a = "task_handle cmd" and ?sw = "el_swarm (nd_loop nd)"
  obtain c' sw' h' where r: "handler_run env (task_handler cmd) ?sw (nd_handles nd ?a) = (c', sw', h')" by (metis prod_cases3)
  obtain new2 where new2: "el_swarm (nd_loop nd') = sw' @ new2" "messages_in new2 = []"
    using handle_command_swarm [OF r] by (auto simp: assms(4) loop_handles_eq adds_quietly_def)
  obtain new1 where new1: "sw' = ?sw @ new1" using handler_run_extends [OF r] by blast
  have quiet: "c \<in> set (new1 @ new2) \<longleftrightarrow> c \<in> set new1" if "is_message c" for c
    using that new2(2) by (auto simp: messages_in_def filter_empty_conv)
  have cmd: "task_handler cmd = command_of nd ?a" using servedD(1) [OF assms(2)] assms(3) by simp
  show ?thesis
  proof (rule that [of "new1 @ new2"])
    show "el_swarm (nd_loop nd') = ?sw @ new1 @ new2" by (simp add: new1 new2)
    show "?a < length (nd_calls nd)" using outstanding_lt [OF assms(1)] assms(3) by simp
    fix p r assume "CallSendRequest p r \<in> set (new1 @ new2)"
    then have "CallSendRequest p r \<in> set new1" using quiet by simp
    from r this show "\<exists>d. command_of nd ?a = HSendRequest d \<and> sr_peer_id d = p \<and> sr_request d = Some r"
      by (cases rule: handler_run_swarm) (auto simp: new1 cmd [symmetric] adds_quietly_def messages_in_def filter_empty_conv)
  next
    fix ch resp assume "CallSendResponse ch resp \<in> set (new1 @ new2)"
    then have "CallSendResponse ch resp \<in> set new1" using quiet by simp
    from r this show "command_of nd ?a = response_command ch resp"
      by (cases rule: handler_run_swarm)
         (auto simp: new1 cmd [symmetric] response_command_def adds_quietly_def messages_in_def filter_empty_conv)
  next
    fix e
    have "Polled e \<notin> set new1"
      using r by (cases rule: handler_run_swarm) (auto simp: new1 adds_quietly_def messages_in_def filter_empty_conv)
    then show "Polled e \<notin> set (new1 @ new2)" using quiet [of "Polled e"] by simp
  next
    have "length (messages_in new1) \<le> 1" using r by (cases rule: handler_run_swarm) (auto simp: new1 adds_quietly_def)
    then show "length (messages_in (new1 @ new2)) \<le> 1" using new2(2) by simp
  qed (simp_all add: assms(4) loop_handles_eq)
qed

section \<open>Delivering an event\<close>

text \<open>The event is recorded first, and nothing that follows in that step carries a message.\<close>

lemma event_messages:
  assumes "nd' = loop_handles env n (SwarmEvent e) nd"
  obtains new where "el_swarm (nd_loop nd') = el_swarm (nd_loop nd) @ Polled e # new"
    and "\<And>c. is_message c \<Longrightarrow> c \<notin> set new" and "nd_receiver nd' = nd_receiver nd" and "nd_calls nd' = nd_calls nd"
proof -
  obtain new where "el_swarm (nd_loop nd') = (el_swarm (nd_loop nd) @ [Polled e]) @ new" "messages_in new = []"
    using handle_swarm_event_swarm [of "(nd_loop nd)\<lparr>el_swarm := el_swarm (nd_loop nd) @ [Polled e]\<rparr>" env "turn_now n nd" e]
    by (auto simp: assms loop_handles_eq adds_quietly_def)
  then show thesis by (intro that [of new]) (auto simp: assms loop_handles_eq messages_in_def filter_empty_conv)
qed

text \<open>How the history of the swarm grows.\<close>

lemma node_act_polled:
  assumes "node_inv nd" and "served nd" and "node_act env act nd = Some nd'"
  obtains (delivered) n e new where "act = LoopEvent n e" "el_swarm (nd_loop nd') = el_swarm (nd_loop nd) @ Polled e # new"
      "\<And>e'. Polled e' \<notin> set new"
    | (other) new where "\<And>n e. act \<noteq> LoopEvent n e" "el_swarm (nd_loop nd') = el_swarm (nd_loop nd) @ new"
      "\<And>e'. Polled e' \<notin> set new"
  using assms(3)
proof (cases rule: node_act_messages)
  case (command n cmd rest)
  obtain new where "el_swarm (nd_loop nd') = el_swarm (nd_loop nd) @ new" "\<And>e'. Polled e' \<notin> set new"
    using command_messages [OF assms(1,2) command(2,3)] by metis
  then show ?thesis using other command(1) by blast
next
  case (event n e)
  obtain new where "el_swarm (nd_loop nd') = el_swarm (nd_loop nd) @ Polled e # new" "\<And>c. is_message c \<Longrightarrow> c \<notin> set new"
    by (rule event_messages [OF event(2)]) blast
  then show ?thesis using delivered [OF event(1)] by simp
qed (use other [of "[]"] in \<open>auto simp: same_messages_def\<close>)

text \<open>A call keeps its command.\<close>

lemma node_act_keeps_command:
  assumes "node_act env act nd = Some nd'" and "a < length (nd_calls nd)"
  shows "a < length (nd_calls nd') \<and> command_of nd' a = command_of nd a"
proof -
  have same: "a < length (nd_calls nd') \<and> command_of nd' a = command_of nd a" if s: "same_messages nd new nd'" for new
  proof -
    have l: "map call_command (nd_calls nd') = map call_command (nd_calls nd) @ new" using s by (simp add: same_messages_def)
    from arg_cong [OF l, of length] arg_cong [OF l, of "\<lambda>xs. xs ! a"] assms(2) show ?thesis by (simp add: nth_append)
  qed
  from assms(1) show ?thesis by (cases rule: node_act_messages) (use same assms(2) in \<open>simp_all add: loop_handles_eq\<close>)
qed

lemma node_acts_keep_command:
  "node_acts env as nd = Some nd' \<Longrightarrow> a < length (nd_calls nd) \<Longrightarrow> a < length (nd_calls nd') \<and> command_of nd' a = command_of nd a"
proof (induction as arbitrary: nd)
  case (Cons act as)
  then obtain nd1 where "node_act env act nd = Some nd1" "node_acts env as nd1 = Some nd'" by (auto split: option.splits)
  with Cons.IH node_act_keeps_command [OF _ Cons.prems(2)] show ?case by metis
qed simp

section \<open>The start\<close>

lemma started_quietly:
  assumes "node_start env None mdns_ok valid_protocol accept c cfg = Some (Inr s)"
  shows "messages_in (el_swarm (started_loop s)) = []" and "entries (el_pending_channels (started_loop s)) = []"
proof -
  have "messages_in (map CallListenOn as) = []" "messages_in (bootstrap_calls ps) = []" for as ps
    by (auto simp: messages_in_def filter_empty_conv bootstrap_calls_def)
  then show "messages_in (el_swarm (started_loop s)) = []" and "entries (el_pending_channels (started_loop s)) = []"
    using assms
    by (auto simp: node_start_def Let_def event_loop_new_def connect_bootstrap_eq pm_new_def dest!: start_listen_ok
        split: option.splits prod.splits sum.splits)
qed

lemma started_no_messages:
  assumes "node_trace env [] nd"
  shows "messages_in (el_swarm (nd_loop nd)) = []"
  using assms
proof (cases rule: node_trace.cases)
  case (trace_started mdns_ok valid_protocol accept c cfg s)
  with started_quietly(1) [OF trace_started(2)] show ?thesis by (simp add: node_init_def)
qed simp

end
