(* ===== verification/Node_Replies.thy ===== *)
theory Node_Replies
  imports Node_Messages
begin

text \<open>
  Responses a node sends come from its application: for each, the application called \<open>send_response\<close> with it, for
  the identifier under which it had been shown the request the response channel came with. This speaks of what
  the application did, so it is a property of runs.
\<close>

section \<open>What the application was told\<close>

text \<open>
  The request \<open>r\<close> of the peer \<open>p\<close> arrived with the response channel \<open>ch\<close>, and the application, unless it has given up
  its receiver, has been sent the event that shows it under \<open>i\<close>.
\<close>

definition told ::
  "peer_id \<Rightarrow> u64 \<Rightarrow> 'req \<Rightarrow> response_channel \<Rightarrow> ('req, 'resp, 'stats) node \<Rightarrow> bool" where
  "told p i r ch nd \<longleftrightarrow>
     Polled (inbound_request p r ch) \<in> set (el_swarm (nd_loop nd))
   \<and> (InboundRequest p i r \<in> set (el_events (nd_loop nd)) \<or> \<not> nd_receiver nd)"

text \<open>What a step may not take back.\<close>

definition keeps_told :: "('req, 'resp, 'stats) node \<Rightarrow> ('req, 'resp, 'stats) node \<Rightarrow> bool" where
  "keeps_told nd nd' \<longleftrightarrow>
     set (el_swarm (nd_loop nd)) \<subseteq> set (el_swarm (nd_loop nd'))
   \<and> set (el_events (nd_loop nd)) \<subseteq> set (el_events (nd_loop nd'))
   \<and> (nd_receiver nd' \<longrightarrow> nd_receiver nd)"

lemma told_kept: "keeps_told nd nd' \<Longrightarrow> told p i r ch nd \<Longrightarrow> told p i r ch nd'"
  by (auto simp: told_def keeps_told_def)

section \<open>The property of runs\<close>

definition replies_ok ::
  "('req, 'resp, 'stats) node_action list \<Rightarrow> ('req, 'resp, 'stats) node \<Rightarrow> bool" where
  "replies_ok as nd \<longleftrightarrow>
     (\<forall>x \<in> set (entries (el_pending_channels (nd_loop nd))). \<exists>p r. told p (fst x) r (entry_value (snd x)) nd)
   \<and> (\<forall>a < length (nd_calls nd). \<forall>ch resp. command_of nd a = response_command ch resp \<longrightarrow>
        (\<exists>p i r. NewResponse i resp \<in> set as \<and> told p i r ch nd))
   \<and> (\<forall>ch resp. CallSendResponse ch resp \<in> set (el_swarm (nd_loop nd)) \<longrightarrow>
        (\<exists>a < length (nd_calls nd). command_of nd a = response_command ch resp))"

lemma replies_okD:
  assumes "replies_ok as nd"
  shows "x \<in> set (entries (el_pending_channels (nd_loop nd))) \<Longrightarrow> \<exists>p r. told p (fst x) r (entry_value (snd x)) nd"
    and "a < length (nd_calls nd) \<Longrightarrow> command_of nd a = response_command ch resp \<Longrightarrow>
      \<exists>p i r. NewResponse i resp \<in> set as \<and> told p i r ch nd"
    and "CallSendResponse ch resp \<in> set (el_swarm (nd_loop nd)) \<Longrightarrow>
      \<exists>a < length (nd_calls nd). command_of nd a = response_command ch resp"
  using assms unfolding replies_ok_def by blast+

text \<open>
  What each step has to show: its new pending channels were announced, its new calls of \<open>send_response\<close> answer an
  announced request, its new responses have a call.
\<close>

lemma replies_ok_step:
  assumes "replies_ok as nd" and k: "keeps_told nd nd'"
    and e: "\<And>x. x \<in> set (entries (el_pending_channels (nd_loop nd'))) \<Longrightarrow>
        x \<in> set (entries (el_pending_channels (nd_loop nd))) \<or> (\<exists>p r. told p (fst x) r (entry_value (snd x)) nd')"
    and l: "map call_command (nd_calls nd') = map call_command (nd_calls nd) @ new"
    and n: "\<And>ch resp. response_command ch resp \<in> set new \<Longrightarrow> \<exists>p i r. NewResponse i resp \<in> set bs \<and> told p i r ch nd'"
    and s: "\<And>ch resp. CallSendResponse ch resp \<in> set (el_swarm (nd_loop nd')) \<Longrightarrow>
        CallSendResponse ch resp \<in> set (el_swarm (nd_loop nd))
      \<or> (\<exists>a < length (nd_calls nd). command_of nd a = response_command ch resp)"
  shows "replies_ok (as @ bs) nd'"
proof -
  have len: "length (nd_calls nd') = length (nd_calls nd) + length new" using arg_cong [OF l, of length] by simp
  have cmd: "command_of nd' a = (if a < length (nd_calls nd) then command_of nd a else new ! (a - length (nd_calls nd)))"
    if "a < length (nd_calls nd')" for a
    using arg_cong [OF l, of "\<lambda>xs. xs ! a"] that len by (simp add: nth_append)
  show ?thesis
    unfolding replies_ok_def
  proof (intro conjI ballI allI impI)
    fix x assume "x \<in> set (entries (el_pending_channels (nd_loop nd')))"
    with e replies_okD(1) [OF assms(1)] told_kept [OF k] show "\<exists>p r. told p (fst x) r (entry_value (snd x)) nd'" by metis
  next
    fix a ch resp assume a: "a < length (nd_calls nd')" "command_of nd' a = response_command ch resp"
    show "\<exists>p i r. NewResponse i resp \<in> set (as @ bs) \<and> told p i r ch nd'"
    proof (cases "a < length (nd_calls nd)")
      case True
      with a cmd [OF a(1)] replies_okD(2) [OF assms(1)] told_kept [OF k] show ?thesis by fastforce
    next
      case False
      then have "new ! (a - length (nd_calls nd)) \<in> set new" using a(1) len by (intro nth_mem) linarith
      with n [of ch resp] a False cmd [OF a(1)] show ?thesis by auto
    qed
  next
    fix ch resp assume "CallSendResponse ch resp \<in> set (el_swarm (nd_loop nd'))"
    then obtain a where "a < length (nd_calls nd)" "command_of nd a = response_command ch resp"
      using s replies_okD(3) [OF assms(1)] by metis
    with cmd [of a] len show "\<exists>a < length (nd_calls nd'). command_of nd' a = response_command ch resp"
      by (intro exI [of _ a]) simp
  qed
qed

text \<open>A step that moves no message; its new calls of \<open>send_response\<close> are still to be accounted for.\<close>

lemma replies_ok_same:
  assumes "replies_ok as nd" and "same_messages nd new nd'"
    and "\<And>ch resp. response_command ch resp \<in> set new \<Longrightarrow> \<exists>p i r. NewResponse i resp \<in> set bs \<and> told p i r ch nd'"
  shows "replies_ok (as @ bs) nd'"
  by (rule replies_ok_step [OF assms(1), where new = new])
     (use assms(2,3) same_messages_entries [OF assms(2)] in \<open>auto simp: same_messages_def keeps_told_def\<close>)

lemma same_messages_told: "same_messages nd new nd' \<Longrightarrow> told p i r ch nd \<Longrightarrow> told p i r ch nd'"
  by (auto simp: same_messages_def told_def)

text \<open>An event that is a request is announced under the identifier its channel is kept for.\<close>

lemma replies_ok_event:
  assumes "replies_ok as nd"
  shows "replies_ok (as @ bs) (loop_handles env n (SwarmEvent e) nd)"
proof -
  let ?nd = "loop_handles env n (SwarmEvent e) nd" and ?sw = "el_swarm (nd_loop nd)"
  let ?el = "(nd_loop nd)\<lparr>el_swarm := ?sw @ [Polled e]\<rparr>"
  have nd: "?nd = nd\<lparr>nd_loop := handle_swarm_event env (turn_now n nd) e ?el, nd_selecting := False\<rparr>"
    by (simp add: loop_handles_eq)
  have sw: "adds_quietly (?sw @ [Polled e]) (el_swarm (nd_loop ?nd))"
    using handle_swarm_event_swarm [of ?el env "turn_now n nd" e] by (simp add: nd)
  obtain new where "el_events (nd_loop ?nd) = el_events (nd_loop nd) @ new"
    using handle_swarm_event_events [of env "turn_now n nd" e ?el] by (auto simp: nd)
  moreover have "nd_receiver ?nd = nd_receiver nd" by (simp add: nd)
  ultimately have k: "keeps_told nd ?nd" using sw by (auto simp: keeps_told_def adds_quietly_def)
  show ?thesis
  proof (rule replies_ok_step [OF assms k, where new = "[]"])
    fix x assume x: "x \<in> set (entries (el_pending_channels (nd_loop ?nd)))"
    show "x \<in> set (entries (el_pending_channels (nd_loop nd))) \<or> (\<exists>p r. told p (fst x) r (entry_value (snd x)) ?nd)"
    proof (cases "is_inbound_request e")
      case False
      with x show ?thesis by (simp add: nd handle_swarm_event_other_frame)
    next
      case True
      then obtain p r ch where e: "e = inbound_request p r ch" by (auto simp: is_inbound_request_iff)
      let ?i = "el_pending_id_counter (nd_loop nd)"
      have "x \<in> insert (?i, \<lparr>entry_value = ch, created_at = now (turn_now n nd)\<rparr>)
          (set (entries (el_pending_channels (nd_loop nd))))"
        using x unfolding nd unfolding e
        by (auto simp: handle_inbound_request_event pm_insert_def dest: subsetD [OF set_update_subset])
      moreover have "told p ?i r ch ?nd"
        using adds_quietly_set [OF sw, of "Polled e"]
        unfolding nd unfolding e by (auto simp: told_def handle_inbound_request_event send_event_def turn_now_def)
      ultimately show ?thesis by auto
    qed
  next
    fix ch resp assume "CallSendResponse ch resp \<in> set (el_swarm (nd_loop ?nd))"
    then show "CallSendResponse ch resp \<in> set ?sw
        \<or> (\<exists>a < length (nd_calls nd). command_of nd a = response_command ch resp)"
      using adds_quietly_set [OF sw, of "CallSendResponse ch resp"] by simp
  qed simp_all
qed

lemma node_act_replies:
  assumes "replies_ok as nd" and "node_inv nd" and "served nd" and "node_act env act nd = Some nd'"
  shows "replies_ok (as @ [act]) nd'"
  using assms(4)
proof (cases rule: node_act_messages)
  case (call m)
  then show ?thesis by (intro replies_ok_same [OF assms(1) call(2)]) (auto dest: sym)
next
  case (answer i resp e)
  obtain p r where "told p i r (entry_value e) nd" using replies_okD(1) [OF assms(1) answer(2)] by auto
  then have "told p i r (entry_value e) nd'" by (rule same_messages_told [OF answer(3)])
  then show ?thesis by (intro replies_ok_same [OF assms(1) answer(3)]) (auto simp: answer(1))
next
  case (command n cmd rest)
  from command_messages [OF assms(2,3) command(2,3)] obtain new where c:
    "el_swarm (nd_loop nd') = el_swarm (nd_loop nd) @ new" "task_handle cmd < length (nd_calls nd)"
    "\<And>ch resp. CallSendResponse ch resp \<in> set new \<Longrightarrow> command_of nd (task_handle cmd) = response_command ch resp"
    "el_events (nd_loop nd') = el_events (nd_loop nd)" "nd_receiver nd' = nd_receiver nd"
    "el_pending_channels (nd_loop nd') = el_pending_channels (nd_loop nd)" "nd_calls nd' = nd_calls nd"
    by metis
  then have "keeps_told nd nd'" by (simp add: keeps_told_def)
  then show ?thesis by (rule replies_ok_step [OF assms(1), where new = "[]"]) (use c in auto)
next
  case (event n e)
  then show ?thesis using replies_ok_event [OF assms(1)] by simp
next
  case quiet
  then show ?thesis by (intro replies_ok_same [OF assms(1) quiet(1)]) simp
qed

lemma node_init_replies:
  assumes "node_start env None mdns_ok valid_protocol accept c cfg = Some (Inr s)"
  shows "replies_ok [] (node_init s)"
proof -
  have "CallSendResponse ch resp \<notin> set (el_swarm (started_loop s))" for ch and resp :: 'b
    using started_quietly(1) [OF assms] by (auto simp: messages_in_def filter_empty_conv)
  with started_quietly(2) [OF assms] show ?thesis by (simp add: replies_ok_def node_init_def)
qed

interpretation node_replies: node_history env "\<lambda>nd. node_inv nd \<and> served nd" replies_ok for env
  by unfold_locales (auto intro: node_reach_inv node_reach_served node_init_replies node_act_replies)

lemma node_trace_replies: "node_trace env as nd \<Longrightarrow> replies_ok as nd"
  by (rule node_replies.holds)

section \<open>Requests\<close>

text \<open>
  The other direction: each call was made by the application, by \<open>NewCall\<close> or by \<open>NewResponse\<close>; each request in
  the history is one of its calls of \<open>send_request\<close>; and each request it is shown was delivered by the network.
\<close>

definition requests_made ::
  "('req, 'resp, 'stats) node_action list \<Rightarrow> ('req, 'resp, 'stats) node \<Rightarrow> bool" where
  "requests_made as nd \<longleftrightarrow>
     (\<forall>a < length (nd_calls nd).
        (\<exists>m. NewCall m \<in> set as \<and> command_of nd a = client_command m) \<or> (\<exists>ch resp. command_of nd a = response_command ch resp))
   \<and> (\<forall>p r. CallSendRequest p r \<in> set (el_swarm (nd_loop nd)) \<longrightarrow> NewCall (SendRequest p r) \<in> set as)
   \<and> (\<forall>p i r. InboundRequest p i r \<in> set (el_events (nd_loop nd)) \<longrightarrow>
        (\<exists>ch. Polled (inbound_request p r ch) \<in> set (el_swarm (nd_loop nd))))"

lemma requests_madeD:
  assumes "requests_made as nd"
  shows "a < length (nd_calls nd) \<Longrightarrow> (\<exists>m. NewCall m \<in> set as \<and> command_of nd a = client_command m)
      \<or> (\<exists>ch resp. command_of nd a = response_command ch resp)"
    and "CallSendRequest p r \<in> set (el_swarm (nd_loop nd)) \<Longrightarrow> NewCall (SendRequest p r) \<in> set as"
    and "InboundRequest p i r \<in> set (el_events (nd_loop nd)) \<Longrightarrow>
      \<exists>ch. Polled (inbound_request p r ch) \<in> set (el_swarm (nd_loop nd))"
  using assms unfolding requests_made_def by blast+

lemma requests_made_step:
  assumes "requests_made as nd" and sw: "set (el_swarm (nd_loop nd)) \<subseteq> set (el_swarm (nd_loop nd'))"
    and l: "map call_command (nd_calls nd') = map call_command (nd_calls nd) @ new"
    and n: "\<And>c. c \<in> set new \<Longrightarrow> (\<exists>m. NewCall m \<in> set bs \<and> c = client_command m) \<or> (\<exists>ch resp. c = response_command ch resp)"
    and s: "\<And>p r. CallSendRequest p r \<in> set (el_swarm (nd_loop nd')) \<Longrightarrow>
        CallSendRequest p r \<in> set (el_swarm (nd_loop nd)) \<or> NewCall (SendRequest p r) \<in> set as"
    and e: "\<And>p i r. InboundRequest p i r \<in> set (el_events (nd_loop nd')) \<Longrightarrow> InboundRequest p i r \<in> set (el_events (nd_loop nd))
        \<or> (\<exists>ch. Polled (inbound_request p r ch) \<in> set (el_swarm (nd_loop nd')))"
  shows "requests_made (as @ bs) nd'"
proof -
  have c: "(\<exists>m. NewCall m \<in> set (as @ bs) \<and> c = client_command m) \<or> (\<exists>ch resp. c = response_command ch resp)"
    if c: "c \<in> set (map call_command (nd_calls nd'))" for c
  proof (cases "c \<in> set new")
    case True
    show ?thesis using n [OF True] by auto
  next
    case False
    then obtain a where a: "a < length (nd_calls nd)" "c = command_of nd a" using c unfolding l by (auto simp: in_set_conv_nth)
    show ?thesis using requests_madeD(1) [OF assms(1) a(1)] unfolding a(2) by auto
  qed
  show ?thesis
    unfolding requests_made_def
  proof (intro conjI allI impI)
    fix a assume "a < length (nd_calls nd')"
    then show "(\<exists>m. NewCall m \<in> set (as @ bs) \<and> command_of nd' a = client_command m)
        \<or> (\<exists>ch resp. command_of nd' a = response_command ch resp)"
      by (intro c) simp
  next
    fix p r assume "CallSendRequest p r \<in> set (el_swarm (nd_loop nd'))"
    from s [OF this] requests_madeD(2) [OF assms(1), of p r] show "NewCall (SendRequest p r) \<in> set (as @ bs)" by auto
  next
    fix p i r assume "InboundRequest p i r \<in> set (el_events (nd_loop nd'))"
    from e [OF this] requests_madeD(3) [OF assms(1), of p i r] sw
    show "\<exists>ch. Polled (inbound_request p r ch) \<in> set (el_swarm (nd_loop nd'))" by blast
  qed
qed

lemma requests_made_same:
  assumes "requests_made as nd" and "same_messages nd new nd'"
    and "\<And>c. c \<in> set new \<Longrightarrow> (\<exists>m. NewCall m \<in> set bs \<and> c = client_command m) \<or> (\<exists>ch resp. c = response_command ch resp)"
  shows "requests_made (as @ bs) nd'"
  by (rule requests_made_step [OF assms(1), where new = new]) (use assms(2,3) in \<open>auto simp: same_messages_def\<close>)

lemma client_request:
  "client_command m = HSendRequest d \<Longrightarrow> sr_request d = Some r \<Longrightarrow> m = SendRequest (sr_peer_id d) r"
  by (cases m) (auto simp: send_request_new_def)

lemma requests_made_event:
  assumes "requests_made as nd" and "nd' = loop_handles env n (SwarmEvent e) nd"
  shows "requests_made (as @ bs) nd'"
proof -
  let ?el = "(nd_loop nd)\<lparr>el_swarm := el_swarm (nd_loop nd) @ [Polled e]\<rparr>"
  obtain new where sw: "el_swarm (nd_loop nd') = el_swarm (nd_loop nd) @ Polled e # new" "\<And>c. is_message c \<Longrightarrow> c \<notin> set new"
    and c: "nd_calls nd' = nd_calls nd"
    using event_messages [OF assms(2)] by metis
  have ev: "el_events (nd_loop nd') = el_events (handle_swarm_event env (turn_now n nd) e ?el)"
    by (simp add: assms(2) loop_handles_eq)
  have "InboundRequest p i r \<in> set (el_events (nd_loop nd)) \<or> (\<exists>ch. Polled (inbound_request p r ch) \<in> set (el_swarm (nd_loop nd')))"
    if i: "InboundRequest p i r \<in> set (el_events (nd_loop nd'))" for p i r
  proof (cases "is_inbound_request e")
    case True
    then show ?thesis
      using i sw by (auto simp: ev is_inbound_request_iff handle_inbound_request_event send_event_def split: if_splits)
  next
    case False
    obtain evs where evs: "el_events (nd_loop nd') = el_events (nd_loop nd) @ evs"
      using handle_swarm_event_events [of env "turn_now n nd" e ?el] by (auto simp: ev)
    then have "pending_ids evs = []" using handle_swarm_event_other_frame(3) [OF False, of env "turn_now n nd" ?el] ev by simp
    then have "InboundRequest p i r \<notin> set evs" by (induction evs) (auto simp: pending_ids_def List.map_filter_simps split: option.splits)
    with i evs show ?thesis by simp
  qed
  then show ?thesis by (intro requests_made_step [OF assms(1), where new = "[]"]) (use sw c in auto)
qed

lemma node_act_made:
  assumes "requests_made as nd" and "node_inv nd" and "served nd" and "node_act env act nd = Some nd'"
  shows "requests_made (as @ [act]) nd'"
  using assms(4)
proof (cases rule: node_act_messages)
  case (call m)
  then show ?thesis by (intro requests_made_same [OF assms(1) call(2)]) auto
next
  case (answer i resp e)
  show ?thesis by (rule requests_made_same [OF assms(1) answer(3)]) auto
next
  case (command n cmd rest)
  from command_messages [OF assms(2,3) command(2,3)] obtain new where c:
    "el_swarm (nd_loop nd') = el_swarm (nd_loop nd) @ new" "task_handle cmd < length (nd_calls nd)"
    "\<And>p r. CallSendRequest p r \<in> set new \<Longrightarrow>
       \<exists>d. command_of nd (task_handle cmd) = HSendRequest d \<and> sr_peer_id d = p \<and> sr_request d = Some r"
    "el_events (nd_loop nd') = el_events (nd_loop nd)" "nd_calls nd' = nd_calls nd"
    by metis
  have "NewCall (SendRequest p r) \<in> set as" if "CallSendRequest p r \<in> set new" for p r
    using c(3) [OF that] requests_madeD(1) [OF assms(1) c(2)] client_request by (fastforce simp: response_command_def)
  then show ?thesis by (intro requests_made_step [OF assms(1), where new = "[]"]) (use c in auto)
next
  case (event n e)
  then show ?thesis using requests_made_event [OF assms(1)] by simp
next
  case quiet
  then show ?thesis by (intro requests_made_same [OF assms(1) quiet(1)]) simp
qed

lemma node_init_made:
  assumes "node_start env None mdns_ok valid_protocol accept c cfg = Some (Inr s)"
  shows "requests_made [] (node_init s)"
proof -
  have "CallSendRequest p r \<notin> set (el_swarm (started_loop s))" for p r
    using started_quietly(1) [OF assms] by (auto simp: messages_in_def filter_empty_conv)
  then show ?thesis by (simp add: requests_made_def node_init_def started_loop_idle [OF assms])
qed

interpretation node_made: node_history env "\<lambda>nd. node_inv nd \<and> served nd" requests_made for env
  by unfold_locales (auto intro: node_reach_inv node_reach_served node_init_made node_act_made)

lemma node_trace_made: "node_trace env as nd \<Longrightarrow> requests_made as nd"
  by (rule node_made.holds)

end
