(* ===== verification/Request_Path.thy ===== *)
theory Request_Path
  imports Node_Service Node_Replies
begin

text \<open>
  The way of a request and of its response through a whole running node, as schedules of its steps: on the side
  that asks, from the command in the channel to the value the caller gets; on the side that answers, from the
  event of the swarm to the response that is handed back to it.
\<close>

section \<open>The side that asks\<close>

definition request_task :: "peer_id \<Rightarrow> 'req \<Rightarrow> nat \<Rightarrow> ('req, 'resp, 'stats) command_task" where
  "request_task p r a = \<lparr>task_handler = client_command (SendRequest p r), task_handle = a\<rparr>"

text \<open>The active commands, among them requests that have been run, do not wait for identifier \<open>q\<close>.\<close>

definition nobody_waits_for :: "outbound_request_id \<Rightarrow> ('req, 'resp, 'stats) command_task list \<Rightarrow> bool" where
  "nobody_waits_for q cmds \<longleftrightarrow>
     (\<forall>u \<in> set cmds. \<forall>c. task_handler u = HSendRequest c \<longrightarrow> sr_request_id c \<noteq> Some q)"

lemma nobody_waits_forD:
  "nobody_waits_for q cmds \<Longrightarrow> u \<in> set cmds \<Longrightarrow> task_handler u = HSendRequest c \<Longrightarrow> sr_request_id c \<noteq> Some q"
  by (simp add: nobody_waits_for_def)

text \<open>The task of call \<open>a\<close> after its request to \<open>p\<close> was sent under the identifier \<open>q\<close>.\<close>

definition sent_task :: "peer_id \<Rightarrow> outbound_request_id \<Rightarrow> nat \<Rightarrow> ('req, 'resp, 'stats) command_task" where
  "sent_task p q a =
     \<lparr>task_handler = HSendRequest \<lparr>sr_peer_id = p, sr_request = None, sr_request_id = Some q\<rparr>, task_handle = a\<rparr>"

lemma sent_task_handle [simp]: "task_handle (sent_task p q a) = a"
  by (simp add: sent_task_def)

lemma handle_request_command:
  "handle_command env (request_task p r a) el =
     el\<lparr>el_swarm := el_swarm el @ [CallSendRequest p r],
        el_active_commands := el_active_commands el @ [sent_task p (send_request_query env (el_swarm el) p r) a]\<rparr>"
  by (simp add: handle_command_def request_task_def sent_task_def task_run_def task_take_relay_def send_request_run_def
      send_request_new_def Let_def)

lemma request_task_of:
  assumes "served nd" and "t \<in> set (nd_queue nd)" and "command_of nd (task_handle t) = client_command (SendRequest p r)"
  shows "t = request_task p r (task_handle t)"
  using servedD(1) [OF assms(1,2)] assms(3) by (simp add: request_task_def)

text \<open>A waiting call whose request is under way, and no other request that has its identifier.\<close>

definition awaits_response :: "('req, 'resp, 'stats) node \<Rightarrow> nat \<Rightarrow> peer_id \<Rightarrow> outbound_request_id \<Rightarrow> bool" where
  "awaits_response nd a p q \<longleftrightarrow>
     live nd a \<and> a \<in> set (nd_submitted nd) \<and> nd_running nd \<and> \<not> nd_selecting nd \<and> \<not> loop_stalled nd
   \<and> sent_task p q a \<in> set (el_active_commands (nd_loop nd))
   \<and> nobody_waits_for q (filter (\<lambda>u. u \<noteq> sent_task p q a) (el_active_commands (nd_loop nd)))"

text \<open>What a schedule leaves alone: the other calls, their handles and the application's events.\<close>

definition others_kept :: "nat \<Rightarrow> ('req, 'resp, 'stats) node \<Rightarrow> ('req, 'resp, 'stats) node \<Rightarrow> bool" where
  "others_kept a nd nd' \<longleftrightarrow>
     el_events (nd_loop nd') = el_events (nd_loop nd)
   \<and> (\<forall>b. b \<noteq> a \<longrightarrow> nd_calls nd' ! b = nd_calls nd ! b \<and> nd_handles nd' b = nd_handles nd b)"

lemma others_kept_trans: "others_kept a nd nd1 \<Longrightarrow> others_kept a nd1 nd2 \<Longrightarrow> others_kept a nd nd2"
  by (simp add: others_kept_def)

text \<open>The loop runs the command.\<close>

lemma request_sent:
  assumes "node_reach env nd" and "loop_can_select nd" and "nd_queue nd = t # rest" and "live nd (task_handle t)"
    and "command_of nd (task_handle t) = client_command (SendRequest p r)"
    and "q = send_request_query env (el_swarm (nd_loop nd)) p r"
    and "nobody_waits_for q (el_active_commands (nd_loop nd))"
  obtains nd1 where "node_act env (LoopCommand n) nd = Some nd1" and "awaits_response nd1 (task_handle t) p q"
    and "el_swarm (nd_loop nd1) = el_swarm (nd_loop nd) @ [CallSendRequest p r]"
    and "nd_calls nd1 = nd_calls nd" and "others_kept (task_handle t) nd nd1"
proof
  let ?a = "task_handle t"
  let ?nd1 = "loop_handles env n (CommandReceived t) (nd\<lparr>nd_queue := rest, nd_executed := nd_executed nd @ [?a]\<rparr>)"
  have t: "t = request_task p r ?a" using request_task_of [OF node_reach_served [OF assms(1)] _ assms(5)] assms(3) by simp
  have loop: "nd_loop ?nd1 = (nd_loop nd)\<lparr>el_swarm := el_swarm (nd_loop nd) @ [CallSendRequest p r],
      el_active_commands := el_active_commands (nd_loop nd) @ [sent_task p q ?a]\<rparr>"
    using handle_request_command [of env p r ?a "nd_loop nd"] t assms(6) by (simp add: loop_handles_eq)
  show "node_act env (LoopCommand n) nd = Some ?nd1" using assms(2,3) by simp
  show "nd_calls ?nd1 = nd_calls nd" by (simp add: loop_handles_eq)
  show "el_swarm (nd_loop ?nd1) = el_swarm (nd_loop nd) @ [CallSendRequest p r]" by (simp add: loop)
  show "others_kept ?a nd ?nd1" by (simp add: others_kept_def loop)
  have "?a \<in> set (outstanding nd)" using assms(3) by (simp add: outstanding_def)
  then have "?a \<in> set (nd_submitted nd)" using node_reach_inv [OF assms(1)] unfolding node_inv_def by auto
  moreover have "nd_running ?nd1" "\<not> nd_selecting ?nd1" "\<not> loop_stalled ?nd1" "nd_submitted ?nd1 = nd_submitted nd"
    "live ?nd1 ?a"
    using assms(2,4) loop by (simp_all add: loop_can_select_def loop_handles_eq loop_stalled_def events_waiting_def live_def)
  ultimately show "awaits_response ?nd1 ?a p q"
    using assms(7) by (auto simp: awaits_response_def loop nobody_waits_for_def)
qed

text \<open>The response comes back: the loop clears out, is handed the response, and the caller polls.\<close>

lemma response_returned:
  assumes "node_reach env nd" and "awaits_response nd a p q"
  obtains nd' where "node_acts env ([LoopRetain, LoopEvent n (response_event p q resp)] @ one_poll nd a w) nd = Some nd'"
    and "call_result (nd_calls nd' ! a) = Some (Inr (OResponse resp))"
    and "el_swarm (nd_loop nd') = el_swarm (nd_loop nd) @ [Polled (response_event p q resp)]" and "others_kept a nd nd'"
proof -
  let ?e = "response_event p q resp" and ?t = "sent_task p q a"
  let ?nd1 = "nd\<lparr>nd_loop := retain_active (nd_loop nd), nd_selecting := True\<rparr>"
  let ?nd2 = "loop_handles env n (SwarmEvent ?e) ?nd1"
  let ?h = "handle_finish (Inr (OResponse resp)) (nd_handles nd a)"
  note w = assms(2) [unfolded awaits_response_def]
  have a1: "node_act env LoopRetain nd = Some ?nd1" using w by simp
  have r1: "node_reach env ?nd1" by (rule node_step [OF assms(1) a1])
  have "a \<in> waiting_calls nd" using w by (simp add: waiting_calls_def)
  then have "\<not> cancelled (state (nd_handles nd a))" by (rule waiting_not_cancelled [OF node_reach_inv [OF assms(1)]])
  then have t: "?t \<in> set (el_active_commands (nd_loop ?nd1))" using w by (simp add: retain_active_commands)
  have d: "distinct (map task_handle (el_active_commands (nd_loop ?nd1)))"
    using node_reach_inv [OF r1] unfolding node_inv_def outstanding_def by simp
  have others: "\<forall>u \<in> set (el_active_commands (nd_loop ?nd1)). u \<noteq> ?t \<longrightarrow>
      (\<forall>c'. task_handler u = HSendRequest c' \<longrightarrow> sr_request_id c' \<noteq> Some q)"
    using w by (auto simp: retain_active_commands nobody_waits_for_def)
  obtain cmds' where "command_chain env 0 (el_active_commands (nd_loop ?nd1)) (Some ?e) (nd_handles nd) =
      (cmds', None, (nd_handles nd)(a := ?h))"
    using response_delivered [OF d t _ _ _ others, of "\<lparr>sr_peer_id = p, sr_request = None, sr_request_id = Some q\<rparr>" p env resp
        "nd_handles nd"]
    by (auto simp: response_event_def sent_task_def)
  then have nd2: "nd_handles ?nd2 = (nd_handles nd)(a := ?h)" "el_events (nd_loop ?nd2) = el_events (nd_loop nd)"
    "el_swarm (nd_loop ?nd2) = el_swarm (nd_loop nd) @ [Polled ?e]" "nd_calls ?nd2 = nd_calls nd"
    "nd_submitted ?nd2 = nd_submitted nd"
    by (simp_all add: loop_handles_eq handle_swarm_event_def)
  have "loop_can_select ?nd1"
    using w by (simp add: loop_can_select_def loop_stalled_def events_waiting_def retain_active_def)
  then have a2: "node_act env (LoopEvent n ?e) ?nd1 = Some ?nd2" by simp
  have r2: "node_reach env ?nd2" by (rule node_step [OF r1 a2])
  have lv: "live ?nd2 a" "a \<in> set (nd_submitted ?nd2)" "handle_result (nd_handles ?nd2 a) = Some (Inr (OResponse resp))"
    using w nd2 by (simp_all add: live_def)
  have p: "one_poll ?nd2 a w = one_poll nd a w" by (simp add: one_poll_def nd2(4))
  from poll_returns [OF node_reach_inv [OF r2] lv, of env w] obtain nd' where nd':
    "node_acts env (one_poll nd a w) ?nd2 = Some nd'" "call_result (nd_calls nd' ! a) = Some (Inr (OResponse resp))"
    "el_swarm (nd_loop nd') = el_swarm (nd_loop ?nd2)" "el_events (nd_loop nd') = el_events (nd_loop ?nd2)"
    "\<forall>b. b \<noteq> a \<longrightarrow> nd_calls nd' ! b = nd_calls ?nd2 ! b \<and> nd_handles nd' b = nd_handles ?nd2 b"
    unfolding p by blast
  show thesis
  proof (rule that)
    show "node_acts env ([LoopRetain, LoopEvent n ?e] @ one_poll nd a w) nd = Some nd'"
      using a1 a2 nd'(1) by (simp del: node_act.simps)
  qed (use nd' nd2 in \<open>simp_all add: others_kept_def\<close>)
qed

section \<open>The side that answers\<close>

text \<open>The loop is handed the request, and the application takes its events up to and including this one.\<close>

definition showing ::
  "instant \<Rightarrow> peer_id \<Rightarrow> 'req \<Rightarrow> response_channel \<Rightarrow> ('req, 'resp, 'stats) node \<Rightarrow> ('req, 'resp, 'stats) node_action list" where
  "showing n p r ch nd = LoopEvent n (inbound_request p r ch) # replicate (Suc (events_waiting nd)) ReceiveEvent"

text \<open>It answers under the identifier it was shown: the call is submitted, and the loop runs its command.\<close>

definition answering ::
  "instant \<Rightarrow> u64 \<Rightarrow> 'resp \<Rightarrow> ('req, 'resp, 'stats) node \<Rightarrow> ('req, 'resp, 'stats) node_action list" where
  "answering n i resp nd = [NewResponse i resp, PollSubmit (length (nd_calls nd)), LoopRetain, LoopCommand n]"

definition request_open :: "u64 \<Rightarrow> response_channel \<Rightarrow> ('req, 'resp, 'stats) node \<Rightarrow> bool" where
  "request_open i ch nd \<longleftrightarrow>
     nd_running nd \<and> \<not> nd_selecting nd \<and> \<not> loop_stalled nd \<and> nd_queue nd = [] \<and> 0 < nd_clients nd
   \<and> map_option entry_value (map_of (entries (el_pending_channels (nd_loop nd))) i) = Some ch"

lemma request_shown:
  assumes "node_reach env nd" and "loop_can_select nd" and "nd_receiver nd" and "nd_queue nd = []" and "0 < nd_clients nd"
  obtains nd1 where "node_acts env (showing n p r ch nd) nd = Some nd1"
    and "request_open (el_pending_id_counter (nd_loop nd)) ch nd1" and "nd_calls nd1 = nd_calls nd"
    and "el_swarm (nd_loop nd1) = el_swarm (nd_loop nd) @ [Polled (inbound_request p r ch)]"
    and "el_events (nd_loop nd1) = el_events (nd_loop nd) @ [InboundRequest p (el_pending_id_counter (nd_loop nd)) r]"
proof
  let ?nd1 = "loop_handles env n (SwarmEvent (inbound_request p r ch)) nd"
  let ?nd2 = "?nd1\<lparr>nd_received := nd_received ?nd1 + Suc (events_waiting nd)\<rparr>"
  let ?i = "el_pending_id_counter (nd_loop nd)"
  have q: "nd_received nd \<le> length (el_events (nd_loop nd))"
    using node_reach_queues [OF assms(1)] by (simp add: queues_ok_def)
  have ev: "el_events (nd_loop ?nd1) = el_events (nd_loop nd) @ [InboundRequest p ?i r]" "nd_received ?nd1 = nd_received nd"
    "nd_receiver ?nd1"
    using assms(3) by (simp_all add: loop_handles_eq handle_inbound_request_event send_event_def turn_now_def)
  have wait: "events_waiting ?nd1 = Suc (events_waiting nd)" using q by (simp add: events_waiting_def ev)
  have "node_act env (LoopEvent n (inbound_request p r ch)) nd = Some ?nd1" using assms(2) by simp
  then show "node_acts env (showing n p r ch nd) nd = Some ?nd2"
    using receive_events [OF ev(3), of "Suc (events_waiting nd)" env] wait
    by (simp add: showing_def del: node_act.simps replicate_Suc)
  show "nd_calls ?nd2 = nd_calls nd" "el_events (nd_loop ?nd2) = el_events (nd_loop nd) @ [InboundRequest p ?i r]"
    using ev by (simp_all add: loop_handles_eq)
  show "el_swarm (nd_loop ?nd2) = el_swarm (nd_loop nd) @ [Polled (inbound_request p r ch)]"
    by (simp add: loop_handles_eq handle_inbound_request_event send_event_def)
  have "\<not> loop_stalled ?nd2" using q by (simp add: loop_stalled_def events_waiting_def ev)
  then show "request_open ?i ch ?nd2"
    using assms(2,4,5)
    by (simp add: request_open_def loop_can_select_def loop_handles_eq handle_inbound_request_event send_event_def
        pm_insert_def AList.update_conv')
qed

lemma handle_response_command:
  "el_swarm (handle_command env \<lparr>task_handler = response_command ch resp, task_handle = a\<rparr> el) =
     el_swarm el @ [CallSendResponse ch resp]"
  "el_events (handle_command env \<lparr>task_handler = response_command ch resp, task_handle = a\<rparr> el) = el_events el"
  by (simp_all add: handle_command_def task_run_def task_take_relay_def response_command_def send_response_run_def
      send_response_new_def Let_def)

lemma response_sent:
  assumes "node_reach env nd" and "request_open i ch nd"
  obtains nd' where "node_acts env (answering n i resp nd) nd = Some nd'"
    and "el_swarm (nd_loop nd') = el_swarm (nd_loop nd) @ [CallSendResponse ch resp]"
    and "el_events (nd_loop nd') = el_events (nd_loop nd)"
proof
  note o = assms(2) [unfolded request_open_def]
  let ?k = "length (nd_calls nd)" and ?c = "response_command ch resp"
  let ?nd1 = "nd\<lparr>nd_loop := (nd_loop nd)\<lparr>el_pending_channels := snd (pm_take i (el_pending_channels (nd_loop nd)))\<rparr>,
      nd_calls := nd_calls nd @ [call_new ?c]\<rparr>"
  let ?nd2 = "poll_submit ?k ?nd1"
  let ?nd3 = "?nd2\<lparr>nd_loop := retain_active (nd_loop ?nd2), nd_selecting := True\<rparr>"
  let ?t = "\<lparr>task_handler = ?c, task_handle = ?k\<rparr>"
  let ?nd4 = "loop_handles env n (CommandReceived ?t) (?nd3\<lparr>nd_queue := [], nd_executed := nd_executed ?nd3 @ [?k]\<rparr>)"
  obtain e where "map_of (entries (el_pending_channels (nd_loop nd))) i = Some e" "entry_value e = ch" using o by auto
  then have a1: "node_act env (NewResponse i resp) nd = Some ?nd1"
    using o by (simp add: send_response_start_def pm_take_def command_future_new_def response_command_def)
  have c: "nd_calls ?nd1 ! ?k = call_new ?c" by simp
  have slot: "command_slot ?nd1 = SendOk"
    using o by (simp add: command_slot_def slot_of_def COMMAND_CHANNEL_SIZE_def)
  have a2: "node_act env (PollSubmit ?k) ?nd1 = Some ?nd2" by (simp add: live_def call_new_def)
  have nd2: "nd_loop ?nd2 = nd_loop ?nd1" "nd_queue ?nd2 = [?t]" "nd_running ?nd2" "\<not> nd_selecting ?nd2"
    "nd_received ?nd2 = nd_received nd" "nd_receiver ?nd2 = nd_receiver nd"
    using o unfolding poll_submit_def c slot
    by (simp_all add: call_new_def command_future_new_def cf_submit_def is_err_def Let_def set_call_def)
  have st: "\<not> loop_stalled ?nd2" "\<not> loop_stalled ?nd3"
    using o nd2 by (simp_all add: loop_stalled_def events_waiting_def retain_active_def)
  have a3: "node_act env LoopRetain ?nd2 = Some ?nd3" using nd2 st by simp
  have a4: "node_act env (LoopCommand n) ?nd3 = Some ?nd4" using nd2 st by (simp add: loop_can_select_def)
  show "node_acts env (answering n i resp nd) nd = Some ?nd4"
    using a1 a2 a3 a4 by (simp add: answering_def del: node_act.simps)
  show "el_swarm (nd_loop ?nd4) = el_swarm (nd_loop nd) @ [CallSendResponse ch resp]"
    "el_events (nd_loop ?nd4) = el_events (nd_loop nd)"
    by (simp_all add: loop_handles_eq handle_response_command nd2(1) retain_active_def)
qed

text \<open>Both together: the response that is handed back is the one the application gave.\<close>

lemma request_served:
  assumes "node_reach env nd" and "loop_can_select nd" and "nd_receiver nd" and "nd_queue nd = []" and "0 < nd_clients nd"
    and "i = el_pending_id_counter (nd_loop nd)"
  obtains nd' where "node_acts env (showing n p r ch nd @ answering n i resp nd) nd = Some nd'"
    and "el_swarm (nd_loop nd') = el_swarm (nd_loop nd) @ [Polled (inbound_request p r ch), CallSendResponse ch resp]"
    and "el_events (nd_loop nd') = el_events (nd_loop nd) @ [InboundRequest p i r]"
proof -
  obtain nd1 where nd1: "node_acts env (showing n p r ch nd) nd = Some nd1" "request_open i ch nd1" "nd_calls nd1 = nd_calls nd"
    "el_swarm (nd_loop nd1) = el_swarm (nd_loop nd) @ [Polled (inbound_request p r ch)]"
    "el_events (nd_loop nd1) = el_events (nd_loop nd) @ [InboundRequest p i r]"
    using request_shown [OF assms(1-5)] unfolding assms(6) by metis
  from response_sent [OF node_reach_acts [OF assms(1) nd1(1)] nd1(2)] obtain nd' where
    nd': "node_acts env (answering n i resp nd1) nd1 = Some nd'"
      "el_swarm (nd_loop nd') = el_swarm (nd_loop nd1) @ [CallSendResponse ch resp]" "el_events (nd_loop nd') = el_events (nd_loop nd1)"
    by metis
  then have "node_acts env (showing n p r ch nd @ answering n i resp nd) nd = Some nd'"
    using nd1(1,3) by (simp add: node_acts_append answering_def)
  with nd'(2,3) nd1(4,5) that show thesis by simp
qed

end
