(* ===== verification/Node_Network.thy ===== *)
theory Node_Network
  imports Request_Path
begin

text \<open>
  Several nodes of this program that talk to each other: each is a running node of its own, and a request or a
  response that one of them is handed as coming from another was sent by that other. What a caller of
  \<open>send_request\<close> gets is then what the application at the other end answered to that request.
\<close>

section \<open>Several nodes\<close>

text \<open>The nodes by the peer they are, and what each of them has done, in order.\<close>

record ('req, 'resp, 'stats) network =
  net_node :: "peer_id \<Rightarrow> ('req, 'resp, 'stats) node"
  net_done :: "peer_id \<Rightarrow> ('req, 'resp, 'stats) node_action list"

abbreviation net_swarm where
  "net_swarm net p \<equiv> el_swarm (nd_loop (net_node net p))"

text \<open>
  What the request-response protocol of the library delivers. A response channel comes with one inbound request.
  A request from a member was sent by it, and a response from a member for the identifier \<open>i\<close> is what that member
  handed back on the channel of a request that was sent to it under \<open>i\<close>. Nothing is said about when,
  or whether, a message arrives, nor about peers that are not members.
\<close>

definition arrives ::
  "(peer_id \<Rightarrow> ('req, 'resp, 'stats) net_env) \<Rightarrow> peer_id set \<Rightarrow> ('req, 'resp, 'stats) network \<Rightarrow> peer_id \<Rightarrow>
   ('req, 'resp, 'stats) swarm_event \<Rightarrow> bool" where
  "arrives envs M net p e \<longleftrightarrow>
     (case e of
        Behaviour (ReqRespEvent (Message q (Request r ch))) \<Rightarrow>
          (\<forall>q' r'. Polled (inbound_request q' r' ch) \<notin> set (net_swarm net p))
        \<and> (q \<in> M \<longrightarrow> CallSendRequest p r \<in> set (net_swarm net q))
      | Behaviour (ReqRespEvent (Message q (Response i resp))) \<Rightarrow>
          q \<in> M \<longrightarrow> (\<exists>r ch. sent_as (envs p) q r i (net_swarm net p)
            \<and> Polled (inbound_request p r ch) \<in> set (net_swarm net q) \<and> CallSendResponse ch resp \<in> set (net_swarm net q))
      | _ \<Rightarrow> True)"

lemma inbound_request_inject [simp]:
  "inbound_request p r ch = inbound_request p' r' ch' \<longleftrightarrow> p = p' \<and> r = r' \<and> ch = ch'"
  by (auto simp: inbound_request_def)

lemma arrives_request:
  "arrives envs M net p (inbound_request q r ch) \<longleftrightarrow>
     (\<forall>q' r'. Polled (inbound_request q' r' ch) \<notin> set (net_swarm net p))
   \<and> (q \<in> M \<longrightarrow> CallSendRequest p r \<in> set (net_swarm net q))"
  by (simp add: arrives_def inbound_request_def)

lemma arrives_response:
  "arrives envs M net p (response_event q i resp) \<longleftrightarrow>
     (q \<in> M \<longrightarrow> (\<exists>r ch. sent_as (envs p) q r i (net_swarm net p)
        \<and> Polled (inbound_request p r ch) \<in> set (net_swarm net q) \<and> CallSendResponse ch resp \<in> set (net_swarm net q)))"
  by (simp add: arrives_def response_event_def)

definition net_set where
  "net_set p nd as net =
     net\<lparr>net_node := (net_node net)(p := nd), net_done := (net_done net)(p := net_done net p @ as)\<rparr>"

lemma net_set_simps [simp]:
  "net_node (net_set p nd as net) = (net_node net)(p := nd)"
  "net_done (net_set p nd as net) = (net_done net)(p := net_done net p @ as)"
  "net_set p nd' bs (net_set p nd as net) = net_set p nd' (as @ bs) net"
  by (simp_all add: net_set_def)

text \<open>A member takes one step; an event it is handed must be one that can arrive.\<close>

definition net_act ::
  "(peer_id \<Rightarrow> ('req, 'resp, 'stats) net_env) \<Rightarrow> peer_id set \<Rightarrow> peer_id \<times> ('req, 'resp, 'stats) node_action \<Rightarrow>
   ('req, 'resp, 'stats) network \<Rightarrow> ('req, 'resp, 'stats) network option" where
  "net_act envs M x net =
     (case x of (p, act) \<Rightarrow>
        if p \<in> M \<and> (case act of LoopEvent n e \<Rightarrow> arrives envs M net p e | _ \<Rightarrow> True)
        then map_option (\<lambda>nd. net_set p nd [act] net) (node_act (envs p) act (net_node net p))
        else None)"

fun net_acts where
  "net_acts envs M [] net = Some net"
| "net_acts envs M (x # xs) net = (case net_act envs M x net of None \<Rightarrow> None | Some net' \<Rightarrow> net_acts envs M xs net')"

inductive net_reach ::
  "(peer_id \<Rightarrow> ('req, 'resp, 'stats) net_env) \<Rightarrow> peer_id set \<Rightarrow> ('req, 'resp, 'stats) network \<Rightarrow> bool" for envs M where
  net_started: "(\<And>p. p \<in> M \<Longrightarrow> node_trace (envs p) [] (net_node net p)) \<Longrightarrow> net_done net = (\<lambda>p. []) \<Longrightarrow> net_reach envs M net"
| net_step: "net_reach envs M net \<Longrightarrow> net_act envs M x net = Some net' \<Longrightarrow> net_reach envs M net'"

lemma net_acts_append:
  "net_acts envs M (xs @ ys) net = (case net_acts envs M xs net of None \<Rightarrow> None | Some net' \<Rightarrow> net_acts envs M ys net')"
  by (induction xs arbitrary: net) (simp_all split: option.split)

lemma net_acts_then:
  "net_acts envs M xs net = Some net' \<Longrightarrow> net_acts envs M (xs @ ys) net = net_acts envs M ys net'"
  by (simp add: net_acts_append)

lemma net_reach_acts: "net_reach envs M net \<Longrightarrow> net_acts envs M xs net = Some net' \<Longrightarrow> net_reach envs M net'"
  by (induction xs arbitrary: net) (auto intro: net_step split: option.splits)

text \<open>Each member does what a node on its own can do.\<close>

lemma net_reach_trace: "net_reach envs M net \<Longrightarrow> p \<in> M \<Longrightarrow> node_trace (envs p) (net_done net p) (net_node net p)"
proof (induction rule: net_reach.induct)
  case (net_step net x net')
  then show ?case by (cases x) (auto simp: net_act_def intro: trace_step split: if_splits)
qed simp

lemma net_reach_node: "net_reach envs M net \<Longrightarrow> p \<in> M \<Longrightarrow> node_reach (envs p) (net_node net p)"
  by (rule node_trace_reach [OF net_reach_trace])

section \<open>What was delivered was sent\<close>

definition net_ok ::
  "(peer_id \<Rightarrow> ('req, 'resp, 'stats) net_env) \<Rightarrow> peer_id set \<Rightarrow> ('req, 'resp, 'stats) network \<Rightarrow> bool" where
  "net_ok envs M net \<longleftrightarrow>
     (\<forall>p \<in> M. \<forall>q r q' r' ch. Polled (inbound_request q r ch) \<in> set (net_swarm net p) \<longrightarrow>
        Polled (inbound_request q' r' ch) \<in> set (net_swarm net p) \<longrightarrow> q = q' \<and> r = r')
   \<and> (\<forall>a \<in> M. \<forall>b \<in> M. \<forall>r ch. Polled (inbound_request a r ch) \<in> set (net_swarm net b) \<longrightarrow>
        CallSendRequest b r \<in> set (net_swarm net a))
   \<and> (\<forall>a \<in> M. \<forall>b \<in> M. \<forall>k i resp. k < length (net_swarm net a) \<longrightarrow> net_swarm net a ! k = Polled (response_event b i resp) \<longrightarrow>
        (\<exists>r ch. sent_as (envs a) b r i (take k (net_swarm net a)) \<and> Polled (inbound_request a r ch) \<in> set (net_swarm net b)
          \<and> CallSendResponse ch resp \<in> set (net_swarm net b)))"

lemma net_okD:
  assumes "net_ok envs M net"
  shows "p \<in> M \<Longrightarrow> Polled (inbound_request q r ch) \<in> set (net_swarm net p) \<Longrightarrow>
      Polled (inbound_request q' r' ch) \<in> set (net_swarm net p) \<Longrightarrow> q = q' \<and> r = r'"
    and "a \<in> M \<Longrightarrow> b \<in> M \<Longrightarrow> Polled (inbound_request a r ch) \<in> set (net_swarm net b) \<Longrightarrow>
      CallSendRequest b r \<in> set (net_swarm net a)"
    and "a \<in> M \<Longrightarrow> b \<in> M \<Longrightarrow> k < length (net_swarm net a) \<Longrightarrow> net_swarm net a ! k = Polled (response_event b i resp) \<Longrightarrow>
      \<exists>r ch. sent_as (envs a) b r i (take k (net_swarm net a)) \<and> Polled (inbound_request a r ch) \<in> set (net_swarm net b)
        \<and> CallSendResponse ch resp \<in> set (net_swarm net b)"
  using assms unfolding net_ok_def by blast+

text \<open>
  A step adds to the history of one member. At most one event is among what it adds, at the front, and it can arrive.
\<close>

lemma net_act_grows:
  assumes "net_reach envs M net" and "net_act envs M x net = Some net'"
  obtains p new where "p \<in> M" and "\<And>q. net_swarm net' q = net_swarm net q @ (if q = p then new else [])"
    and "\<And>k e. k < length new \<Longrightarrow> new ! k = Polled e \<Longrightarrow> k = 0 \<and> arrives envs M net p e"
proof -
  obtain p act where px: "x = (p, act)" by fastforce
  with assms(2) obtain nd' where x: "p \<in> M" "node_act (envs p) act (net_node net p) = Some nd'"
    "net' = net_set p nd' [act] net"
    by (auto simp: net_act_def split: if_splits)
  have ev: "arrives envs M net p e" if "act = LoopEvent n e" for n e
    using assms(2) that by (simp add: px net_act_def split: if_splits)
  note r = net_reach_node [OF assms(1) x(1)]
  from node_reach_inv [OF r] node_reach_served [OF r] x(2) show thesis
  proof (cases rule: node_act_polled)
    case (delivered n e new)
    show ?thesis
    proof (rule that [OF x(1), of "Polled e # new"])
      fix k e' assume k: "k < length (Polled e # new)" "(Polled e # new) ! k = Polled e'"
      have "k = 0"
      proof (rule ccontr)
        assume "k \<noteq> 0"
        then have "Polled e' \<in> set new" using k by (auto simp: nth_Cons' in_set_conv_nth intro!: exI [of _ "k - 1"])
        with delivered(3) show False by blast
      qed
      with k ev [OF delivered(1)] show "k = 0 \<and> arrives envs M net p e'" by simp
    qed (simp add: x(3) delivered(2))
  next
    case (other new)
    show ?thesis
      by (rule that [OF x(1), of new]) (use other in \<open>auto simp: x(3) in_set_conv_nth\<close>)
  qed
qed

lemma net_act_ok:
  assumes "net_reach envs M net" and "net_ok envs M net" and "net_act envs M x net = Some net'"
  shows "net_ok envs M net'"
proof -
  obtain p new where p: "p \<in> M" and sw: "\<And>q. net_swarm net' q = net_swarm net q @ (if q = p then new else [])"
    and ev: "\<And>k e. k < length new \<Longrightarrow> new ! k = Polled e \<Longrightarrow> k = 0 \<and> arrives envs M net p e"
    using net_act_grows [OF assms(1,3)] by blast
  have sub: "set (net_swarm net q) \<subseteq> set (net_swarm net' q)" for q by (simp add: sw)
  have req: "(Polled (inbound_request a r ch) \<in> set (net_swarm net b) \<or> (b = p \<and> new \<noteq> [] \<and> hd new = Polled (inbound_request a r ch)
        \<and> arrives envs M net p (inbound_request a r ch)))"
    if m: "Polled (inbound_request a r ch) \<in> set (net_swarm net' b)" for a b r ch
  proof (cases "Polled (inbound_request a r ch) \<in> set (net_swarm net b)")
    case False
    then obtain k where k: "b = p" "k < length new" "new ! k = Polled (inbound_request a r ch)"
      using m by (auto simp: sw in_set_conv_nth split: if_splits)
    with ev [OF k(2,3)] show ?thesis by (auto simp: hd_conv_nth)
  qed simp
  show ?thesis
    unfolding net_ok_def
  proof (intro conjI ballI allI impI)
    fix q a r a' r' ch
    assume m: "q \<in> M" "Polled (inbound_request a r ch) \<in> set (net_swarm net' q)" "Polled (inbound_request a' r' ch) \<in> set (net_swarm net' q)"
    from req [OF m(2)] req [OF m(3)] have "a = a' \<and> r = r'"
      using net_okD(1) [OF assms(2) m(1)] by (auto simp: arrives_request)
    then show "a = a'" "r = r'" by blast+
  next
    fix a b r ch assume m: "a \<in> M" "b \<in> M" "Polled (inbound_request a r ch) \<in> set (net_swarm net' b)"
    from req [OF m(3)] have "CallSendRequest b r \<in> set (net_swarm net a)"
      using net_okD(2) [OF assms(2) m(1,2)] m(1) by (auto simp: arrives_request)
    with sub show "CallSendRequest b r \<in> set (net_swarm net' a)" by blast
  next
    fix a b k i resp
    assume m: "a \<in> M" "b \<in> M" "k < length (net_swarm net' a)" "net_swarm net' a ! k = Polled (response_event b i resp)"
    let ?sw = "net_swarm net a"
    have "\<exists>r ch. sent_as (envs a) b r i (take k (net_swarm net' a)) \<and> Polled (inbound_request a r ch) \<in> set (net_swarm net b)
        \<and> CallSendResponse ch resp \<in> set (net_swarm net b)"
    proof (cases "k < length ?sw")
      case True
      then show ?thesis using net_okD(3) [OF assms(2) m(1,2) True] m(4) by (simp add: sw nth_append)
    next
      case False
      then have "a = p" "k - length ?sw < length new" "new ! (k - length ?sw) = Polled (response_event b i resp)"
        using m(3,4) by (auto simp: sw nth_append split: if_splits)
      with ev [OF this(2,3)] False m(2) have "k = length ?sw" "arrives envs M net a (response_event b i resp)" by auto
      with m(2) show ?thesis by (simp add: arrives_response sw)
    qed
    with sub show "\<exists>r ch. sent_as (envs a) b r i (take k (net_swarm net' a)) \<and> Polled (inbound_request a r ch) \<in> set (net_swarm net' b)
        \<and> CallSendResponse ch resp \<in> set (net_swarm net' b)" by blast
  qed
qed

lemma started_polled:
  assumes "node_trace env [] nd"
  shows "Polled e \<notin> set (el_swarm (nd_loop nd))"
  using started_no_messages [OF assms] by (auto simp: messages_in_def filter_empty_conv)

lemma net_reach_ok: "net_reach envs M net \<Longrightarrow> net_ok envs M net"
proof (induction rule: net_reach.induct)
  case (net_started net)
  have n: "Polled e \<notin> set (net_swarm net p)" if "p \<in> M" for p e by (rule started_polled [OF net_started(1) [OF that]])
  have "net_swarm net p ! k \<noteq> Polled e" if "p \<in> M" "k < length (net_swarm net p)" for p k e
    using n [OF that(1), of e] nth_mem [OF that(2)] by auto
  with n show ?case unfolding net_ok_def by blast
next
  case (net_step net x net')
  show ?case by (rule net_act_ok [OF net_step.hyps(1) net_step.IH net_step.hyps(2)])
qed

section \<open>Schedules\<close>

text \<open>A member on its own: no event is delivered, or one at the start that can arrive.\<close>

lemma net_acts_alone:
  assumes "p \<in> M" and "node_acts (envs p) as (net_node net p) = Some nd'" and "list_all (\<lambda>act. \<forall>n e. act \<noteq> LoopEvent n e) as"
  shows "net_acts envs M (map (Pair p) as) net = Some (net_set p nd' as net)"
  using assms(2,3)
proof (induction as arbitrary: net)
  case (Cons act as)
  obtain nd1 where nd1: "node_act (envs p) act (net_node net p) = Some nd1" "node_acts (envs p) as nd1 = Some nd'"
    using Cons.prems(1) by (auto split: option.splits)
  have "net_act envs M (p, act) net = Some (net_set p nd1 [act] net)"
    using nd1(1) assms(1) Cons.prems(2) by (cases act) (simp_all add: net_act_def)
  with Cons.IH [of "net_set p nd1 [act] net"] nd1(2) Cons.prems(2) show ?case by simp
qed (auto simp: net_set_def)

lemma net_acts_delivered:
  assumes "p \<in> M" and "node_acts (envs p) (LoopEvent n e # as) (net_node net p) = Some nd'" and "arrives envs M net p e"
    and "list_all (\<lambda>act. \<forall>n e. act \<noteq> LoopEvent n e) as"
  shows "net_acts envs M (map (Pair p) (LoopEvent n e # as)) net = Some (net_set p nd' (LoopEvent n e # as) net)"
proof -
  obtain nd1 where nd1: "node_act (envs p) (LoopEvent n e) (net_node net p) = Some nd1" "node_acts (envs p) as nd1 = Some nd'"
    using assms(2) by (auto split: option.splits)
  have "net_act envs M (p, LoopEvent n e) net = Some (net_set p nd1 [LoopEvent n e] net)"
    using nd1(1) assms(1,3) by (simp add: net_act_def del: node_act.simps)
  with net_acts_alone [OF assms(1), of envs as "net_set p nd1 [LoopEvent n e] net"] nd1(2) assms(4) show ?thesis by simp
qed

lemma schedules_alone [simp]:
  "list_all (\<lambda>act. \<forall>n e. act \<noteq> LoopEvent n e) (answering n i resp nd)"
  "list_all (\<lambda>act. \<forall>n e. act \<noteq> LoopEvent n e) (one_poll nd x w)"
  "list_all (\<lambda>act. \<forall>n e. act \<noteq> LoopEvent n e) (replicate k ReceiveEvent)"
  by (simp_all add: answering_def one_poll_def list_all_iff)

text \<open>The two halves of a round trip at the members they concern.\<close>

lemma net_request_served:
  assumes "b \<in> M" and "node_reach (envs b) (net_node net b)" and "loop_can_select (net_node net b)"
    and "nd_receiver (net_node net b)" and "nd_queue (net_node net b) = []" and "0 < nd_clients (net_node net b)"
    and "i = el_pending_id_counter (nd_loop (net_node net b))" and "arrives envs M net b (inbound_request a r ch)"
    and "xs = showing n a r ch (net_node net b) @ answering n i resp (net_node net b)"
  obtains B where "net_acts envs M (map (Pair b) xs) net = Some (net_set b B xs net)"
    and "el_swarm (nd_loop B) = net_swarm net b @ [Polled (inbound_request a r ch), CallSendResponse ch resp]"
    and "el_events (nd_loop B) = el_events (nd_loop (net_node net b)) @ [InboundRequest a i r]"
proof -
  obtain B where B: "node_acts (envs b) xs (net_node net b) = Some B"
    "el_swarm (nd_loop B) = net_swarm net b @ [Polled (inbound_request a r ch), CallSendResponse ch resp]"
    "el_events (nd_loop B) = el_events (nd_loop (net_node net b)) @ [InboundRequest a i r]"
    unfolding assms(9) by (rule request_served [OF assms(2-7)])
  have "net_acts envs M (map (Pair b) xs) net = Some (net_set b B xs net)"
    using B(1) unfolding assms(9) showing_def append_Cons
    by (intro net_acts_delivered [OF assms(1)] assms(8)) (simp_all del: node_acts.simps replicate_Suc)
  with B(2,3) show thesis by (intro that)
qed

lemma net_response_returned:
  assumes "a \<in> M" and "node_reach (envs a) (net_node net a)" and "awaits_response (net_node net a) x b q"
    and "arrives envs M net a (response_event b q resp)"
    and "xs = [LoopRetain, LoopEvent n (response_event b q resp)] @ one_poll (net_node net a) x w"
  obtains A where "net_acts envs M (map (Pair a) xs) net = Some (net_set a A xs net)"
    and "call_result (nd_calls A ! x) = Some (Inr (OResponse resp))" and "others_kept x (net_node net a) A"
    and "el_swarm (nd_loop A) = net_swarm net a @ [Polled (response_event b q resp)]"
    and "x < length (nd_calls A)" and "command_of A x = command_of (net_node net a) x"
proof -
  let ?A = "net_node net a" and ?as = "LoopEvent n (response_event b q resp) # one_poll (net_node net a) x w"
  let ?A1 = "?A\<lparr>nd_loop := retain_active (nd_loop ?A), nd_selecting := True\<rparr>"
  obtain A where A: "node_acts (envs a) xs ?A = Some A"
    "call_result (nd_calls A ! x) = Some (Inr (OResponse resp))" "el_swarm (nd_loop A) = net_swarm net a @ [Polled (response_event b q resp)]"
    "others_kept x ?A A"
    unfolding assms(5) by (rule response_returned [OF assms(2,3)])
  have retain: "node_act (envs a) LoopRetain ?A = Some ?A1" "el_swarm (nd_loop ?A1) = net_swarm net a"
    using assms(3) by (simp_all add: awaits_response_def retain_active_def)
  let ?net = "net_set a ?A1 [LoopRetain] net"
  have "net_acts envs M (map (Pair a) [LoopRetain]) net = Some ?net"
    by (rule net_acts_alone [OF assms(1)]) (use retain(1) in \<open>simp_all del: node_act.simps\<close>)
  from net_acts_then [OF this, of "map (Pair a) ?as"]
  have "net_acts envs M (map (Pair a) [LoopRetain] @ map (Pair a) ?as) net = net_acts envs M (map (Pair a) ?as) ?net" .
  also have "\<dots> = Some (net_set a A ?as ?net)"
  proof (rule net_acts_delivered [OF assms(1)])
    show "node_acts (envs a) ?as (net_node ?net a) = Some A" using A(1) retain(1) by (simp add: assms(5) del: node_act.simps)
    have "net_swarm ?net p = net_swarm net p" for p using retain(2) by simp
    with assms(4) show "arrives envs M ?net a (response_event b q resp)" unfolding arrives_response by metis
  qed simp
  finally have "net_acts envs M (map (Pair a) [LoopRetain] @ map (Pair a) ?as) net = Some (net_set a A ?as ?net)" .
  moreover have "x < length (nd_calls ?A)" using assms(3) by (simp add: awaits_response_def live_def)
  note node_acts_keep_command [OF A(1) this]
  ultimately show thesis using A(2-4) by (intro that [of A]) (simp_all add: assms(5) del: net_acts.simps)
qed

section \<open>What the caller gets\<close>

text \<open>The library has given each request of a history an identifier of its own.\<close>

definition distinct_requests :: "('req, 'resp, 'stats) net_env \<Rightarrow> ('req, 'resp, 'stats) swarm \<Rightarrow> bool" where
  "distinct_requests env sw \<longleftrightarrow>
     (\<forall>i < length sw. \<forall>j < length sw. \<forall>p r p' r'. sw ! i = CallSendRequest p r \<longrightarrow> sw ! j = CallSendRequest p' r' \<longrightarrow>
        send_request_query env (take i sw) p r = send_request_query env (take j sw) p' r' \<longrightarrow> i = j)"

lemma sent_as_unique:
  assumes "distinct_requests env sw" and "sent_as env p r q (take k sw)" and "sent_as env p' r' q (take k sw)"
  shows "r = r'"
proof -
  have "sent_as env p r q sw" "sent_as env p' r' q sw"
    using sent_as_append [OF assms(2), of "drop k sw"] sent_as_append [OF assms(3), of "drop k sw"] by simp_all
  then obtain i j where i: "i < length sw" "sw ! i = CallSendRequest p r" "send_request_query env (take i sw) p r = q"
    and j: "j < length sw" "sw ! j = CallSendRequest p' r'" "send_request_query env (take j sw) p' r' = q"
    by (auto simp: sent_as_def)
  with assms(1) have "i = j" unfolding distinct_requests_def by blast
  with i j show ?thesis by simp
qed

text \<open>The steps of a round trip, and what they leave behind.\<close>

lemma round_trip:
  assumes "net_reach envs M net" and "a \<in> M" and "b \<in> M" and "a \<noteq> b"
    and "loop_can_select (net_node net a)" and "nd_queue (net_node net a) = t # rest" and "live (net_node net a) (task_handle t)"
    and "command_of (net_node net a) (task_handle t) = client_command (SendRequest b r)"
    and "q = send_request_query (envs a) (net_swarm net a) b r"
    and "nobody_waits_for q (el_active_commands (nd_loop (net_node net a)))"
    and "loop_can_select (net_node net b)" and "nd_receiver (net_node net b)" and "nd_queue (net_node net b) = []"
    and "0 < nd_clients (net_node net b)" and "i = el_pending_id_counter (nd_loop (net_node net b))"
    and "\<forall>q' r'. Polled (inbound_request q' r' ch) \<notin> set (net_swarm net b)"
  shows "\<exists>net'. net_acts envs M
       ((a, LoopCommand n) # map (Pair b) (showing n a r ch (net_node net b) @ answering n i resp (net_node net b))
         @ map (Pair a) ([LoopRetain, LoopEvent n (response_event b q resp)] @ one_poll (net_node net a) (task_handle t) w)) net
         = Some net'
     \<and> call_result (nd_calls (net_node net' a) ! task_handle t) = Some (Inr (OResponse resp))
     \<and> others_kept (task_handle t) (net_node net a) (net_node net' a)
     \<and> el_events (nd_loop (net_node net' b)) = el_events (nd_loop (net_node net b)) @ [InboundRequest a i r]
     \<and> net_swarm net' a = net_swarm net a @ [CallSendRequest b r, Polled (response_event b q resp)]
     \<and> task_handle t < length (nd_calls (net_node net' a))
     \<and> command_of (net_node net' a) (task_handle t) = client_command (SendRequest b r)"
proof -
  let ?A = "net_node net a" and ?B = "net_node net b" and ?x = "task_handle t"
  let ?bs = "showing n a r ch ?B @ answering n i resp ?B"
  let ?as = "[LoopRetain, LoopEvent n (response_event b q resp)] @ one_poll ?A ?x w"
  obtain A1 where A1: "node_act (envs a) (LoopCommand n) ?A = Some A1" "awaits_response A1 ?x b q"
    "el_swarm (nd_loop A1) = net_swarm net a @ [CallSendRequest b r]" "nd_calls A1 = nd_calls ?A" "others_kept ?x ?A A1"
    by (rule request_sent [OF net_reach_node [OF assms(1,2)] assms(5-10)])
  let ?net1 = "net_set a A1 [LoopCommand n] net"
  have s1: "net_acts envs M (map (Pair a) [LoopCommand n]) net = Some ?net1"
    by (rule net_acts_alone [OF assms(2)]) (use A1(1) in \<open>simp_all del: node_act.simps\<close>)
  have r1: "net_reach envs M ?net1" by (rule net_reach_acts [OF assms(1) s1])
  have B: "net_node ?net1 b = ?B" using assms(4) by simp
  have "arrives envs M ?net1 b (inbound_request a r ch)" using A1(3) assms(4,16) by (simp add: arrives_request)
  from net_request_served [OF assms(3) net_reach_node [OF r1 assms(3)] _ _ _ _ _ this refl, unfolded B, OF assms(11-15)]
  obtain B2 where B2: "net_acts envs M (map (Pair b) ?bs) ?net1 = Some (net_set b B2 ?bs ?net1)"
    "el_swarm (nd_loop B2) = net_swarm net b @ [Polled (inbound_request a r ch), CallSendResponse ch resp]"
    "el_events (nd_loop B2) = el_events (nd_loop ?B) @ [InboundRequest a i r]"
    by metis
  let ?net2 = "net_set b B2 ?bs ?net1"
  have r2: "net_reach envs M ?net2" by (rule net_reach_acts [OF r1 B2(1)])
  have A: "net_node ?net2 a = A1" using assms(4) by simp
  have "sent_as (envs a) b r q (net_swarm ?net2 a)"
    using sent_as_now [of "envs a" b r "net_swarm net a"] unfolding A A1(3) assms(9) .
  moreover have "Polled (inbound_request a r ch) \<in> set (net_swarm ?net2 b)" "CallSendResponse ch resp \<in> set (net_swarm ?net2 b)"
    using B2(2) by simp_all
  ultimately have ar: "arrives envs M ?net2 a (response_event b q resp)" unfolding arrives_response by blast
  have p: "one_poll A1 ?x w = one_poll ?A ?x w" by (simp add: one_poll_def A1(4))
  have w: "awaits_response (net_node ?net2 a) ?x b q" unfolding A by (rule A1(2))
  obtain A2 where A2: "net_acts envs M (map (Pair a) ?as) ?net2 = Some (net_set a A2 ?as ?net2)"
    "call_result (nd_calls A2 ! ?x) = Some (Inr (OResponse resp))" "others_kept ?x A1 A2"
    "el_swarm (nd_loop A2) = el_swarm (nd_loop A1) @ [Polled (response_event b q resp)]"
    "?x < length (nd_calls A2)" "command_of A2 ?x = command_of A1 ?x"
    using net_response_returned [OF assms(2) net_reach_node [OF r2 assms(2)] w ar refl, of n w] unfolding A p by metis
  have "net_acts envs M (map (Pair a) [LoopCommand n] @ map (Pair b) ?bs @ map (Pair a) ?as) net = Some (net_set a A2 ?as ?net2)"
    unfolding net_acts_then [OF s1] net_acts_then [OF B2(1)] by (rule A2(1))
  then show ?thesis using A2(2,4-6) A1(3,4) assms(8) others_kept_trans [OF A1(5) A2(3)] B2(3) assms(4)
    by (intro exI [of _ "net_set a A2 ?as ?net2"]) simp
qed

text \<open>A network of two members where one has a request in its command channel and the other is idle.\<close>

abbreviation "peer1 \<equiv> PeerId 1"
abbreviation "peer2 \<equiv> PeerId 2"
abbreviation "ping \<equiv> SendRequest peer2 ''ping'' :: (string, string) client_call"

definition ready :: "(string, string, nat) network \<Rightarrow> bool" where
  "ready net \<longleftrightarrow>
     net_reach (\<lambda>p. str_env) {peer1, peer2} net
   \<and> loop_can_select (net_node net peer1) \<and> el_active_commands (nd_loop (net_node net peer1)) = []
   \<and> map task_handle (nd_queue (net_node net peer1)) = [0] \<and> live (net_node net peer1) 0
   \<and> command_of (net_node net peer1) 0 = client_command ping
   \<and> loop_can_select (net_node net peer2) \<and> nd_receiver (net_node net peer2) \<and> nd_queue (net_node net peer2) = []
   \<and> nd_clients (net_node net peer2) = 1
   \<and> messages_in (net_swarm net peer1) = [] \<and> messages_in (net_swarm net peer2) = []"

lemma untouched_ready:
  assumes "untouched m k nd"
  defines "nd' \<equiv> nd\<lparr>nd_loop := retain_active (nd_loop nd), nd_selecting := True\<rparr>"
  shows "node_act env LoopRetain nd = Some nd'" and "untouched m k (nd'\<lparr>nd_selecting := False\<rparr>)" and "loop_can_select nd'"
    and "el_swarm (nd_loop nd') = el_swarm (nd_loop nd)"
  using assms(1)
  by (simp_all add: nd'_def untouched_def loop_can_select_def loop_stalled_def events_waiting_def retain_active_def)

lemma ready_network: "\<exists>net. ready net"
proof -
  obtain nd where nd: "node_trace str_env [] nd" "untouched ping 0 nd" using started_untouched by blast
  obtain A where A: "node_acts str_env [NewCall ping, PollSubmit 0] nd = Some A" "untouched ping 1 A"
    "el_swarm (nd_loop A) = el_swarm (nd_loop nd)"
    using untouched_submit [OF nd(2), of str_env] by auto
  let ?A = "A\<lparr>nd_loop := retain_active (nd_loop A), nd_selecting := True\<rparr>"
  let ?B = "nd\<lparr>nd_loop := retain_active (nd_loop nd), nd_selecting := True\<rparr>"
  note ua = untouched_ready [OF A(2)] and ub = untouched_ready [OF nd(2)]
  define net0 where "net0 = \<lparr>net_node = \<lambda>p :: peer_id. nd, net_done = \<lambda>p. []\<rparr>"
  let ?envs = "\<lambda>p :: peer_id. str_env" and ?M = "{peer1, peer2}"
  let ?as = "[NewCall ping, PollSubmit 0, LoopRetain]"
  have r0: "net_reach ?envs ?M net0" by (rule net_started) (simp_all add: net0_def nd)
  have sA: "node_acts str_env ?as nd = Some ?A"
    using A(1) ua(1) [of str_env] node_acts_append [of str_env "[NewCall ping, PollSubmit 0]" "[LoopRetain]" nd]
    by (simp del: node_act.simps)
  have s1: "net_acts ?envs ?M (map (Pair peer1) ?as) net0 = Some (net_set peer1 ?A ?as net0)"
    by (rule net_acts_alone) (use sA in \<open>simp_all add: net0_def del: node_acts.simps\<close>)
  have s2: "net_acts ?envs ?M (map (Pair peer2) [LoopRetain]) (net_set peer1 ?A ?as net0)
      = Some (net_set peer2 ?B [LoopRetain] (net_set peer1 ?A ?as net0))"
    by (rule net_acts_alone) (use ub(1) [of str_env] in \<open>simp_all add: net0_def del: node_act.simps\<close>)
  have "net_reach ?envs ?M (net_set peer2 ?B [LoopRetain] (net_set peer1 ?A ?as net0))"
    by (rule net_reach_acts [OF net_reach_acts [OF r0 s1] s2])
  moreover have "node_reach str_env A" by (rule node_reach_acts [OF node_trace_reach [OF nd(1)] A(1)])
  then have "map task_handle (nd_queue A) = [0]" using untouched_queue [OF _ A(2)] by simp
  moreover have "loop_can_select ?A" "loop_can_select ?B" by (rule ua(3), rule ub(3))
  moreover have "el_active_commands (nd_loop ?A) = []" "live ?A 0" "command_of ?A 0 = client_command ping"
    using A(2) by (simp_all add: untouched_def live_def retain_active_def)
  moreover have "nd_receiver ?B" "nd_queue ?B = []" "nd_clients ?B = 1" using nd(2) by (simp_all add: untouched_def)
  moreover have "messages_in (el_swarm (nd_loop ?A)) = []" "messages_in (el_swarm (nd_loop ?B)) = []"
    using ua(4) ub(4) A(3) started_no_messages [OF nd(1)] by simp_all
  ultimately have "ready (net_set peer2 ?B [LoopRetain] (net_set peer1 ?A ?as net0))"
    unfolding ready_def net_set_simps by (intro conjI) simp_all
  then show ?thesis by blast
qed

lemma single_request_distinct:
  "messages_in sw = [] \<Longrightarrow> distinct_requests env (sw @ [CallSendRequest p r, Polled e])"
proof -
  assume "messages_in sw = []"
  then have n: "CallSendRequest p r \<notin> set sw" for p r by (auto simp: messages_in_def filter_empty_conv)
  let ?sw = "sw @ [CallSendRequest p r, Polled e]"
  have "i = length sw" if "i < length ?sw" "?sw ! i = CallSendRequest p' r'" for i p' r'
    using that n by (auto simp: nth_append nth_Cons' less_Suc_eq split: if_splits dest: nth_mem)
  then show ?thesis unfolding distinct_requests_def by metis
qed

lemma readyD:
  assumes "ready net"
  shows "net_reach (\<lambda>p. str_env) {peer1, peer2} net" "peer1 \<in> {peer1, peer2}" "peer2 \<in> {peer1, peer2}" "peer1 \<noteq> peer2"
    and "\<exists>t. nd_queue (net_node net peer1) = [t] \<and> task_handle t = 0"
    and "loop_can_select (net_node net peer1)" "live (net_node net peer1) 0"
      "command_of (net_node net peer1) 0 = client_command (SendRequest peer2 ''ping'')"
    and "nobody_waits_for q (el_active_commands (nd_loop (net_node net peer1)))"
    and "loop_can_select (net_node net peer2)" "nd_receiver (net_node net peer2)" "nd_queue (net_node net peer2) = []"
      "0 < nd_clients (net_node net peer2)" "\<forall>q' r'. Polled (inbound_request q' r' ch) \<notin> set (net_swarm net peer2)"
    and "messages_in (net_swarm net peer1) = []"
  using assms by (auto simp: ready_def map_eq_Cons_conv nobody_waits_for_def messages_in_def filter_empty_conv)

text \<open>The request of the ready network has made its round trip.\<close>

lemma answered_network:
  "\<exists>net. net_reach (\<lambda>p. str_env) {peer1, peer2} net \<and> 0 < length (nd_calls (net_node net peer1))
     \<and> command_of (net_node net peer1) 0 = client_command ping
     \<and> call_result (nd_calls (net_node net peer1) ! 0) = Some (Inr (OResponse ''pong''))
     \<and> distinct_requests str_env (net_swarm net peer1)
     \<and> (\<exists>i. InboundRequest peer1 i ''ping'' \<in> set (el_events (nd_loop (net_node net peer2))))"
proof -
  obtain net where n: "ready net" using ready_network by blast
  let ?M = "{peer1, peer2}" and ?envs = "\<lambda>p :: peer_id. str_env"
  note rd = readyD [OF n]
  obtain t where t: "nd_queue (net_node net peer1) = [t]" "task_handle t = 0" using rd(5) by blast
  obtain xs net' where x: "net_acts ?envs ?M xs net = Some net'"
    "call_result (nd_calls (net_node net' peer1) ! 0) = Some (Inr (OResponse ''pong''))"
    "\<exists>i. el_events (nd_loop (net_node net' peer2)) = el_events (nd_loop (net_node net peer2)) @ [InboundRequest peer1 i ''ping'']"
    "\<exists>e. net_swarm net' peer1 = net_swarm net peer1 @ [CallSendRequest peer2 ''ping'', Polled e]"
    "0 < length (nd_calls (net_node net' peer1))" "command_of (net_node net' peer1) 0 = client_command ping"
    using round_trip [OF rd(1-4,6) t(1) _ _ refl rd(9-13) refl rd(14) [of "ResponseChannel 3"], unfolded t(2), OF rd(7,8), of 0 "''pong''" "Waker 0"]
    by blast
  have r: "net_reach ?envs ?M net'" by (rule net_reach_acts [OF rd(1) x(1)])
  have "distinct_requests str_env (net_swarm net' peer1)" using x(4) rd(15) single_request_distinct by auto
  moreover have "\<exists>i. InboundRequest peer1 i ''ping'' \<in> set (el_events (nd_loop (net_node net' peer2)))" using x(3) by auto
  ultimately show ?thesis using r x(2,5,6) by blast
qed

text \<open>
  C1: a response is genuine. Members of a network run this program under any interleaving. When a call of
  \<open>send_request\<close> for the request \<open>r\<close> to another member \<open>b\<close> has returned the response \<open>resp\<close>, the application at \<open>b\<close> called
  \<open>send_response\<close> with \<open>resp\<close>, under an identifier for which its node had announced the request \<open>r\<close> of this very peer (or it
  had given up its event receiver).
\<close>

theorem response_is_genuine:
  assumes "net_reach envs M net" and "a \<in> M" and "b \<in> M"
    and "x < length (nd_calls (net_node net a))" and "command_of (net_node net a) x = client_command (SendRequest b r)"
    and "call_result (nd_calls (net_node net a) ! x) = Some (Inr (OResponse resp))"
    and "distinct_requests (envs a) (net_swarm net a)"
  shows "\<exists>i. NewResponse i resp \<in> set (net_done net b)
     \<and> (InboundRequest a i r \<in> set (el_events (nd_loop (net_node net b))) \<or> \<not> nd_receiver (net_node net b))"
proof -
  let ?sw = "net_swarm net a"
  note ok = net_reach_ok [OF assms(1)]
  have "genuine (envs a) ?sw (command_of (net_node net a) x) (call_result (nd_calls (net_node net a) ! x))"
    by (rule requests_okD(3) [OF node_reach_requests [OF net_reach_node [OF assms(1,2)]] assms(4)])
  then have "answered_in (envs a) b r resp ?sw" using assms(5,6) by (simp add: genuine_def)
  then obtain k q where k: "k < length ?sw" "?sw ! k = Polled (response_event b q resp)"
    "sent_as (envs a) b r q (take k ?sw)"
    by (auto simp: answered_in_def)
  obtain r' ch where m: "sent_as (envs a) b r' q (take k ?sw)" "Polled (inbound_request a r' ch) \<in> set (net_swarm net b)"
    "CallSendResponse ch resp \<in> set (net_swarm net b)"
    using net_okD(3) [OF ok assms(2,3) k(1,2)] by auto
  have r: "r' = r" by (rule sent_as_unique [OF assms(7) m(1) k(3)])
  note replies = node_trace_replies [OF net_reach_trace [OF assms(1,3)]]
  obtain c where "c < length (nd_calls (net_node net b))" "command_of (net_node net b) c = response_command ch resp"
    using replies_okD(3) [OF replies m(3)] by auto
  then obtain p i r'' where t: "NewResponse i resp \<in> set (net_done net b)" "told p i r'' ch (net_node net b)"
    using replies_okD(2) [OF replies] by blast
  then have "Polled (inbound_request p r'' ch) \<in> set (net_swarm net b)" by (simp add: told_def)
  from net_okD(1) [OF ok assms(3) this m(2)] have "p = a" "r'' = r'" by blast+
  with t r show ?thesis by (intro exI [of _ i]) (simp add: told_def)
qed

theorem response_is_genuine_witness:
  "\<exists>(net :: (string, string, nat) network) i. net_reach (\<lambda>p. str_env) {peer1, peer2} net
     \<and> call_result (nd_calls (net_node net peer1) ! 0) = Some (Inr (OResponse ''pong''))
     \<and> NewResponse i ''pong'' \<in> set (net_done net peer2)"
proof -
  obtain net where n: "net_reach (\<lambda>p. str_env) {peer1, peer2} net" "0 < length (nd_calls (net_node net peer1))"
    "command_of (net_node net peer1) 0 = client_command ping"
    "call_result (nd_calls (net_node net peer1) ! 0) = Some (Inr (OResponse ''pong''))"
    "distinct_requests str_env (net_swarm net peer1)"
    using answered_network by blast
  have "peer1 \<in> {peer1, peer2}" "peer2 \<in> {peer1, peer2}" by simp_all
  from response_is_genuine [OF n(1) this n(2-5)] n(1,4) show ?thesis by blast
qed

text \<open>
  C6: a request is genuine. Whatever request of another member the node at \<open>b\<close> announces to its application,
  the application at that member called \<open>send_request\<close> with it, for \<open>b\<close>.
\<close>

theorem request_is_genuine:
  assumes "net_reach envs M net" and "a \<in> M" and "b \<in> M"
    and "InboundRequest a i r \<in> set (el_events (nd_loop (net_node net b)))"
  shows "NewCall (SendRequest b r) \<in> set (net_done net a)"
proof -
  obtain ch where "Polled (inbound_request a r ch) \<in> set (net_swarm net b)"
    using requests_madeD(3) [OF node_trace_made [OF net_reach_trace [OF assms(1,3)]] assms(4)] by auto
  then have "CallSendRequest b r \<in> set (net_swarm net a)" by (rule net_okD(2) [OF net_reach_ok [OF assms(1)] assms(2,3)])
  then show ?thesis by (rule requests_madeD(2) [OF node_trace_made [OF net_reach_trace [OF assms(1,2)]]])
qed

theorem request_is_genuine_witness:
  "\<exists>(net :: (string, string, nat) network) i. net_reach (\<lambda>p. str_env) {peer1, peer2} net
     \<and> InboundRequest peer1 i ''ping'' \<in> set (el_events (nd_loop (net_node net peer2)))
     \<and> NewCall (SendRequest peer2 ''ping'') \<in> set (net_done net peer1)"
proof -
  obtain net i where n: "net_reach (\<lambda>p. str_env) {peer1, peer2} net"
    "InboundRequest peer1 i ''ping'' \<in> set (el_events (nd_loop (net_node net peer2)))"
    using answered_network by blast
  have "peer1 \<in> {peer1, peer2}" "peer2 \<in> {peer1, peer2}" by simp_all
  from request_is_genuine [OF n(1) this n(2)] n show ?thesis by blast
qed

text \<open>
  C2: a request makes the round trip. Take two members of which one has a waiting call of \<open>send_request\<close> at the head of its
  command channel, the other an idle command channel, a client and an event receiver, and both loops are ready. Then
  the following steps can be taken, in this order, and nothing else is needed: the loop of the first runs the
  command; the second is handed the request, its application takes its events, answers under the identifier it
  was shown, and its loop runs that command; the loop of the first clears out, is handed the response, and the
  caller polls. The caller gets that response, and nothing else has changed for the other calls of its node.
\<close>

theorem request_round_trip:
  assumes "net_reach envs M net" and "a \<in> M" and "b \<in> M" and "a \<noteq> b"
    and "loop_can_select (net_node net a)" and "nd_queue (net_node net a) = t # rest" and "live (net_node net a) (task_handle t)"
    and "command_of (net_node net a) (task_handle t) = client_command (SendRequest b r)"
    and "q = send_request_query (envs a) (net_swarm net a) b r"
    and "nobody_waits_for q (el_active_commands (nd_loop (net_node net a)))"
    and "loop_can_select (net_node net b)" and "nd_receiver (net_node net b)" and "nd_queue (net_node net b) = []"
    and "0 < nd_clients (net_node net b)" and "i = el_pending_id_counter (nd_loop (net_node net b))"
    and "\<forall>q' r'. Polled (inbound_request q' r' ch) \<notin> set (net_swarm net b)"
  shows "\<exists>net'. net_acts envs M
       ((a, LoopCommand n) # map (Pair b) (showing n a r ch (net_node net b) @ answering n i resp (net_node net b))
         @ map (Pair a) ([LoopRetain, LoopEvent n (response_event b q resp)] @ one_poll (net_node net a) (task_handle t) w)) net
         = Some net'
     \<and> call_result (nd_calls (net_node net' a) ! task_handle t) = Some (Inr (OResponse resp))
     \<and> others_kept (task_handle t) (net_node net a) (net_node net' a)
     \<and> el_events (nd_loop (net_node net' b)) = el_events (nd_loop (net_node net b)) @ [InboundRequest a i r]"
  using round_trip [OF assms, of n resp w] by blast

theorem request_round_trip_witness:
  "\<exists>(net :: (string, string, nat) network) xs net'. net_reach (\<lambda>p. str_env) {peer1, peer2} net
     \<and> net_acts (\<lambda>p. str_env) {peer1, peer2} xs net = Some net'
     \<and> call_result (nd_calls (net_node net' peer1) ! 0) = Some (Inr (OResponse ''pong''))"
proof -
  obtain net where n: "ready net" using ready_network by blast
  note rd = readyD [OF n]
  obtain t where t: "nd_queue (net_node net peer1) = [t]" "task_handle t = 0" using rd(5) by blast
  from request_round_trip [OF rd(1-4,6) t(1) _ _ refl rd(9-13) refl rd(14) [of "ResponseChannel 3"], unfolded t(2), OF rd(7,8), of 0 "''pong''" "Waker 0"]
    rd(1) show ?thesis by blast
qed

end
