(* ===== verification/Node_Once.thy ===== *)
theory Node_Once
  imports Request_Path
begin

text \<open>
  No inbound request is answered twice. A response channel that has arrived is in one place: among the pending
  channels, in a call of \<open>send_response\<close> whose command has not run, or in a response that was handed back. The
  invariant counts these places; it bounds them by the number of requests the channel came with.
\<close>

section \<open>Where a response channel is\<close>

fun brings :: "response_channel \<Rightarrow> ('req, 'resp, 'stats) swarm_call \<Rightarrow> bool" where
  "brings ch (Polled (Behaviour (ReqRespEvent (Message p (Request r ch'))))) = (ch' = ch)"
| "brings ch _ = False"

fun answers_on :: "response_channel \<Rightarrow> ('req, 'resp, 'stats) swarm_call \<Rightarrow> bool" where
  "answers_on ch (CallSendResponse ch' resp) = (ch' = ch)"
| "answers_on ch _ = False"

lemma brings_iff: "brings ch c \<longleftrightarrow> (\<exists>p r. c = Polled (inbound_request p r ch))"
  by (cases "(ch, c)" rule: brings.cases) (auto simp: inbound_request_def)

lemma answers_on_iff: "answers_on ch c \<longleftrightarrow> (\<exists>resp. c = CallSendResponse ch resp)"
  by (cases "(ch, c)" rule: answers_on.cases) auto

definition arrivals :: "response_channel \<Rightarrow> ('req, 'resp, 'stats) swarm \<Rightarrow> nat" where
  "arrivals ch sw = length (filter (brings ch) sw)"

definition answers :: "response_channel \<Rightarrow> ('req, 'resp, 'stats) swarm \<Rightarrow> nat" where
  "answers ch sw = length (filter (answers_on ch) sw)"

lemma count_append [simp]:
  "arrivals ch (sw @ sw') = arrivals ch sw + arrivals ch sw'" "answers ch (sw @ sw') = answers ch sw + answers ch sw'"
  by (simp_all add: arrivals_def answers_def)

lemma count_Cons: "arrivals ch (c # sw) = (if brings ch c then 1 else 0) + arrivals ch sw"
  "answers ch (c # sw) = (if answers_on ch c then 1 else 0) + answers ch sw"
  by (simp_all add: arrivals_def answers_def)

lemma count_none:
  "(\<And>p r. Polled (inbound_request p r ch) \<notin> set sw) \<Longrightarrow> arrivals ch sw = 0"
  "(\<And>resp. CallSendResponse ch resp \<notin> set sw) \<Longrightarrow> answers ch sw = 0"
  by (auto simp: arrivals_def answers_def filter_empty_conv brings_iff answers_on_iff)

lemma answers_messages: "answers ch sw \<le> length (messages_in sw)"
  unfolding answers_def messages_in_def
  by (induction sw) (auto simp: answers_on_iff)

definition kept :: "response_channel \<Rightarrow> (u64 \<times> response_channel pending_entry) list \<Rightarrow> nat" where
  "kept ch es = length (filter (\<lambda>x. entry_value (snd x) = ch) es)"

text \<open>Calls of \<open>send_response\<close> on this channel whose command has not run.\<close>

definition calls_on :: "response_channel \<Rightarrow> ('req, 'resp, 'stats) node \<Rightarrow> nat set" where
  "calls_on ch nd =
     {a. a < length (nd_calls nd) \<and> a \<notin> set (nd_executed nd) \<and> (\<exists>resp. command_of nd a = response_command ch resp)}"

lemma calls_on_finite [simp]: "finite (calls_on ch nd)"
  by (rule finite_subset [of _ "{..< length (nd_calls nd)}"]) (auto simp: calls_on_def)

definition places :: "response_channel \<Rightarrow> ('req, 'resp, 'stats) node \<Rightarrow> nat" where
  "places ch nd =
     kept ch (entries (el_pending_channels (nd_loop nd))) + card (calls_on ch nd) + answers ch (el_swarm (nd_loop nd))"

definition once_ok :: "('req, 'resp, 'stats) node \<Rightarrow> bool" where
  "once_ok nd \<longleftrightarrow> (\<forall>ch. places ch nd \<le> arrivals ch (el_swarm (nd_loop nd)))"

section \<open>Each step moves a channel at most from one place to the next\<close>

lemma kept_subseq: "subseq es es' \<Longrightarrow> kept ch es \<le> kept ch es'"
  unfolding kept_def by (intro list_emb_length [of "(=)"] subseq_filter)

lemma kept_update: "kept ch (AList.update i e es) \<le> kept ch es + (if entry_value e = ch then 1 else 0)"
  by (induction es) (auto simp: kept_def)

lemma kept_delete:
  assumes "(i, e) \<in> set es"
  shows "kept (entry_value e) (AList.delete i es) < kept (entry_value e) es"
proof -
  let ?P = "\<lambda>x. entry_value (snd x) = entry_value e"
  have "filter ?P (AList.delete i es) = filter (\<lambda>x. fst x \<noteq> i) (filter ?P es)"
    by (auto simp: AList.delete_eq case_prod_beta intro: filter_cong)
  moreover have "(i, e) \<in> set (filter ?P es)" using assms by simp
  ultimately show ?thesis unfolding kept_def using length_filter_less [of "(i, e)" "filter ?P es" "\<lambda>x. fst x \<noteq> i"] by simp
qed

text \<open>A step that runs no command and makes at most one call.\<close>

lemma calls_on_same:
  assumes "same_messages nd new nd'"
  shows "new = [] \<Longrightarrow> calls_on ch nd' = calls_on ch nd"
    and "new = [c] \<Longrightarrow> calls_on ch nd' \<subseteq>
      (if \<exists>resp. c = response_command ch resp then insert (length (nd_calls nd)) (calls_on ch nd) else calls_on ch nd)"
proof -
  have l: "map call_command (nd_calls nd') = map call_command (nd_calls nd) @ new" and ex: "nd_executed nd' = nd_executed nd"
    using assms by (simp_all add: same_messages_def)
  have len: "length (nd_calls nd') = length (nd_calls nd) + length new" using arg_cong [OF l, of length] by simp
  have cmd: "command_of nd' a = (map call_command (nd_calls nd) @ new) ! a" if "a < length (nd_calls nd) + length new" for a
    using arg_cong [OF l, of "\<lambda>xs. xs ! a"] that len by simp
  show "calls_on ch nd' = calls_on ch nd" if "new = []"
    using that cmd by (auto simp: calls_on_def len ex)
  show "calls_on ch nd' \<subseteq>
      (if \<exists>resp. c = response_command ch resp then insert (length (nd_calls nd)) (calls_on ch nd) else calls_on ch nd)"
    if "new = [c]"
    using that cmd by (auto simp: calls_on_def len ex nth_append less_Suc_eq)
qed

lemma once_ok_less:
  assumes "once_ok nd" and "el_swarm (nd_loop nd') = el_swarm (nd_loop nd)" and "\<And>ch. places ch nd' \<le> places ch nd"
  shows "once_ok nd'"
  using assms unfolding once_ok_def by (metis order_trans)

lemma once_ok_same:
  assumes "once_ok nd" and "same_messages nd [] nd'"
  shows "once_ok nd'"
  using assms calls_on_same(1) [OF assms(2) refl] kept_subseq
  by (intro once_ok_less [OF assms(1)]) (simp_all add: places_def same_messages_def)

text \<open>An answer takes its channel out of the table; a call of another kind has none.\<close>

lemma once_ok_call:
  assumes "once_ok nd" and "same_messages nd [client_command m] nd'"
  shows "once_ok nd'"
proof (rule once_ok_less [OF assms(1)])
  show "places ch nd' \<le> places ch nd" for ch
    using card_mono [OF calls_on_finite calls_on_same(2) [OF assms(2) refl, of ch, simplified]] kept_subseq assms(2)
    by (simp add: places_def same_messages_def add_mono)
qed (use assms(2) in \<open>simp add: same_messages_def\<close>)

lemma once_ok_answer:
  assumes "once_ok nd" and "node_act env (NewResponse i resp) nd = Some nd'"
  shows "once_ok nd'"
  using assms(2)
proof (cases rule: new_response_cases)
  case refused
  show ?thesis by (rule once_ok_same [OF assms(1)]) (simp add: refused same_messages_def pm_take_def)
next
  case (taken e)
  let ?es = "entries (el_pending_channels (nd_loop nd))"
  have s: "same_messages nd [response_command (entry_value e) resp] nd'"
    by (simp add: taken(2) same_messages_def pm_take_def call_new_def)
  have es: "entries (el_pending_channels (nd_loop nd')) = AList.delete i ?es" by (simp add: taken(2) pm_take_def)
  have "places ch nd' \<le> places ch nd" for ch
  proof (cases "ch = entry_value e")
    case True
    have "card (calls_on ch nd') \<le> card (insert (length (nd_calls nd)) (calls_on ch nd))"
      using calls_on_same(2) [OF s refl, of ch] by (intro card_mono) (auto split: if_splits)
    also have "\<dots> \<le> Suc (card (calls_on ch nd))" by (simp add: card_insert_if)
    finally show ?thesis using kept_delete [OF taken(1)] True s by (simp add: places_def es same_messages_def)
  next
    case False
    have "card (calls_on ch nd') \<le> card (calls_on ch nd)"
      using calls_on_same(2) [OF s refl, of ch] False by (intro card_mono) (auto split: if_splits)
    with kept_subseq [OF delete_subseq, of ch i ?es] s show ?thesis by (simp add: places_def es same_messages_def)
  qed
  with s show ?thesis by (intro once_ok_less [OF assms(1)]) (simp add: same_messages_def)
qed

text \<open>Running the command of a response hands it back, once.\<close>

lemma once_ok_command:
  assumes "once_ok nd" and "node_inv nd" and "served nd" and "nd_queue nd = cmd # rest"
    and "nd' = loop_handles env n (CommandReceived cmd)
               (nd\<lparr>nd_queue := rest, nd_executed := nd_executed nd @ [task_handle cmd]\<rparr>)"
  shows "once_ok nd'"
proof -
  let ?a = "task_handle cmd"
  obtain new where c: "el_swarm (nd_loop nd') = el_swarm (nd_loop nd) @ new" "?a < length (nd_calls nd)"
    "\<And>ch resp. CallSendResponse ch resp \<in> set new \<Longrightarrow> command_of nd ?a = response_command ch resp"
    "length (messages_in new) \<le> 1" "el_pending_channels (nd_loop nd') = el_pending_channels (nd_loop nd)" "nd_calls nd' = nd_calls nd"
    "\<And>e. Polled e \<notin> set new"
    using command_messages [OF assms(2-5)] by metis
  have ex: "nd_executed nd' = nd_executed nd @ [?a]" by (simp add: assms(5) loop_handles_eq)
  have fresh: "?a \<notin> set (nd_executed nd)" using assms(2,4) unfolding node_inv_def in_order_def by auto
  have "places ch nd' \<le> places ch nd" for ch
  proof (cases "\<exists>resp. command_of nd ?a = response_command ch resp")
    case True
    then have m: "?a \<in> calls_on ch nd" using c(2) fresh by (simp add: calls_on_def)
    have "calls_on ch nd' = calls_on ch nd - {?a}" by (auto simp: calls_on_def ex c(6))
    then have "Suc (card (calls_on ch nd')) = card (calls_on ch nd)" using card_Suc_Diff1 [OF calls_on_finite m] by simp
    moreover have "answers ch new \<le> 1" using answers_messages [of ch new] c(4) by simp
    ultimately show ?thesis by (simp add: places_def c(1,5))
  next
    case False
    then have "answers ch new = 0" using c(3) by (intro count_none) blast
    moreover have "card (calls_on ch nd') \<le> card (calls_on ch nd)" by (intro card_mono) (auto simp: calls_on_def ex c(6))
    ultimately show ?thesis by (simp add: places_def c(1,5))
  qed
  moreover have "arrivals ch new = 0" for ch using c(7) by (intro count_none) blast
  ultimately show ?thesis using assms(1) unfolding once_ok_def c(1) count_append by (metis add.right_neutral order_trans)
qed

text \<open>A request that arrives brings its channel.\<close>

lemma once_ok_event:
  assumes "once_ok nd" and "nd' = loop_handles env n (SwarmEvent e) nd"
  shows "once_ok nd'"
proof -
  obtain new where sw: "el_swarm (nd_loop nd') = el_swarm (nd_loop nd) @ Polled e # new" "\<And>c. is_message c \<Longrightarrow> c \<notin> set new"
    and c: "nd_calls nd' = nd_calls nd"
    using event_messages [OF assms(2)] by metis
  have ex: "nd_executed nd' = nd_executed nd" by (simp add: assms(2) loop_handles_eq)
  have new: "answers ch new = 0" "arrivals ch new = 0" for ch using sw(2) by (auto intro!: count_none)
  have "kept ch (entries (el_pending_channels (nd_loop nd'))) \<le>
      kept ch (entries (el_pending_channels (nd_loop nd))) + (if brings ch (Polled e) then 1 else 0)" for ch
  proof (cases "is_inbound_request e")
    case False
    then show ?thesis by (simp add: assms(2) loop_handles_eq handle_swarm_event_other_frame)
  next
    case True
    then obtain p r ch' where e: "e = inbound_request p r ch'" by (auto simp: is_inbound_request_iff)
    have "entries (el_pending_channels (nd_loop nd')) =
        AList.update (el_pending_id_counter (nd_loop nd)) \<lparr>entry_value = ch', created_at = n\<rparr>
          (entries (el_pending_channels (nd_loop nd)))"
      unfolding assms(2) e
      by (simp add: loop_handles_eq handle_inbound_request_event send_event_def pm_insert_def turn_now_def)
    moreover have "brings ch (Polled e) \<longleftrightarrow> ch' = ch" by (simp add: e inbound_request_def)
    ultimately show ?thesis
      using kept_update [of ch "el_pending_id_counter (nd_loop nd)" "\<lparr>entry_value = ch', created_at = n\<rparr>"] by simp
  qed
  then have p: "places ch nd' \<le> places ch nd + (if brings ch (Polled e) then 1 else 0)" for ch
    by (simp add: places_def sw(1) new count_Cons calls_on_def c ex)
  have a: "arrivals ch (el_swarm (nd_loop nd')) = arrivals ch (el_swarm (nd_loop nd)) + (if brings ch (Polled e) then 1 else 0)" for ch
    by (simp add: sw(1) new count_Cons)
  have "places ch nd' \<le> arrivals ch (el_swarm (nd_loop nd'))" for ch
    using p [of ch] assms(1) [unfolded once_ok_def, rule_format, of ch] unfolding a by linarith
  then show ?thesis by (simp add: once_ok_def)
qed

lemma node_act_once:
  assumes "once_ok nd" and "node_inv nd" and "served nd" and "node_act env act nd = Some nd'"
  shows "once_ok nd'"
  using assms(4)
proof (cases rule: node_act_messages)
  case (call m)
  then show ?thesis by (intro once_ok_call [OF assms(1)])
next
  case (answer i resp e)
  then show ?thesis using once_ok_answer [OF assms(1)] assms(4) by simp
next
  case (command n cmd rest)
  then show ?thesis by (intro once_ok_command [OF assms(1-3)])
next
  case (event n e)
  then show ?thesis by (intro once_ok_event [OF assms(1)])
next
  case quiet
  then show ?thesis by (intro once_ok_same [OF assms(1)])
qed

lemma node_init_once:
  assumes "node_start env None mdns_ok valid_protocol accept c cfg = Some (Inr s)"
  shows "once_ok (node_init s)"
proof -
  have "answers ch (el_swarm (started_loop s)) = 0" for ch
    using answers_messages [of ch "el_swarm (started_loop s)"] started_quietly(1) [OF assms] by simp
  then show ?thesis using started_quietly(2) [OF assms] by (simp add: once_ok_def places_def calls_on_def kept_def node_init_def)
qed

interpretation node_once: node_invariant env "\<lambda>nd. node_inv nd \<and> served nd" once_ok for env
  by unfold_locales (auto intro: node_reach_inv node_reach_served node_init_once node_act_once)

section \<open>Properties\<close>

text \<open>
  C5: no request is answered twice. In every reachable state of a node, whatever its application does, the responses it
  has handed back on a response channel are at most as many as the requests that came with that channel; so a
  channel that arrived once carries one response at most, and one that never arrived carries none.
\<close>

theorem answered_at_most_once:
  assumes "node_reach env nd"
  shows "length (filter (answers_on ch) (el_swarm (nd_loop nd))) \<le> length (filter (brings ch) (el_swarm (nd_loop nd)))"
  using node_once.holds [OF assms] unfolding once_ok_def places_def arrivals_def answers_def by (metis add_leD2)

theorem answered_at_most_once_witness:
  "\<exists>nd :: (string, string, nat) node. node_reach str_env nd
     \<and> length (filter (answers_on (ResponseChannel 3)) (el_swarm (nd_loop nd))) = 1"
proof -
  let ?ch = "ResponseChannel 3" and ?m = "Bootstrap :: (string, string) client_call"
  obtain nd0 where nd0: "node_trace str_env [] nd0" "untouched ?m 0 nd0" using started_untouched by blast
  let ?nd = "nd0\<lparr>nd_loop := retain_active (nd_loop nd0), nd_selecting := True\<rparr>"
  have a: "node_act str_env LoopRetain nd0 = Some ?nd" "loop_can_select ?nd" "nd_receiver ?nd" "nd_queue ?nd = []" "0 < nd_clients ?nd"
    using nd0(2) by (simp_all add: untouched_def loop_can_select_def loop_stalled_def events_waiting_def retain_active_def)
  have r: "node_reach str_env ?nd" by (rule node_step [OF node_trace_reach [OF nd0(1)] a(1)])
  have n: "c \<notin> set (el_swarm (nd_loop ?nd))" if "is_message c" for c
    using that started_no_messages [OF nd0(1)] by (auto simp: retain_active_def messages_in_def filter_empty_conv)
  obtain nd' where nd': "node_acts str_env (showing 0 (PeerId 1) ''ping'' ?ch ?nd
        @ answering 0 (el_pending_id_counter (nd_loop ?nd)) ''pong'' ?nd) ?nd = Some nd'"
    "el_swarm (nd_loop nd') = el_swarm (nd_loop ?nd) @ [Polled (inbound_request (PeerId 1) ''ping'' ?ch), CallSendResponse ?ch ''pong'']"
    by (rule request_served [OF r a(2-5) refl])
  have r': "node_reach str_env nd'" by (rule node_reach_acts [OF r nd'(1)])
  have "arrivals ?ch (el_swarm (nd_loop ?nd)) = 0" using n by (intro count_none) auto
  then have one: "length (filter (brings ?ch) (el_swarm (nd_loop nd'))) = 1"
    unfolding nd'(2) by (simp add: arrivals_def inbound_request_def)
  have "0 < length (filter (answers_on ?ch) (el_swarm (nd_loop nd')))" unfolding nd'(2) by simp
  with answered_at_most_once [OF r', of ?ch, unfolded one]
  have "length (filter (answers_on ?ch) (el_swarm (nd_loop nd'))) = 1" by linarith
  with r' show ?thesis by blast
qed

end
