(* ===== verification/Reservations.thy ===== *)
theory Reservations
  imports Node_History
begin

text \<open>
  When a node asks for relay reservations, and when it does not: which addresses the swarm is told to listen on over a
  run of the event loop, and which peers it remembers for a reservation.
\<close>

section \<open>Listening\<close>

definition listen_call :: "('req, 'resp, 'stats) swarm_call \<Rightarrow> multiaddr option" where
  "listen_call c = (case c of CallListenOn a \<Rightarrow> Some a | _ \<Rightarrow> None)"

definition listen_calls :: "('req, 'resp, 'stats) swarm \<Rightarrow> multiaddr list" where
  "listen_calls sw = List.map_filter listen_call sw"

lemma listen_calls_append [simp]: "listen_calls (xs @ ys) = listen_calls xs @ listen_calls ys"
  by (simp add: listen_calls_def)

lemma listen_calls_Cons [simp]:
  "listen_calls [] = []"
  "listen_calls (c # cs) = (case listen_call c of None \<Rightarrow> listen_calls cs | Some a \<Rightarrow> a # listen_calls cs)"
  by (simp_all add: listen_calls_def List.map_filter_simps split: option.split)

lemma listen_calls_map [simp]: "(\<And>x. listen_call (f x) = None) \<Longrightarrow> listen_calls (map f xs) = []"
  by (induction xs) simp_all

lemma listen_calls_concat [simp]: "(\<And>x. listen_calls (f x) = []) \<Longrightarrow> listen_calls (concat (map f xs)) = []"
  by (induction xs) simp_all

lemma listen_call_simps [simp]:
  "listen_call (CallListenOn a) = Some a" "listen_call (CallAddExternalAddress a) = None"
  "listen_call (Polled e) = None" "listen_call (CallDial p) = None" "listen_call (CallDisconnectPeerId p) = None"
  "listen_call (CallAddPeerAddress p a) = None" "listen_call (CallKadAddAddress p a) = None"
  "listen_call CallKadBootstrap = None" "listen_call (CallKadPutRecord r quo) = None"
  "listen_call (CallKadGetRecord k) = None" "listen_call (CallKadGetProviders k) = None"
  "listen_call (CallKadGetClosestPeers k) = None" "listen_call (CallKadStartProviding k) = None"
  "listen_call (CallKadStopProviding k) = None" "listen_call (CallKadRemoveRecord k) = None"
  "listen_call (CallSendRequest p rq) = None" "listen_call (CallSendResponse ch rs) = None"
  by (simp_all add: listen_call_def)

lemma listen_calls_listen [simp]: "listen_calls (map CallListenOn as) = as"
  by (induction as) simp_all

lemma listen_calls_bootstrap [simp]: "listen_calls (bootstrap_calls ps) = []"
  unfolding bootstrap_calls_def by (rule listen_calls_concat) (simp split: prod.split)

lemma listen_calls_folds [simp]:
  "listen_calls (fold (swarm_add_peer_address p) as sw) = listen_calls sw"
  "listen_calls (fold (register_infrastructure_addr c) as sw) = listen_calls sw"
  "listen_calls (fold (register_identified_addr p) as sw) = listen_calls sw"
  by (simp_all add: add_peer_addresses_eq register_infrastructure_eq register_identified_eq)

lemma listen_calls_discovered [simp]: "listen_calls (handle_discovered env ps sw) = listen_calls sw"
proof -
  have "listen_calls (fold (dial_if_unconnected env) qs sw) = listen_calls sw" for qs sw
    by (induction qs arbitrary: sw) (simp_all add: dial_if_unconnected_def swarm_dial_def)
  then show ?thesis by (simp add: handle_discovered_def add_discovered_eq case_prod_beta Let_def)
qed

lemma announce_listen_calls [simp]:
  "listen_calls (el_swarm (maybe_announce_lan_helper_addr env t a el)) = listen_calls (el_swarm el)"
  "el_bootstrap_peers (maybe_announce_lan_helper_addr env t a el) = el_bootstrap_peers el"
  "el_protocol_version (maybe_announce_lan_helper_addr env t a el) = el_protocol_version el"
  by (simp_all add: maybe_announce_lan_helper_addr_def try_send_event_def swarm_add_external_address_def Let_def
      split: option.split)

section \<open>Commands and events that ask for no reservation\<close>

text \<open>No command makes the swarm listen, and only the one that adds an infrastructure peer leaves something to reserve.\<close>

lemma handler_run_listen:
  assumes "handler_run env c sw h = (c', sw', h')"
  shows "listen_calls sw' = listen_calls sw"
    and "\<nexists>d. c = HAddInfrastructurePeer d \<Longrightarrow> fst (handler_take_relay c') = None"
  using assms
  by (cases c;
      auto simp: dial_run_def disconnect_run_def is_connected_run_def get_listen_addrs_run_def
       add_peer_addrs_run_def add_infrastructure_peer_run_def send_request_run_def send_response_run_def
       bootstrap_run_def get_closest_peers_run_def get_providers_run_def get_record_run_def put_record_run_def
       remove_record_run_def start_provide_run_def stop_provide_run_def apfst_def map_prod_def Let_def
       swarm_dial_def swarm_listen_on_def swarm_disconnect_def
       split: option.splits if_splits sum.splits bool.splits)+

definition adds_infrastructure :: "turn \<times> ('req, 'resp, 'stats) loop_input \<Rightarrow> bool" where
  "adds_infrastructure x \<longleftrightarrow> (\<exists>cmd d. snd x = CommandReceived cmd \<and> task_handler cmd = HAddInfrastructurePeer d)"

text \<open>What the swarm listens on so far, and who is remembered for a reservation.\<close>

definition only_listens :: "multiaddr list \<Rightarrow> peer_id set \<Rightarrow> ('req, 'resp, 'stats) event_loop \<Rightarrow> bool" where
  "only_listens ls ps el \<longleftrightarrow>
     listen_calls (el_swarm el) = ls \<and> (\<forall>q. el_bootstrap_peers el q \<noteq> None \<longrightarrow> q \<in> ps)"

lemma only_listens_frame:
  "only_listens ls ps el \<Longrightarrow> listen_calls (el_swarm el') = listen_calls (el_swarm el) \<Longrightarrow>
   el_bootstrap_peers el' = el_bootstrap_peers el \<Longrightarrow> only_listens ls ps el'"
  by (simp add: only_listens_def)

lemma handle_command_listens:
  assumes "only_listens ls ps el" and "\<nexists>d. task_handler cmd = HAddInfrastructurePeer d"
  shows "only_listens ls ps (handle_command env cmd el)"
proof -
  obtain c' sw' h' where r: "handler_run env (task_handler cmd) (el_swarm el) (el_handles el (task_handle cmd)) = (c', sw', h')"
    by (metis prod_cases3)
  note l = handler_run_listen(1) [OF r] handler_run_listen(2) [OF r assms(2)]
  have "el_swarm (handle_command env cmd el) = sw'" "el_bootstrap_peers (handle_command env cmd el) = el_bootstrap_peers el"
    using r l(2) by (simp_all add: handle_command_def task_run_def task_take_relay_def Let_def case_prod_beta)
  with l(1) show ?thesis by (intro only_listens_frame [OF assms(1)]) simp_all
qed

text \<open>An identification asks for a reservation only with the node's own version and of a peer that is remembered.\<close>

lemma identified_listens:
  assumes "only_listens ls ps el" and "p \<in> ps \<Longrightarrow> info_protocol_version info \<noteq> el_protocol_version el"
  shows "only_listens ls ps (handle_identified env p info el)"
proof (cases "p \<in> ps")
  case True
  with assms show ?thesis by (simp add: handle_identified_def)
next
  case False
  with assms(1) have n: "el_bootstrap_peers el p = None" unfolding only_listens_def by blast
  then have "(el_bootstrap_peers el)(p := None) = el_bootstrap_peers el" by (rule fun_upd_idem)
  with n show ?thesis by (intro only_listens_frame [OF assms(1)]) (simp_all add: handle_identified_eq)
qed

lemma convert_listens:
  assumes "only_listens ls ps el" and "convert_to_node_event env t e el = (v, el')"
    and "\<And>p info. e = identified p info \<Longrightarrow> p \<in> ps \<Longrightarrow> info_protocol_version info \<noteq> el_protocol_version el"
  shows "only_listens ls ps el'"
proof (cases "\<exists>p info. e = identified p info")
  case True
  then obtain p info where e: "e = identified p info" by blast
  from assms(2) have "el' = handle_identified env p info el" by (simp add: e identified_def convert_to_node_event_def)
  with identified_listens [OF assms(1), of p info env] assms(3) [OF e] show ?thesis by simp
next
  case False
  with assms(2) show ?thesis
    by (auto simp: convert_to_node_event_def handle_inbound_request_def next_pending_id_def case_prod_beta Let_def identified_def
        intro!: only_listens_frame [OF assms(1)]
        split: swarm_event.splits core_behaviour_event.splits relay_client_event.splits req_resp_event.splits
          message.splits sum.splits mdns_event.splits identify_event.splits kad_event.splits)
qed

lemma loop_turn_listens:
  assumes "only_listens ls ps el" and "loop_turn env t inp el = Some el'" and "\<not> adds_infrastructure (t, inp)"
    and "\<And>p info. inp = SwarmEvent (identified p info) \<Longrightarrow> p \<in> ps \<Longrightarrow> info_protocol_version info \<noteq> el_protocol_version el"
  shows "only_listens ls ps el'"
proof (cases inp)
  case (CommandReceived cmd)
  have "only_listens ls ps (retain_active el)" by (rule only_listens_frame [OF assms(1)]) simp_all
  with handle_command_listens [of ls ps "retain_active el" cmd env] assms(2,3) CommandReceived show ?thesis
    by (simp add: loop_turn_eq adds_infrastructure_def Let_def)
next
  case (SwarmEvent e)
  let ?el = "(retain_active el)\<lparr>el_swarm := el_swarm el @ [Polled e]\<rparr>"
  have p: "only_listens ls ps (after_chain env e ?el)" by (rule only_listens_frame [OF assms(1)]) simp_all
  obtain v el1 where c: "convert_to_node_event env t e (after_chain env e ?el) = (v, el1)" by fastforce
  have "only_listens ls ps el1" by (rule convert_listens [OF p c]) (use assms(4) SwarmEvent in simp)
  then have "only_listens ls ps (send_event b w el1)" for b w by (rule only_listens_frame) simp_all
  moreover have "el' = (if consumable e then after_chain env e ?el
      else case v of None \<Rightarrow> el1 | Some evt \<Rightarrow> send_event (receiver_alive t) evt el1)"
    using assms(2) SwarmEvent handle_swarm_event_consumable [of e env t ?el] handle_swarm_event_passed [of e env t ?el] c
    by (simp add: loop_turn_eq Let_def)
  ultimately show ?thesis using p \<open>only_listens ls ps el1\<close> by (simp split: option.split)
next
  case (InboundStream q p s slot)
  with assms(2) show ?thesis
    by (intro only_listens_frame [OF assms(1)]) (auto simp: loop_turn_eq Let_def loop_inbound_channel_def case_prod_beta)
qed (use assms(2) in \<open>simp add: loop_turn_eq Let_def\<close>)

text \<open>The calls of a run come after those made before it.\<close>

lemma loop_turn_extends:
  assumes "loop_turn env t inp el = Some el'"
  shows "\<exists>new. el_swarm el' = el_swarm el @ new"
proof (cases inp)
  case (CommandReceived cmd)
  let ?el = "retain_active el"
  obtain c' sw' h' where r: "handler_run env (task_handler cmd) (el_swarm ?el) (el_handles ?el (task_handle cmd)) = (c', sw', h')"
    by (metis prod_cases3)
  from handler_run_extends [OF r] handle_command_swarm [OF r] assms CommandReceived show ?thesis
    by (auto simp: loop_turn_eq Let_def adds_quietly_def)
next
  case (SwarmEvent e)
  from handle_swarm_event_swarm [of "(retain_active el)\<lparr>el_swarm := el_swarm el @ [Polled e]\<rparr>" env t e] assms SwarmEvent
  show ?thesis by (auto simp: loop_turn_eq Let_def adds_quietly_def)
qed (use assms in \<open>auto simp: loop_turn_eq Let_def loop_inbound_channel_def case_prod_beta\<close>)

lemma loop_run_extends:
  assumes "loop_run env xs el = Some el'"
  shows "\<exists>new. el_swarm el' = el_swarm el @ new"
  by (rule loop_run_invariant [OF assms]) (use loop_turn_extends in \<open>fastforce+\<close>)

end
