(* ===== verification/Bootstrap_Node.thy ===== *)
theory Bootstrap_Node
  imports Config
begin

text \<open>
  The bootstrap and relay server of \<^verbatim>\<open>bootstrap/src/\<close>: its limits and behaviour, the command line it runs
  from, the identity file, the setup of its swarm, and its event loop, which only writes log messages. Parsing an
  address text, the key encoding and key generation belong to libraries and are arguments.
\<close>

section \<open>Limits and behaviour\<close>

definition DEFAULT_MAX_RESERVATIONS :: usize where "DEFAULT_MAX_RESERVATIONS = 128"
definition DEFAULT_MAX_RESERVATIONS_PER_PEER :: usize where "DEFAULT_MAX_RESERVATIONS_PER_PEER = 4"
definition DEFAULT_RESERVATION_DURATION_SECS :: u64 where "DEFAULT_RESERVATION_DURATION_SECS = 3600"
definition DEFAULT_MAX_CIRCUITS :: usize where "DEFAULT_MAX_CIRCUITS = 16"
definition DEFAULT_MAX_CIRCUITS_PER_PEER :: usize where "DEFAULT_MAX_CIRCUITS_PER_PEER = 4"
definition DEFAULT_MAX_CIRCUIT_DURATION_SECS :: u64 where "DEFAULT_MAX_CIRCUIT_DURATION_SECS = 3600"
definition DEFAULT_MAX_CIRCUIT_BYTES :: u64 where "DEFAULT_MAX_CIRCUIT_BYTES = 1024 * 1024 * 512"

definition server_limits_default :: relay_limits where
  "server_limits_default =
     \<lparr>max_reservations = DEFAULT_MAX_RESERVATIONS,
      max_reservations_per_peer = DEFAULT_MAX_RESERVATIONS_PER_PEER,
      reservation_duration = duration_from_secs (unat DEFAULT_RESERVATION_DURATION_SECS),
      max_circuits = DEFAULT_MAX_CIRCUITS, max_circuits_per_peer = DEFAULT_MAX_CIRCUITS_PER_PEER,
      max_circuit_duration = duration_from_secs (unat DEFAULT_MAX_CIRCUIT_DURATION_SECS),
      max_circuit_bytes = DEFAULT_MAX_CIRCUIT_BYTES\<rparr>"

record bootstrap_behaviour =
  bb_ping_interval :: duration
  bb_ping_timeout :: duration
  bb_protocol_version :: string
  bb_agent_version :: string
  bb_push_updates :: bool
  bb_cache_size :: nat
  bb_kad_query_timeout :: duration
  bb_kad_record_ttl :: duration
  bb_kad_replication_factor :: nat
  bb_kad_publication_interval :: duration
  bb_kad_provider_record_ttl :: duration
  bb_kad_forced_server :: bool
  bb_relay :: relay_limits

definition bootstrap_behaviour_new :: "relay_limits \<Rightarrow> bootstrap_behaviour" where
  "bootstrap_behaviour_new limits =
     \<lparr>bb_ping_interval = duration_from_secs 15, bb_ping_timeout = duration_from_secs 10,
      bb_protocol_version = ''/swarmdrop/1.0.0'', bb_agent_version = ''swarm-bootstrap/0.4.1'',
      bb_push_updates = True, bb_cache_size = 1000,
      bb_kad_query_timeout = duration_from_secs 60, bb_kad_record_ttl = duration_from_secs 7200,
      bb_kad_replication_factor = 20, bb_kad_publication_interval = duration_from_secs 3600,
      bb_kad_provider_record_ttl = duration_from_secs 7200, bb_kad_forced_server = True,
      bb_relay =
        \<lparr>max_reservations = max_reservations limits, max_reservations_per_peer = max_reservations_per_peer limits,
         reservation_duration = reservation_duration limits, max_circuits = max_circuits limits,
         max_circuits_per_peer = max_circuits_per_peer limits, max_circuit_duration = max_circuit_duration limits,
         max_circuit_bytes = max_circuit_bytes limits\<rparr>\<rparr>"

section \<open>The identity file\<close>

text \<open>
  A path is the list of its components; a file has contents and permission bits. What fails is an
  argument: reading, writing and changing the mode each give an
  error or nothing, a failed write with what it left at the path.
\<close>

type_synonym path = "string list"

definition path_parent :: "path \<Rightarrow> path option" where
  "path_parent p = (if p = [] then None else Some (butlast p))"

definition resolve_key_file :: "(lib_error + path) \<Rightarrow> path option \<Rightarrow> path" where
  "resolve_key_file current_exe key_file =
     (case key_file of
        Some p \<Rightarrow> p
      | None \<Rightarrow>
          (case Option.bind (case current_exe of Inr p \<Rightarrow> Some p | Inl e \<Rightarrow> None)
                  (\<lambda>p. map_option (\<lambda>d. d @ [''identity.key'']) (path_parent p)) of
             Some p \<Rightarrow> p
           | None \<Rightarrow> [''identity.key'']))"

record disk_file =
  contents :: "8 word list"
  mode :: nat

type_synonym file_system = "path \<rightharpoonup> disk_file"

record 'key key_env =
  read_error :: "path \<Rightarrow> lib_error option"
  write_failure :: "path \<Rightarrow> (lib_error \<times> disk_file option) option"
  on_unix :: bool
  chmod_error :: "path \<Rightarrow> lib_error option"
  created_mode :: nat
  decode_key :: "8 word list \<Rightarrow> lib_error + 'key"
  encode_key :: "'key \<Rightarrow> lib_error + 8 word list"
  generated_key :: 'key

text \<open>
  Each \<open>?\<close> returns early; the file is written with the default mode and, where the program is compiled for unix,
  restricted afterwards.
\<close>

definition load_or_generate_keypair ::
  "'key key_env \<Rightarrow> path \<Rightarrow> file_system \<Rightarrow> (lib_error + 'key) \<times> file_system" where
  "load_or_generate_keypair env path fs =
     (case fs path of
        Some f \<Rightarrow>
          (case read_error env path of
             Some e \<Rightarrow> (Inl e, fs)
           | None \<Rightarrow> (decode_key env (contents f), fs))
      | None \<Rightarrow>
          (case encode_key env (generated_key env) of
             Inl e \<Rightarrow> (Inl e, fs)
           | Inr bytes \<Rightarrow>
               (case write_failure env path of
                  Some (e, left) \<Rightarrow> (Inl e, fs(path := left))
                | None \<Rightarrow>
                    let fs1 = fs(path \<mapsto> \<lparr>contents = bytes, mode = created_mode env\<rparr>)
                    in if on_unix env then
                         (case chmod_error env path of
                            Some e \<Rightarrow> (Inl e, fs1)
                          | None \<Rightarrow> (Inr (generated_key env), fs1(path \<mapsto> \<lparr>contents = bytes, mode = 384\<rparr>)))
                       else (Inr (generated_key env), fs1))))"

section \<open>The command line\<close>

record run_args =
  tcp_port :: "16 word"
  quic_port :: "16 word"
  key_file :: "path option"
  listen_addr :: string
  idle_timeout :: u64
  external_ip :: "string option"
  arg_max_reservations :: usize
  arg_max_reservations_per_peer :: usize
  reservation_duration_secs :: u64
  arg_max_circuits :: usize
  arg_max_circuits_per_peer :: usize
  max_circuit_duration_secs :: u64
  arg_max_circuit_bytes :: u64

datatype cli_command = Run run_args | PeerIdCommand "path option"

definition tcp_text :: "string \<Rightarrow> 16 word \<Rightarrow> string" where
  "tcp_text ip port = ''/ip4/'' @ ip @ ''/tcp/'' @ show_nat (unat port)"

definition quic_text :: "string \<Rightarrow> 16 word \<Rightarrow> string" where
  "quic_text ip port = ''/ip4/'' @ ip @ ''/udp/'' @ show_nat (unat port) @ ''/quic-v1''"

text \<open>What \<open>swarm_bootstrap::run\<close> is called with.\<close>

record 'key server_config =
  sc_keypair :: 'key
  sc_tcp_addr :: multiaddr
  sc_quic_addr :: multiaddr
  sc_idle_timeout :: duration
  sc_external_addrs :: "multiaddr list"
  sc_relay_limits :: relay_limits

definition relay_limits_of_args :: "run_args \<Rightarrow> relay_limits" where
  "relay_limits_of_args a =
     \<lparr>max_reservations = arg_max_reservations a, max_reservations_per_peer = arg_max_reservations_per_peer a,
      reservation_duration = duration_from_secs (unat (reservation_duration_secs a)),
      max_circuits = arg_max_circuits a, max_circuits_per_peer = arg_max_circuits_per_peer a,
      max_circuit_duration = duration_from_secs (unat (max_circuit_duration_secs a)),
      max_circuit_bytes = arg_max_circuit_bytes a\<rparr>"

definition u32_max :: nat where "u32_max = 4294967295"

definition circuit_duration_error :: lib_error where
  "circuit_duration_error =
     (let m = ''max circuit duration must not exceed '' @ show_nat u32_max @ '' seconds''
      in \<lparr>to_string = m, debug_string = m\<rparr>)"

definition parse_external :: "(string \<Rightarrow> lib_error + multiaddr) \<Rightarrow> run_args \<Rightarrow> lib_error + multiaddr list" where
  "parse_external parse a =
     (case external_ip a of
        None \<Rightarrow> Inr []
      | Some ip \<Rightarrow>
          (case parse (tcp_text ip (tcp_port a)) of
             Inl e \<Rightarrow> Inl e
           | Inr t \<Rightarrow>
               (case parse (quic_text ip (quic_port a)) of
                  Inl e \<Rightarrow> Inl e
                | Inr q \<Rightarrow> Inr [t, q])))"

text \<open>
  The \<open>Run\<close> arm of \<open>main\<close> up to the call of \<open>run\<close>, with its early returns in order; the last is that of building the async
  runtime, whose failure is an argument.
\<close>

definition main_run ::
  "'key key_env \<Rightarrow> (lib_error + path) \<Rightarrow> (string \<Rightarrow> lib_error + multiaddr) \<Rightarrow> lib_error option \<Rightarrow> run_args \<Rightarrow> file_system \<Rightarrow>
   (lib_error + 'key server_config) \<times> file_system" where
  "main_run env exe parse runtime_error a fs =
     (case load_or_generate_keypair env (resolve_key_file exe (key_file a)) fs of
        (Inl e, fs') \<Rightarrow> (Inl e, fs')
      | (Inr k, fs') \<Rightarrow>
          (case parse (tcp_text (listen_addr a) (tcp_port a)) of
             Inl e \<Rightarrow> (Inl e, fs')
           | Inr tcp \<Rightarrow>
               (case parse (quic_text (listen_addr a) (quic_port a)) of
                  Inl e \<Rightarrow> (Inl e, fs')
                | Inr quic \<Rightarrow>
                    (case parse_external parse a of
                       Inl e \<Rightarrow> (Inl e, fs')
                     | Inr ext \<Rightarrow>
                         if unat (max_circuit_duration_secs a) \<le> u32_max then
                           (case runtime_error of
                              Some e \<Rightarrow> (Inl e, fs')
                            | None \<Rightarrow>
                                (Inr \<lparr>sc_keypair = k, sc_tcp_addr = tcp, sc_quic_addr = quic,
                                      sc_idle_timeout = duration_from_secs (unat (idle_timeout a)),
                                      sc_external_addrs = ext, sc_relay_limits = relay_limits_of_args a\<rparr>, fs'))
                         else (Inl circuit_duration_error, fs')))))"

text \<open>
  \<open>main\<close>: the subcommand \<open>peer-id\<close> prints the identity of the key, which is derived by a library function; \<open>run\<close>
  starts the server.
\<close>

datatype 'key main_effect = PrintsPeerId peer_id | Serves "'key server_config"

definition cli_main ::
  "('key \<Rightarrow> peer_id) \<Rightarrow> 'key key_env \<Rightarrow> (lib_error + path) \<Rightarrow> (string \<Rightarrow> lib_error + multiaddr) \<Rightarrow>
   lib_error option \<Rightarrow> cli_command \<Rightarrow> file_system \<Rightarrow>
   (lib_error + 'key main_effect) \<times> file_system" where
  "cli_main to_peer_id env exe parse runtime_error command fs =
     (case command of
        PeerIdCommand path \<Rightarrow>
          (case load_or_generate_keypair env (resolve_key_file exe path) fs of
             (Inl e, fs') \<Rightarrow> (Inl e, fs')
           | (Inr k, fs') \<Rightarrow> (Inr (PrintsPeerId (to_peer_id k)), fs'))
      | Run a \<Rightarrow>
          (case main_run env exe parse runtime_error a fs of
             (Inl e, fs') \<Rightarrow> (Inl e, fs')
           | (Inr cfg, fs') \<Rightarrow> (Inr (Serves cfg), fs')))"

text \<open>The setup of \<open>run\<close>: two listeners, each of which may fail, then the external addresses.\<close>

definition server_setup ::
  "('req, 'resp, 'stats) net_env \<Rightarrow> 'key server_config \<Rightarrow> (lib_error option) \<times> ('req, 'resp, 'stats) swarm" where
  "server_setup env cfg =
     (case swarm_listen_on env (sc_tcp_addr cfg) [] of
        (Some e, sw) \<Rightarrow> (Some e, sw)
      | (None, sw) \<Rightarrow>
          (case swarm_listen_on env (sc_quic_addr cfg) sw of
             (Some e, sw') \<Rightarrow> (Some e, sw')
           | (None, sw') \<Rightarrow> (None, fold swarm_add_external_address (sc_external_addrs cfg) sw')))"

section \<open>The event loop of the server\<close>

text \<open>
  The events \<open>handle_event\<close> tells apart. The behaviour has no requests of its own: identify, the DHT, the relay
  and the reachability service each report what they did.
\<close>

datatype server_behaviour_event =
    ServerIdentifyReceived peer_id identify_info
  | ServerIdentifyOther
  | ServerKadRoutingUpdated peer_id
  | ServerKadOther
  | ServerRelay relay_event
  | ServerAutonat multiaddr peer_id "lib_error + unit"
  | ServerPing

datatype server_event =
    ServerNewListenAddr multiaddr
  | ServerConnectionEstablished peer_id nat
  | ServerConnectionClosed peer_id nat
  | ServerBehaviour server_behaviour_event
  | ServerIncomingConnection
  | ServerOutgoingConnectionError
  | ServerIncomingConnectionError
  | ServerOtherEvent

text \<open>What goes to the log, with the values the message shows.\<close>

datatype server_log =
    LogListening multiaddr
  | LogConnected peer_id
  | LogDisconnected peer_id
  | LogIdentified peer_id string string
  | LogRoutingUpdated peer_id
  | LogKad
  | LogRelay relay_event
  | LogAutonat multiaddr peer_id "lib_error + unit"
  | LogConnectionEvent

definition server_handle_event :: "server_event \<Rightarrow> server_log option" where
  "server_handle_event event =
     (case event of
        ServerNewListenAddr address \<Rightarrow> Some (LogListening address)
      | ServerConnectionEstablished peer n \<Rightarrow> (if n = 1 then Some (LogConnected peer) else None)
      | ServerConnectionClosed peer n \<Rightarrow> (if n = 0 then Some (LogDisconnected peer) else None)
      | ServerBehaviour (ServerIdentifyReceived peer info) \<Rightarrow>
          Some (LogIdentified peer (info_agent_version info) (info_protocol_version info))
      | ServerBehaviour (ServerKadRoutingUpdated peer) \<Rightarrow> Some (LogRoutingUpdated peer)
      | ServerBehaviour ServerKadOther \<Rightarrow> Some LogKad
      | ServerBehaviour (ServerRelay e) \<Rightarrow> Some (LogRelay e)
      | ServerBehaviour (ServerAutonat tested client res) \<Rightarrow> Some (LogAutonat tested client res)
      | ServerIncomingConnection \<Rightarrow> Some LogConnectionEvent
      | ServerOutgoingConnectionError \<Rightarrow> Some LogConnectionEvent
      | ServerIncomingConnectionError \<Rightarrow> Some LogConnectionEvent
      | _ \<Rightarrow> None)"

text \<open>
  One poll of \<open>shutdown_signal\<close>: whether it is done, or \<open>None\<close> for the panic when the SIGTERM handler cannot be
  installed. \<open>ctrl_c\<close> is what that future has resolved to, an error included.
\<close>

definition shutdown_signal ::
  "bool \<Rightarrow> bool \<Rightarrow> (lib_error + unit) option \<Rightarrow> bool \<Rightarrow> bool option" where
  "shutdown_signal unix sigterm_installed ctrl_c sigterm =
     (if unix then (if sigterm_installed then Some (ctrl_c \<noteq> None \<or> sigterm) else None)
      else Some (ctrl_c \<noteq> None))"

text \<open>
  The loop of \<open>run\<close>: each input is the branch of \<open>select!\<close> that was ready. The result is what was logged, and
  whether the loop has ended.
\<close>

datatype server_input = ServerEvent server_event | ShutdownSignal

fun server_loop :: "server_input list \<Rightarrow> server_log list \<times> bool" where
  "server_loop [] = ([], False)"
| "server_loop (ShutdownSignal # inputs) = ([], True)"
| "server_loop (ServerEvent event # inputs) =
     (case server_loop inputs of (log, stopped) \<Rightarrow>
        ((case server_handle_event event of None \<Rightarrow> [] | Some l \<Rightarrow> [l]) @ log, stopped))"

text \<open>\<open>run\<close>: the setup, which may fail, then the loop; the swarm is not called again.\<close>

definition server_run ::
  "('req, 'resp, 'stats) net_env \<Rightarrow> 'key server_config \<Rightarrow> server_input list \<Rightarrow>
   (lib_error + server_log list \<times> bool) \<times> ('req, 'resp, 'stats) swarm" where
  "server_run env cfg inputs =
     (case server_setup env cfg of
        (Some e, sw) \<Rightarrow> (Inl e, sw)
      | (None, sw) \<Rightarrow> (Inr (server_loop inputs), sw))"

text \<open>
  The server stops at the first signal and at nothing else, whatever the events before it were; what came after
  is not handled.
\<close>

theorem server_stops_at_signal:
  "server_loop inputs =
     (List.map_filter (\<lambda>i. case i of ServerEvent e \<Rightarrow> server_handle_event e | ShutdownSignal \<Rightarrow> None)
        (takeWhile (\<lambda>i. i \<noteq> ShutdownSignal) inputs),
      ShutdownSignal \<in> set inputs)"
  by (induction inputs rule: server_loop.induct)
     (simp_all add: map_filter_simps split: option.split)

text \<open>Connections are logged per peer: a further connection to a connected peer, or one of several closing, is not.\<close>

lemma server_logs_peers:
  "server_handle_event (ServerConnectionEstablished p n) \<noteq> None \<longleftrightarrow> n = 1"
  "server_handle_event (ServerConnectionClosed p n) \<noteq> None \<longleftrightarrow> n = 0"
  by (simp_all add: server_handle_event_def)

section \<open>Properties\<close>

text \<open>
  C37: the node keeps its identity. If the key encoding can be read back and no file operation fails, the first
  start without a key file generates a key and saves it, on unix readable by its owner only and elsewhere with the
  mode of a new file; every later start with that file system returns the same key and leaves the files alone,
  and other files are never touched.
\<close>

theorem identity_is_stable:
  assumes "fs path = None"
    and "encode_key env (generated_key env) = Inr bytes" and "decode_key env bytes = Inr (generated_key env)"
    and "read_error env path = None" and "write_failure env path = None" and "on_unix env \<Longrightarrow> chmod_error env path = None"
    and "load_or_generate_keypair env path fs = (res, fs1)"
  shows "res = Inr (generated_key env)
       \<and> fs1 path = Some \<lparr>contents = bytes, mode = (if on_unix env then 384 else created_mode env)\<rparr>
       \<and> load_or_generate_keypair (env\<lparr>generated_key := other\<rparr>) path fs1 = (Inr (generated_key env), fs1)
       \<and> (\<forall>p. p \<noteq> path \<longrightarrow> fs1 p = fs p)"
  using assms by (cases "on_unix env") (auto simp: load_or_generate_keypair_def Let_def)

definition sample_key_env :: "nat key_env" where
  "sample_key_env =
     \<lparr>read_error = (\<lambda>_. None), write_failure = (\<lambda>_. None), on_unix = True, chmod_error = (\<lambda>_. None), created_mode = 420,
      decode_key = (\<lambda>bs. Inr (length bs)), encode_key = (\<lambda>k. Inr (replicate k 0)), generated_key = 7\<rparr>"

theorem identity_is_stable_witness:
  "\<exists>fs1. load_or_generate_keypair sample_key_env [''identity.key''] Map.empty = (Inr 7, fs1)
     \<and> load_or_generate_keypair (sample_key_env\<lparr>generated_key := 8\<rparr>) [''identity.key''] fs1 = (Inr 7, fs1)"
proof -
  obtain res fs1 where l: "load_or_generate_keypair sample_key_env [''identity.key''] Map.empty = (res, fs1)" by fastforce
  from identity_is_stable [OF _ _ _ _ _ _ l, of "replicate 7 0" 8] l show ?thesis
    by (auto simp: sample_key_env_def)
qed

text \<open>
  C38: the command line decides the server. If the server starts, its relay limits, its idle timeout and its listen
  addresses are those of the command line, its key is the one of the key file, its circuit duration fits the 32-bit
  seconds of the protocol, and once its listeners are up it has announced the TCP and the QUIC address of the
  external IP, or nothing without one; a longer circuit duration never starts a server. The subcommand \<open>peer-id\<close>
  with the same key file prints the identity of that server and leaves the files as the server would.
\<close>

theorem server_runs_as_configured:
  assumes "cli_main to_peer_id env exe parse runtime_error (Run a) fs = (Inr (Serves cfg), fs')"
  shows "bb_relay (bootstrap_behaviour_new (sc_relay_limits cfg)) = relay_limits_of_args a
       \<and> sc_idle_timeout cfg = duration_from_secs (unat (idle_timeout a))
       \<and> max_circuit_duration (sc_relay_limits cfg) < duration_from_secs (2 ^ 32)
       \<and> load_or_generate_keypair env (resolve_key_file exe (key_file a)) fs = (Inr (sc_keypair cfg), fs')
       \<and> (\<forall>other. cli_main to_peer_id env exe parse other (PeerIdCommand (key_file a)) fs =
            (Inr (PrintsPeerId (to_peer_id (sc_keypair cfg))), fs'))
       \<and> parse (tcp_text (listen_addr a) (tcp_port a)) = Inr (sc_tcp_addr cfg)
       \<and> parse (quic_text (listen_addr a) (quic_port a)) = Inr (sc_quic_addr cfg)
       \<and> (\<forall>sw. server_setup net cfg = (None, sw) \<longrightarrow>
            sw = [CallListenOn (sc_tcp_addr cfg), CallListenOn (sc_quic_addr cfg)]
                 @ map CallAddExternalAddress (sc_external_addrs cfg))
       \<and> (case external_ip a of
            None \<Rightarrow> sc_external_addrs cfg = []
          | Some ip \<Rightarrow> \<exists>t q. parse (tcp_text ip (tcp_port a)) = Inr t \<and> parse (quic_text ip (quic_port a)) = Inr q
                         \<and> sc_external_addrs cfg = [t, q])"
proof -
  have ext: "fold swarm_add_external_address as sw = sw @ map CallAddExternalAddress as"
    for as and sw :: "('b, 'c, 'd) swarm"
    by (induction as arbitrary: sw) (simp_all add: swarm_add_external_address_def)
  obtain tcp quic es where p: "parse (tcp_text (listen_addr a) (tcp_port a)) = Inr tcp"
    "parse (quic_text (listen_addr a) (quic_port a)) = Inr quic" "parse_external parse a = Inr es"
    "unat (max_circuit_duration_secs a) \<le> u32_max"
    "load_or_generate_keypair env (resolve_key_file exe (key_file a)) fs = (Inr (sc_keypair cfg), fs')"
    "sc_tcp_addr cfg = tcp" "sc_quic_addr cfg = quic" "sc_external_addrs cfg = es"
    "sc_relay_limits cfg = relay_limits_of_args a" "sc_idle_timeout cfg = duration_from_secs (unat (idle_timeout a))"
    using assms by (auto simp: cli_main_def main_run_def split: prod.splits sum.splits if_splits option.splits)
  have "max_circuit_duration (sc_relay_limits cfg) < duration_from_secs (2 ^ 32)"
    using p(4,9) by (simp add: relay_limits_of_args_def duration_from_secs_def u32_max_def)
  moreover have "\<forall>sw. server_setup net cfg = (None, sw) \<longrightarrow>
      sw = [CallListenOn tcp, CallListenOn quic] @ map CallAddExternalAddress es"
    using p(6-8) by (auto simp: server_setup_def swarm_listen_on_def ext split: option.splits)
  moreover have "case external_ip a of None \<Rightarrow> sc_external_addrs cfg = []
      | Some ip \<Rightarrow> \<exists>t q. parse (tcp_text ip (tcp_port a)) = Inr t \<and> parse (quic_text ip (quic_port a)) = Inr q
                     \<and> sc_external_addrs cfg = [t, q]"
    using p(3) unfolding p(8) by (auto simp: parse_external_def split: option.splits sum.splits)
  ultimately show ?thesis using p(1,2,5-10) by (simp add: bootstrap_behaviour_new_def cli_main_def)
qed

definition sample_args :: run_args where
  "sample_args =
     \<lparr>tcp_port = 4001, quic_port = 4001, key_file = None, listen_addr = ''0.0.0.0'', idle_timeout = 120,
      external_ip = Some ''1.2.3.4'', arg_max_reservations = DEFAULT_MAX_RESERVATIONS,
      arg_max_reservations_per_peer = DEFAULT_MAX_RESERVATIONS_PER_PEER,
      reservation_duration_secs = DEFAULT_RESERVATION_DURATION_SECS, arg_max_circuits = DEFAULT_MAX_CIRCUITS,
      arg_max_circuits_per_peer = DEFAULT_MAX_CIRCUITS_PER_PEER,
      max_circuit_duration_secs = DEFAULT_MAX_CIRCUIT_DURATION_SECS,
      arg_max_circuit_bytes = DEFAULT_MAX_CIRCUIT_BYTES\<rparr>"

theorem server_runs_as_configured_witness:
  "\<exists>cfg fs'. cli_main PeerId sample_key_env (Inr [''bin'', ''swarm-bootstrap'']) (\<lambda>s. Inr [OtherProtocol s]) None (Run sample_args)
       Map.empty = (Inr (Serves cfg), fs')
     \<and> bb_relay (bootstrap_behaviour_new (sc_relay_limits cfg)) = server_limits_default
     \<and> sc_idle_timeout cfg = duration_from_secs 120
     \<and> sc_external_addrs cfg = [[OtherProtocol (tcp_text ''1.2.3.4'' 4001)], [OtherProtocol (quic_text ''1.2.3.4'' 4001)]]"
proof -
  let ?parse = "\<lambda>s. Inr [OtherProtocol s] :: lib_error + multiaddr"
  obtain cfg fs' where m: "cli_main PeerId sample_key_env (Inr [''bin'', ''swarm-bootstrap'']) ?parse None (Run sample_args) Map.empty
      = (Inr (Serves cfg), fs')"
    by (auto simp: cli_main_def main_run_def load_or_generate_keypair_def sample_key_env_def sample_args_def parse_external_def
        u32_max_def DEFAULT_MAX_CIRCUIT_DURATION_SECS_def Let_def)
  have "relay_limits_of_args sample_args = server_limits_default"
    by (simp add: relay_limits_of_args_def sample_args_def server_limits_default_def)
  with server_runs_as_configured [OF m] m show ?thesis by (auto simp: sample_args_def)
qed

end
