(* ===== verification/Unit_Tests.thy ===== *)
theory Unit_Tests
  imports Pending_Map Channel_Open Config Lan_Address
begin

text \<open>
  The crate's own unit tests, translated against the model: each definition is the body of one test
  function, the conjunction of its assertions, and the theorem after it says that the model passes it. The
  random peers of the tests are arguments, assumed distinct where the test generates them apart; clock
  readings and the counters a test does not reset are arguments as well.
\<close>

definition proto :: stream_protocol where
  "proto = ''/test/data/1''"

section \<open>The pending map\<close>

definition test_insert_and_take :: "instant \<Rightarrow> instant \<Rightarrow> bool" where
  "test_insert_and_take t1 t2 =
     (let m0 = pm_new (duration_from_secs 60);
          m1 = pm_insert t1 (1 :: u64) ''hello'' m0;
          m2 = pm_insert t2 2 ''world'' m1;
          (r1, m3) = pm_take 1 m2;
          (r2, m4) = pm_take 1 m3
      in pm_len m2 = 2 \<and> r1 = Some ''hello'' \<and> pm_len m3 = 1 \<and> r2 = None)"

lemma insert_and_take_passes: "test_insert_and_take t1 t2"
  by (simp add: test_insert_and_take_def pm_new_def pm_insert_def pm_take_def pm_len_def)

definition test_take_nonexistent_returns_none :: bool where
  "test_take_nonexistent_returns_none =
     (let m0 = pm_new (duration_from_secs 60) :: (u64, string) pending_map;
          (r, m1) = pm_take 999 m0
      in r = None \<and> pm_is_empty m1)"

lemma take_nonexistent_returns_none_passes: "test_take_nonexistent_returns_none"
  by (simp add: test_take_nonexistent_returns_none_def pm_new_def pm_take_def pm_is_empty_def)

text \<open>The clone is a second handle on the same table: what is inserted through one is taken through the other.\<close>

definition test_clone_shares_state :: "instant \<Rightarrow> bool" where
  "test_clone_shares_state t =
     (let table = pm_insert t (1 :: u64) ''value'' (pm_new (duration_from_secs 60));
          (r, table') = pm_take 1 table
      in r = Some ''value'' \<and> pm_is_empty table')"

lemma clone_shares_state_passes: "test_clone_shares_state t"
  by (simp add: test_clone_shares_state_def pm_new_def pm_insert_def pm_take_def pm_is_empty_def)

definition test_ttl_expiry_cleans_up :: "instant \<Rightarrow> instant \<Rightarrow> bool" where
  "test_ttl_expiry_cleans_up inserted now =
     (let m0 = pm_new (duration_from_secs 60);
          e = \<lparr>entry_value = ''ephemeral'', created_at = inserted - duration_from_secs 61\<rparr>;
          m1 = m0\<lparr>entries := AList.update (1 :: u64) e (entries m0)\<rparr>;
          (n, m2) = pm_purge_expired now m1
      in pm_len m1 = 1 \<and> n = 1 \<and> pm_is_empty m2)"

lemma ttl_expiry_cleans_up_passes:
  "duration_from_secs 61 \<le> inserted \<Longrightarrow> inserted \<le> now \<Longrightarrow> test_ttl_expiry_cleans_up inserted now"
  by (simp add: test_ttl_expiry_cleans_up_def pm_new_def pm_purge_eq pm_len_def pm_is_empty_def
      duration_since_def duration_from_secs_def)

text \<open>
  The cleanup task gets to run once while the test yields; \<open>tick\<close> is when.
\<close>

definition test_non_expired_entries_survive_cleanup :: "instant \<Rightarrow> instant \<Rightarrow> bool" where
  "test_non_expired_entries_survive_cleanup t tick =
     (let m1 = pm_insert t (1 :: u64) ''durable'' (pm_new (duration_from_secs 60));
          m2 = cleanup_task [tick] m1;
          (r, m3) = pm_take 1 m2
      in pm_len m2 = 1 \<and> r = Some ''durable'')"

lemma non_expired_entries_survive_cleanup_passes:
  "tick < t + duration_from_secs 60 \<Longrightarrow> test_non_expired_entries_survive_cleanup t tick"
  by (auto simp: test_non_expired_entries_survive_cleanup_def pm_new_def pm_insert_def pm_take_def
      cleanup_task_def pm_purge_eq pm_len_def duration_since_def duration_from_secs_def)

text \<open>
  A task that ticks every millisecond, under a lifetime of zero. The test waits until the map is empty, at
  most a second; the map it looks at last is the one the ticks of that second leave.
\<close>

definition test_background_cleanup_uses_configured_interval :: "instant \<Rightarrow> instant \<Rightarrow> bool" where
  "test_background_cleanup_uses_configured_interval t start =
     (let m1 = pm_insert t (1 :: u64) ''ephemeral'' (pm_new 0)
      in pm_is_empty (cleanup_task (interval_ticks start 1000000 (start + duration_from_secs 1)) m1))"

lemma purge_zero_ttl: "ttl m = 0 \<Longrightarrow> entries (snd (pm_purge_expired now m)) = []"
  by (simp add: pm_purge_eq case_prod_unfold)

lemma cleanup_zero_ttl: "ticks \<noteq> [] \<Longrightarrow> ttl m = 0 \<Longrightarrow> entries (cleanup_task ticks m) = []"
proof (induction ticks arbitrary: m)
  case (Cons now ticks)
  then show ?case
    by (cases ticks) (simp_all add: cleanup_task_def purge_zero_ttl)
qed simp

lemma background_cleanup_uses_configured_interval_passes:
  "test_background_cleanup_uses_configured_interval t start"
  by (simp add: test_background_cleanup_uses_configured_interval_def pm_is_empty_def cleanup_zero_ttl
      interval_ticks_def pm_new_def pm_insert_def del: upt_Suc)

section \<open>Data channels and their registry\<close>

fun id_number :: "data_channel_id \<Rightarrow> u64" where
  "id_number (DataChannelId i) = i"

definition test_channel_id_is_monotonic :: "u64 \<Rightarrow> bool" where
  "test_channel_id_is_monotonic c =
     (let (a, c1) = data_channel_id_next c; (b, c2) = data_channel_id_next c1
      in id_number a < id_number b)"

lemma channel_id_is_monotonic_passes: "unat c < 2 ^ 64 - 1 \<Longrightarrow> test_channel_id_is_monotonic c"
  by (simp add: test_channel_id_is_monotonic_def data_channel_id_next_def fetch_add_one_def word_less_nat_alt
      unat_word_ariths)

definition test_limits_default_values :: bool where
  "test_limits_default_values =
     (let l = data_channel_limits_default
      in max_inbound_per_peer l = 4 \<and> max_outbound_per_peer l = 4 \<and> max_per_protocol l = 64)"

lemma limits_default_values_passes: "test_limits_default_values"
  by (simp add: test_limits_default_values_def data_channel_limits_default_def)

definition drop_option :: "channel_guard option \<Rightarrow> registry_inner \<Rightarrow> registry_inner" where
  "drop_option g r = (case g of None \<Rightarrow> r | Some g \<Rightarrow> guard_drop g r)"

definition test_registry_enforces_per_peer_inbound_limit :: "peer_id \<Rightarrow> bool" where
  "test_registry_enforces_per_peer_inbound_limit peer =
     (let limits = \<lparr>max_inbound_per_peer = 2, max_outbound_per_peer = 4, max_per_protocol = 64\<rparr>;
          (g1, r1) = try_acquire limits peer proto Inbound registry_inner_default;
          (g2, r2) = try_acquire limits peer proto Inbound r1;
          (g3, r3) = try_acquire limits peer proto Inbound r2;
          r4 = drop_option g1 r3;
          (g4, r5) = try_acquire limits peer proto Inbound r4
      in g1 \<noteq> None \<and> g2 \<noteq> None \<and> g3 = None \<and> g4 \<noteq> None)"

definition test_registry_enforces_per_protocol_limit :: "peer_id \<Rightarrow> peer_id \<Rightarrow> peer_id \<Rightarrow> bool" where
  "test_registry_enforces_per_protocol_limit p1 p2 p3 =
     (let limits = \<lparr>max_inbound_per_peer = 10, max_outbound_per_peer = 10, max_per_protocol = 2\<rparr>;
          (g1, r1) = try_acquire limits p1 proto Inbound registry_inner_default;
          (g2, r2) = try_acquire limits p2 proto Inbound r1;
          (g3, r3) = try_acquire limits p3 proto Inbound r2
      in g1 \<noteq> None \<and> g2 \<noteq> None \<and> g3 = None)"

definition test_registry_enforces_per_peer_outbound_limit :: "peer_id \<Rightarrow> bool" where
  "test_registry_enforces_per_peer_outbound_limit peer =
     (let limits = \<lparr>max_inbound_per_peer = 4, max_outbound_per_peer = 1, max_per_protocol = 64\<rparr>;
          (g1, r1) = try_acquire limits peer proto Outbound registry_inner_default;
          (g2, r2) = try_acquire limits peer proto Outbound r1
      in g1 \<noteq> None \<and> g2 = None)"

definition test_registry_per_protocol_limit_is_shared_across_directions :: "peer_id \<Rightarrow> bool" where
  "test_registry_per_protocol_limit_is_shared_across_directions peer =
     (let limits = \<lparr>max_inbound_per_peer = 10, max_outbound_per_peer = 10, max_per_protocol = 1\<rparr>;
          (inbound, r1) = try_acquire limits peer proto Inbound registry_inner_default;
          (outbound, r2) = try_acquire limits peer proto Outbound r1
      in inbound \<noteq> None \<and> outbound = None)"

definition test_registry_inbound_and_outbound_counts_are_independent :: "peer_id \<Rightarrow> bool" where
  "test_registry_inbound_and_outbound_counts_are_independent peer =
     (let limits = \<lparr>max_inbound_per_peer = 1, max_outbound_per_peer = 1, max_per_protocol = 64\<rparr>;
          (inb, r1) = try_acquire limits peer proto Inbound registry_inner_default;
          (out, r2) = try_acquire limits peer proto Outbound r1
      in inb \<noteq> None \<and> out \<noteq> None)"

definition test_registry_drop_guard_removes_empty_counters :: "peer_id \<Rightarrow> bool" where
  "test_registry_drop_guard_removes_empty_counters peer =
     (case try_acquire data_channel_limits_default peer proto Inbound registry_inner_default of
        (None, r) \<Rightarrow> False
      | (Some guard, r) \<Rightarrow>
          let inner = guard_drop guard r
          in inbound_per_peer inner peer = None \<and> per_protocol inner proto = None)"

definition test_registry_zero_limit_rejects_immediately :: "peer_id \<Rightarrow> peer_id \<Rightarrow> bool" where
  "test_registry_zero_limit_rejects_immediately p1 p2 =
     (let limits = \<lparr>max_inbound_per_peer = 0, max_outbound_per_peer = 0, max_per_protocol = 0\<rparr>;
          (g1, r1) = try_acquire limits p1 proto Inbound registry_inner_default;
          (g2, r2) = try_acquire limits p2 proto Outbound r1
      in g1 = None \<and> g2 = None)"

lemmas registry_test_simps = try_acquire_def counter_get_def counter_bump_def guard_drop_def counter_release_def
  saturating_sub_def registry_inner_default_def drop_option_def word_le_nat_alt word_less_nat_alt

lemma registry_tests_pass:
  "test_registry_enforces_per_peer_inbound_limit peer"
  "test_registry_enforces_per_peer_outbound_limit peer"
  "test_registry_per_protocol_limit_is_shared_across_directions peer"
  "test_registry_inbound_and_outbound_counts_are_independent peer"
  "test_registry_drop_guard_removes_empty_counters peer"
  "test_registry_zero_limit_rejects_immediately p1 p2"
  by (simp_all add: registry_test_simps data_channel_limits_default_def
      test_registry_enforces_per_peer_inbound_limit_def test_registry_enforces_per_peer_outbound_limit_def
      test_registry_per_protocol_limit_is_shared_across_directions_def
      test_registry_inbound_and_outbound_counts_are_independent_def
      test_registry_drop_guard_removes_empty_counters_def test_registry_zero_limit_rejects_immediately_def)

lemma registry_enforces_per_protocol_limit_passes:
  "test_registry_enforces_per_protocol_limit p1 p2 p3"
  by (simp add: registry_test_simps test_registry_enforces_per_protocol_limit_def)

section \<open>Opening a data channel\<close>

definition single_outbound_limits :: data_channel_limits where
  "single_outbound_limits = \<lparr>max_inbound_per_peer = 4, max_outbound_per_peer = 1, max_per_protocol = 64\<rparr>"

definition fresh_world :: "u64 \<Rightarrow> dc_world" where
  "fresh_world c = \<lparr>registry = registry_inner_default, id_counter = c\<rparr>"

text \<open>What the stream library would answer does not matter here: the future is refused before it asks.\<close>

definition test_zero_limit_returns_typed_error :: "open_outcome \<Rightarrow> u64 \<Rightarrow> peer_id \<Rightarrow> bool" where
  "test_zero_limit_returns_typed_error out c peer =
     (let limits = \<lparr>max_inbound_per_peer = 0, max_outbound_per_peer = 0, max_per_protocol = 0\<rparr>;
          fut = open_future_new peer proto (duration_from_secs 1)
      in case open_future_poll limits out fut (fresh_world c) of
           (Some (Ready (Inl (DataChannelError ResourceLimitExceededReason))), st, w) \<Rightarrow> True
         | _ \<Rightarrow> False)"

definition test_future_is_lazy_before_first_poll :: "u64 \<Rightarrow> peer_id \<Rightarrow> bool" where
  "test_future_is_lazy_before_first_poll c peer =
     (let fut = open_future_new peer proto (duration_from_secs 1);
          (guard, r) = try_acquire single_outbound_limits peer proto Outbound (registry (fresh_world c))
      in guard \<noteq> None)"

definition test_dropping_pending_open_releases_quota :: "u64 \<Rightarrow> peer_id \<Rightarrow> bool" where
  "test_dropping_pending_open_releases_quota c peer =
     (let fut = open_future_new peer proto (duration_from_secs 60);
          (p, fut', w1) = open_future_poll single_outbound_limits StillOpening fut (fresh_world c);
          (g1, r2) = try_acquire single_outbound_limits peer proto Outbound (registry w1);
          w3 = open_future_drop fut' (w1\<lparr>registry := r2\<rparr>);
          (g2, r4) = try_acquire single_outbound_limits peer proto Outbound (registry w3)
      in p = Some Pending \<and> g1 = None \<and> g2 \<noteq> None)"

lemma open_tests_pass:
  "test_zero_limit_returns_typed_error out c peer"
  "test_future_is_lazy_before_first_poll c peer"
  "test_dropping_pending_open_releases_quota c peer"
  by (simp_all add: registry_test_simps test_zero_limit_returns_typed_error_def open_future_new_def
      test_future_is_lazy_before_first_poll_def test_dropping_pending_open_releases_quota_def fresh_world_def
      single_outbound_limits_def into_opening_future_def open_stream_with_guard_def data_channel_id_next_def
      fetch_add_one_def)

section \<open>Command futures\<close>

text \<open>A command that never finishes, sent through a channel with room for one.\<close>

datatype never_completes_command = NeverCompletesCommand

definition test_first_poll_sends_command_and_drop_marks_it_cancelled :: "waker \<Rightarrow> bool" where
  "test_first_poll_sends_command_and_drop_marks_it_cancelled w =
     (case cf_poll w SendOk (command_future_new NeverCompletesCommand) (handle_new :: unit result_handle) of
        (Pending, Some command, fut, h) \<Rightarrow> \<not> handle_is_cancelled h \<and> handle_is_cancelled (cf_drop h)
      | _ \<Rightarrow> False)"

definition test_closed_command_channel_returns_behaviour_error :: "waker \<Rightarrow> bool" where
  "test_closed_command_channel_returns_behaviour_error w =
     (case cf_poll w SendClosed (command_future_new NeverCompletesCommand) (handle_new :: unit result_handle) of
        (Ready (Inl (BehaviourError m)), sent, fut, h) \<Rightarrow> True
      | _ \<Rightarrow> False)"

lemma future_tests_pass:
  "test_first_poll_sends_command_and_drop_marks_it_cancelled w"
  "test_closed_command_channel_returns_behaviour_error w"
  by (simp_all add: test_first_poll_sends_command_and_drop_marks_it_cancelled_def cf_poll_def cf_submit_def is_err_def
      test_closed_command_channel_returns_behaviour_error_def command_future_new_def handle_is_cancelled_def
      cf_drop_def handle_poll_None)

section \<open>Configuration\<close>

definition test_default_values :: bool where
  "test_default_values =
     (let config = node_config_default
      in protocol_version config = ''/swarm-p2p/1.0.0''
       \<and> take 10 (agent_version config) = ''swarm-p2p/''
       \<and> length (listen_addrs config) = 2
       \<and> bootstrap_peers config = []
       \<and> enable_mdns config \<and> enable_relay_client config \<and> enable_dcutr config \<and> enable_autonat config
       \<and> idle_connection_timeout config = duration_from_secs 60
       \<and> ping_interval config = duration_from_secs 15
       \<and> ping_timeout config = duration_from_secs 10
       \<and> kad_query_timeout config = duration_from_secs 60
       \<and> \<not> kad_server_mode config
       \<and> infrastructure_mode config = Off
       \<and> req_resp_protocol config = ''/swarm-p2p/req/1.0.0''
       \<and> req_resp_timeout config = duration_from_secs 120
       \<and> data_channel_protocols config = []
       \<and> data_channel_open_timeout config = duration_from_secs 30
       \<and> data_channel_idle_timeout config = duration_from_secs 300
       \<and> max_inbound_per_peer (data_channel_limits config) = 4)"

definition test_new_overrides_protocol_and_agent :: bool where
  "test_new_overrides_protocol_and_agent =
     (let config = node_config_new ''/myapp/2.0.0'' ''MyApp/2.0.0''
      in protocol_version config = ''/myapp/2.0.0'' \<and> agent_version config = ''MyApp/2.0.0'' \<and> enable_mdns config)"

definition test_builder_chain :: bool where
  "test_builder_chain =
     (let addr = [Ip4 0x7F000001, Tcp 4001];
          data_protocol = ''/test/data/1'';
          limits = \<lparr>max_inbound_per_peer = 1, max_outbound_per_peer = 2, max_per_protocol = 3\<rparr>;
          lan_helper =
            \<lparr>enable_kad_server = False,
             helper_relay_limits =
               \<lparr>max_reservations = 4, max_reservations_per_peer = 1,
                reservation_duration = duration_from_secs 60, max_circuits = 2, max_circuits_per_peer = 1,
                max_circuit_duration = duration_from_secs 120, max_circuit_bytes = 1024\<rparr>,
             announce_private_addrs = False\<rparr>;
          config = config_build ''/test/1.0.0'' ''Test/1.0.0''
            [WithListenAddrs [addr], WithMdns False, WithRelayClient False, WithDcutr False, WithAutonat False,
             WithLanHelper lan_helper, WithReqRespProtocol ''/test/req/1.0.0'',
             WithReqRespTimeout (duration_from_secs 7), WithDataChannelProtocols [data_protocol],
             WithDataChannelOpenTimeout (duration_from_secs 8), WithDataChannelIdleTimeout (duration_from_secs 9),
             WithDataChannelLimits limits]
      in listen_addrs config = [addr]
       \<and> \<not> enable_mdns config \<and> \<not> enable_relay_client config \<and> \<not> enable_dcutr config \<and> \<not> enable_autonat config
       \<and> infrastructure_mode config = LanHelper lan_helper
       \<and> req_resp_protocol config = ''/test/req/1.0.0''
       \<and> req_resp_timeout config = duration_from_secs 7
       \<and> data_channel_protocols config = [data_protocol]
       \<and> data_channel_open_timeout config = duration_from_secs 8
       \<and> data_channel_idle_timeout config = duration_from_secs 9
       \<and> max_inbound_per_peer (data_channel_limits config) = 1
       \<and> max_outbound_per_peer (data_channel_limits config) = 2
       \<and> max_per_protocol (data_channel_limits config) = 3)"

definition test_clone_is_independent :: bool where
  "test_clone_is_independent =
     (let config = node_config_default; config2 = config\<lparr>enable_mdns := False\<rparr>
      in enable_mdns config \<and> \<not> enable_mdns config2)"

definition test_lan_helper_defaults_are_conservative :: bool where
  "test_lan_helper_defaults_are_conservative =
     (let config = lan_helper_config_default
      in enable_kad_server config \<and> announce_private_addrs config
       \<and> max_reservations (helper_relay_limits config) = 16
       \<and> max_reservations_per_peer (helper_relay_limits config) = 2
       \<and> max_circuits (helper_relay_limits config) = 8
       \<and> max_circuits_per_peer (helper_relay_limits config) = 2
       \<and> max_circuit_bytes (helper_relay_limits config) = 64 * 1024 * 1024)"

definition test_infrastructure_roles_helpers :: bool where
  "test_infrastructure_roles_helpers \<longleftrightarrow>
     roles_kad_server = \<lparr>kad_server = True, relay_server = False\<rparr>
   \<and> roles_relay_server = \<lparr>kad_server = False, relay_server = True\<rparr>
   \<and> roles_kad_and_relay = \<lparr>kad_server = True, relay_server = True\<rparr>"

lemma config_tests_pass:
  "test_default_values" "test_new_overrides_protocol_and_agent" "test_builder_chain"
  "test_clone_is_independent" "test_lan_helper_defaults_are_conservative" "test_infrastructure_roles_helpers"
  by (simp_all add: test_default_values_def test_new_overrides_protocol_and_agent_def test_builder_chain_def
      test_clone_is_independent_def test_lan_helper_defaults_are_conservative_def Let_def
      test_infrastructure_roles_helpers_def node_config_default_def node_config_new_def config_build_def
      data_channel_limits_default_def lan_helper_config_default_def relay_limits_default_def
      roles_kad_server_def roles_relay_server_def roles_kad_and_relay_def)

section \<open>Local addresses\<close>

definition test_usable_lan_addr_filters_non_routable_addresses :: bool where
  "test_usable_lan_addr_filters_non_routable_addresses =
     (let private = [Ip4 0xC0A8010A, Tcp 4001];
          wildcard = [Ip4 0, Tcp 4001];
          loopback = [Ip4 0x7F000001, Tcp 4001];
          link_local = [Ip4 0xA9FE0101, Tcp 4001];
          public = [Ip4 0x08080808, Tcp 4001];
          unique_local = [Ip6 0xFD000000000000000000000000000001, Tcp 4001];
          ipv6_loopback = [Ip6 1, Tcp 4001]
      in is_usable_lan_addr private \<and> is_usable_lan_addr unique_local
       \<and> \<not> is_usable_lan_addr wildcard \<and> \<not> is_usable_lan_addr loopback \<and> \<not> is_usable_lan_addr link_local
       \<and> \<not> is_usable_lan_addr public \<and> \<not> is_usable_lan_addr ipv6_loopback)"

lemma usable_lan_addr_filters_non_routable_addresses_passes:
  "test_usable_lan_addr_filters_non_routable_addresses"
  by code_simp

end
