(* ===== verification/Spec2Isabelle.thy ===== *)
theory Spec2Isabelle
  imports Node_Network Node_Once Reservations Bootstrap_Node Unit_Tests
begin

text \<open>
  swarm-p2p: a Rust node library over libp2p (\<^verbatim>\<open>core/src\<close>, crate swarm-p2p-core) and a bootstrap and relay
  server (\<^verbatim>\<open>bootstrap/src\<close>). This development models both and proves what makes them correct.

  \<^bold>\<open>The program.\<close> An application calls methods of \<open>NetClient\<close>. Each makes a command, wraps it in a
  \<open>CommandFuture\<close> and awaits it; the first poll sends the command with a shared result handle through a
  bounded channel to the event loop. The loop owns the swarm. In each turn it clears out commands whose
  future is gone and then takes one command, one swarm event or one inbound stream. A command runs
  once against the swarm and then sees every event until it says it is done; events no command keeps
  become \<open>NodeEvent\<close>s for the application, and some of them have effects of their own: storing the
  response channel of a request, dialling discovered peers, registering identified peers, asking for
  relay reservations, announcing local addresses. Data channels bypass the loop: a future opens a
  stream directly, and a shared registry bounds how many there are.

  \<^bold>\<open>The networking library\<close> is not part of the repository. Theory Net_Types has its identifiers and the events
  the code matches on. The swarm is the list of the calls made to it and the events it has delivered; each
  answer is a function of that history, a field of the parameter record \<open>net_env\<close>, so the theorems hold
  whatever the library answers. Five hypotheses about it occur, by name: \<open>connectivity_polled\<close> (whether a
  peer is connected changes only when the swarm is polled), \<open>hashset_iter\<close> (iterating a hash set yields its
  elements once each), \<open>connection_trace\<close> (the connection counts reported for a peer are those of a
  counter), \<open>distinct_requests\<close> (the requests a node has sent have different identifiers) and, in a network,
  \<open>arrives\<close> (a request or response from a member was sent by it, on the channel of that request). Other
  outside answers (clock readings, whether a queue has room, what the stream library does at a poll, reading and
  writing the key file) are arguments of the definition that uses them.

  \<^bold>\<open>Theories\<close>, each with the code it models:
  \<^item> Prelude: machine integers, durations (natural numbers of nanoseconds), the atomic counter.
  \<^item> Pending_Map: \<^verbatim>\<open>pending_map.rs\<close>. Refinement to a finite map with creation times; the locale
    \<open>one_shot_store\<close> is the contract, interpreted on the table.
  \<^item> Net_Types, Api_Types: the library's vocabulary; \<^verbatim>\<open>error.rs\<close>, \<^verbatim>\<open>event.rs\<close>, \<^verbatim>\<open>util.rs\<close>, \<^verbatim>\<open>request.rs\<close>.
  \<^item> Channel_Registry, Channel_Open: \<^verbatim>\<open>data_channel.rs\<close>, \<^verbatim>\<open>client/data_channel_open.rs\<close> and the inbound handler
    of the loop. The locale \<open>quota_registry\<close> is what clients of the registry rely on: its counters are
    determined by the multiset of guards that have been handed out. Channel_Open is such a client, as a step
    relation over all futures and handles.
  \<^item> Result_Handle: the handle of \<^verbatim>\<open>command/handler.rs\<close> and \<^verbatim>\<open>client/future.rs\<close>, with a step relation in which the
    loop can run in the middle of a poll, and a future is scheduled only by the wakers the handle really calls.
  \<^item> Command_Core: the locales \<open>waiting_command\<close> and \<open>query_command\<close>, contracts of commands that wait for an
    event or collect the progress of a query; \<open>query_command\<close> gives \<open>waiting_command\<close>.
  \<^item> Basic_Commands, Kad_Commands, Req_Resp_Commands: \<^verbatim>\<open>command/\<close>, one group of definitions per file, each an
    interpretation of one of these locales where it waits.
  \<^item> Command_Dispatch, Command_Chain: the trait object as a sum type, tasks with their handles in a store
    indexed by address, and the loop of \<open>handle_swarm_event\<close> over the active commands with \<open>swap_remove\<close>.
  \<^item> Lan_Address, Event_Loop: \<^verbatim>\<open>runtime/event_loop.rs\<close>, every method; \<open>loop_turn\<close> is one round of \<open>run\<close>, the
    branch that \<open>select!\<close> took being its input. Loop_Properties and Reachability hold the properties of runs.
  \<^item> Client: \<^verbatim>\<open>client/\<close>. Config: \<^verbatim>\<open>config.rs\<close>, \<^verbatim>\<open>runtime/behaviour.rs\<close>. Node: \<^verbatim>\<open>runtime/node.rs\<close>.
  \<^item> Running_Node: the node that \<open>start\<close> leaves running, as one system. Its state is the event loop, the three bounded
    channels, the calls with their futures, and the data channels; \<open>node_act\<close> has one case for each
    thing that can happen next: half a poll of a call, a call dropped or timed out, a client cloned or dropped, clearing out or
    one branch of the loop, an event or a channel taken or its receiver dropped, a tick of the cleanup task, a
    step of an open. \<open>node_reach\<close> are the states of nodes started with any configuration, under any interleaving.
  \<^item> Command_Effects: what running a command and offering an event to the chain can do to handles. Node_Invariants:
    the invariant \<open>node_inv\<close> of the command path. Call_Refinement: each call of the node simulates the
    one-command system of Result_Handle. Node_Channels: the data channels of the node simulate the system of
    Channel_Open. Node_Progress, Node_Typing, Node_Service: bounded queues, result types, progress, and the
    properties of the whole node.
  \<^item> Node_History, Node_Messages, Node_Replies: what requests and responses a node has sent and received, as
    invariants of its state and, where they name what the application did, of its runs (\<open>node_trace\<close>; the locale
    \<open>node_history\<close>, of which \<open>node_invariant\<close> is the case that does not look at the actions). Node_Once counts
    where a response channel can be. Request_Path: the schedules that take a request or a response through a node.
    Node_Network: several nodes, in which a message from a member was sent by that member; its properties relate
    what one application gets to what another one did.
  \<^item> Reservations: over which runs of the loop the node asks for no relay reservation.
  \<^item> Bootstrap_Node: the server crate, with its event loop and shutdown signal.
  \<^item> Unit_Tests: the crate's own unit tests, each proved to pass in the model.
  \<^item> Spec2Isabelle: properties that span components.

  \<^bold>\<open>What the groups of lemmas show.\<close> Invariants over all interleavings (quota, pending map, handles and
  futures, advertised addresses, identifiers); the exact outcome of each command for every sequence
  of events, foreign events interleaved; the command chain asks every command once although it reorders them
  while it runs; a request and its response find each other through client, channel, loop and chain; a
  configured bootstrap peer leads to relay reservations; in the running node no caller is abandoned, no quota is
  exceeded or leaked, queues are bounded, commands run in order, no request is answered twice, and nobody is
  stranded when the loop ends; between nodes, a response is what the other application answered to that very request, a request is one the
  other application made, and a round trip is a schedule of steps that can always be taken; what goes wrong
  (lost responses, a quota that can be escaped, a full channel reported as a closed one, calls that stop when
  events are not taken, a version mismatch of the two crates) as theorems too.

  \<^bold>\<open>Bounds and termination.\<close> No definition uses fuel: \<open>command_chain\<close> terminates because each round advances
  the cursor or shortens the list, \<open>open_future_poll\<close> because a future is initial at most once, everything else
  by structural recursion. \<open>run\<close> itself does not end by design; it is a list of turns. Counters are 64-bit
  words; identifiers collide after 2^64 draws, which the statements say.

  \<^bold>\<open>Not modelled.\<close> Logging; the transports, protocols and codecs of the library; serialisation of events;
  argument parsing; the integration tests; the memory of a pending map whose clients are gone (its background
  task keeps it alive). In the running node, what the
  loop does with one branch of \<open>select!\<close> is one step: the code between two awaits of it touches state shared
  with client tasks only through handles and the registry, whose operations are atomic under their locks. The
  one await inside it, sending an event to a full channel, comes last and is the state \<open>loop_stalled\<close>. The
  fairness of the executor and of \<open>select!\<close> is not assumed; progress is stated as runs that exist, with their
  length. A request with a timeout of its own is one poll in Client; in the running node its timer may elapse at any
  time after a poll that stayed pending (\<open>TimeoutCall\<close>), whatever the duration, and \<open>call_outcome\<close> is then the timeout
  error.
\<close>

section \<open>Properties that span components\<close>

text \<open>
  A request is answered end to end. The client's request, once the event loop runs it, is sent to the
  peer; when the response with the identifier the network gave it arrives, the future of this
  call, and of no other, is ready with that response, and is woken if it was waiting; the command is gone
  from the loop and the application sees no event. Needed are a handle that is not shared and an
  identifier no other active request waits for.
\<close>

theorem request_answered_end_to_end:
  assumes "distinct (map task_handle (el_active_commands el))" and "a \<notin> task_handle ` set (el_active_commands el)"
    and "q = send_request_query env (el_swarm el) p r" and "nobody_waits_for q (el_active_commands el)"
    and "el' = handle_swarm_event env t (response_event p q resp) (handle_command env (request_task p r a) el)"
  shows "el_swarm el' = el_swarm el @ [CallSendRequest p r]
       \<and> fst (cf_poll cx out \<lparr>cf_handler = None\<rparr> (el_handles el' a)) = Ready (Inr (OResponse resp))
       \<and> woken (el_handles el' a) =
           woken (el_handles el a) @ (case waker (state (el_handles el a)) of None \<Rightarrow> [] | Some w \<Rightarrow> [w])
       \<and> (\<forall>b. b \<noteq> a \<longrightarrow> el_handles el' b = el_handles el b)
       \<and> a \<notin> task_handle ` set (el_active_commands el')
       \<and> el_events el' = el_events el"
proof -
  let ?c = "\<lparr>sr_peer_id = p, sr_request = None, sr_request_id = Some q\<rparr>"
  let ?t = "sent_task p q a"
  let ?cmds = "el_active_commands el @ [?t]"
  let ?h = "handle_finish (Inr (OResponse resp)) (el_handles el a)"
  have d: "distinct (map task_handle ?cmds)" using assms(1,2) by auto
  have others: "\<forall>u \<in> set ?cmds. u \<noteq> ?t \<longrightarrow> (\<forall>c'. task_handler u = HSendRequest c' \<longrightarrow> sr_request_id c' \<noteq> Some q)"
    using assms(4) by (auto simp: nobody_waits_for_def)
  obtain cmds' where c: "command_chain env 0 ?cmds (Some (response_event p q resp)) (el_handles el) =
        (cmds', None, (el_handles el)(a := ?h))" and sub: "set cmds' \<subseteq> set ?cmds - {?t}"
    using response_delivered [OF d _ _ _ _ others, of ?c p env resp "el_handles el"]
    by (auto simp: response_event_def sent_task_def)
  have el': "el' = el\<lparr>el_swarm := el_swarm el @ [CallSendRequest p r], el_active_commands := cmds',
      el_handles := (el_handles el)(a := ?h)\<rparr>"
    unfolding assms(5) handle_request_command
    using c by (simp add: handle_swarm_event_def assms(3) [symmetric] Let_def)
  have "a \<notin> task_handle ` set cmds'" using sub assms(2) by auto
  with el' show ?thesis by (simp add: cf_poll_def cf_submit_def handle_poll_def)
qed

theorem request_answered_end_to_end_witness:
  "fst (cf_poll (Waker 1) SendOk \<lparr>cf_handler = None\<rparr>
     (el_handles (handle_swarm_event str_env sample_turn (response_event (PeerId 1) (OutboundRequestId 0) ''pong'')
        (handle_command str_env (request_task (PeerId 1) ''ping'' 4) sample_loop)) 4))
   = Ready (Inr (OResponse ''pong''))"
proof -
  have e: "el_active_commands sample_loop = []" "el_swarm sample_loop = []"
    by (simp_all add: sample_loop_def event_loop_new_def)
  have "distinct (map task_handle (el_active_commands sample_loop))"
    "4 \<notin> task_handle ` set (el_active_commands sample_loop)"
    "OutboundRequestId 0 = send_request_query str_env (el_swarm sample_loop) (PeerId 1) ''ping''"
    "nobody_waits_for (OutboundRequestId 0) (el_active_commands sample_loop)"
    by (simp_all add: e nobody_waits_for_def)
  from request_answered_end_to_end [OF this refl, of sample_turn "''pong''" "Waker 1" SendOk] show ?thesis by blast
qed

text \<open>
  C4: a call of \<open>send_request\<close> is answered, in a whole running node. In any reachable state in which the loop takes
  the command of such a call from its channel, the loop sends the request; when, after its next clearing out, the
  response with the identifier the network gave the request arrives, the caller's next poll returns that
  response. Meanwhile no other call and no other handle has changed and the application has seen no event.
  All that is needed of the network is that no other active request has that identifier.
\<close>

theorem request_call_answered:
  assumes "node_reach env nd" and "loop_can_select nd" and "nd_queue nd = t # rest" and "live nd (task_handle t)"
    and "command_of nd (task_handle t) = client_command (SendRequest p r)"
    and "q = send_request_query env (el_swarm (nd_loop nd)) p r"
    and "nobody_waits_for q (el_active_commands (nd_loop nd))"
  shows "\<exists>nd'. node_acts env ([LoopCommand n, LoopRetain, LoopEvent n' (response_event p q resp)] @ one_poll nd (task_handle t) w) nd
         = Some nd'
     \<and> call_result (nd_calls nd' ! task_handle t) = Some (Inr (OResponse resp))
     \<and> el_swarm (nd_loop nd') = el_swarm (nd_loop nd) @ [CallSendRequest p r, Polled (response_event p q resp)]
     \<and> el_events (nd_loop nd') = el_events (nd_loop nd)
     \<and> (\<forall>b. b \<noteq> task_handle t \<longrightarrow> nd_calls nd' ! b = nd_calls nd ! b \<and> nd_handles nd' b = nd_handles nd b)"
proof -
  let ?a = "task_handle t" and ?e = "response_event p q resp"
  obtain nd1 where nd1: "node_act env (LoopCommand n) nd = Some nd1" "awaits_response nd1 ?a p q"
    "el_swarm (nd_loop nd1) = el_swarm (nd_loop nd) @ [CallSendRequest p r]" "nd_calls nd1 = nd_calls nd" "others_kept ?a nd nd1"
    by (rule request_sent [OF assms])
  have p: "one_poll nd1 ?a w = one_poll nd ?a w" by (simp add: one_poll_def nd1(4))
  obtain nd' where nd': "node_acts env ([LoopRetain, LoopEvent n' ?e] @ one_poll nd ?a w) nd1 = Some nd'"
    "call_result (nd_calls nd' ! ?a) = Some (Inr (OResponse resp))"
    "el_swarm (nd_loop nd') = el_swarm (nd_loop nd1) @ [Polled ?e]" "others_kept ?a nd1 nd'"
    unfolding p [symmetric] by (rule response_returned [OF node_step [OF assms(1) nd1(1)] nd1(2)])
  have "node_acts env ([LoopCommand n, LoopRetain, LoopEvent n' ?e] @ one_poll nd ?a w) nd = Some nd'"
    using nd1(1) nd'(1) by (simp del: node_act.simps)
  with nd'(2,3) nd1(3) others_kept_trans [OF nd1(5) nd'(4)] show ?thesis by (intro exI [of _ nd']) (simp add: others_kept_def)
qed

theorem request_call_answered_witness:
  "\<exists>(nd :: (string, string, nat) node) (nd' :: (string, string, nat) node) q.
     node_reach str_env nd \<and> el_swarm (nd_loop nd') = el_swarm (nd_loop nd)
       @ [CallSendRequest (PeerId 1) ''ping'', Polled (response_event (PeerId 1) q ''pong'')]
     \<and> call_result (nd_calls nd' ! 0) = Some (Inr (OResponse ''pong''))"
proof -
  let ?m = "SendRequest (PeerId 1) ''ping'' :: (string, string) client_call"
  obtain nd0 where nd0: "node_reach str_env nd0" "untouched ?m 1 nd0" using untouched_reach [of 1 ?m] by auto
  let ?nd = "nd0\<lparr>nd_loop := retain_active (nd_loop nd0), nd_selecting := True\<rparr>"
  have r: "node_reach str_env ?nd"
    by (rule node_step [OF nd0(1), of LoopRetain])
       (use nd0(2) in \<open>simp add: untouched_def loop_stalled_def events_waiting_def\<close>)
  have sel: "loop_can_select ?nd" "el_active_commands (nd_loop ?nd) = []"
    using nd0(2) by (simp_all add: untouched_def loop_can_select_def loop_stalled_def events_waiting_def retain_active_def)
  obtain t where t: "nd_queue ?nd = [t]" using nd0(2) by (auto simp: untouched_def length_Suc_conv)
  have a: "task_handle t = 0" using untouched_queue [OF nd0] t by simp
  have l: "live ?nd (task_handle t)" "command_of ?nd (task_handle t) = client_command ?m"
    using nd0(2) a by (simp_all add: untouched_def live_def)
  have w: "nobody_waits_for q (el_active_commands (nd_loop ?nd))" for q
    unfolding nobody_waits_for_def sel(2) by simp
  from request_call_answered [OF r sel(1) t l refl w, of 0 0 "''pong''" "Waker 0"] r show ?thesis
    unfolding a by blast
qed

section \<open>From bootstrap configuration to relay reservation\<close>

definition identifies_as :: "peer_id \<Rightarrow> string \<Rightarrow> turn \<times> ('req, 'resp, 'stats) loop_input \<Rightarrow> bool" where
  "identifies_as p v x \<longleftrightarrow> (\<exists>info. snd x = SwarmEvent (identified p info) \<and> info_protocol_version info = v)"

definition remembers :: "peer_id \<Rightarrow> multiaddr list \<Rightarrow> ('req, 'resp, 'stats) event_loop \<Rightarrow> bool" where
  "remembers p as el \<longleftrightarrow> (\<exists>more. el_bootstrap_peers el p = Some (as @ more))"

lemma handle_command_remembers:
  assumes "remembers p as el"
  shows "remembers p as (handle_command env cmd el)"
proof -
  have "el_bootstrap_peers (handle_command env cmd el) \<in>
      {el_bootstrap_peers el} \<union> (\<Union>q as. {entry_extend q as (el_bootstrap_peers el)})"
    by (auto simp: handle_command_def Let_def case_prod_beta request_relay_reservations_eq split: option.split)
  with assms show ?thesis by (auto simp: remembers_def entry_extend_def)
qed

lemma announce_bootstrap_peers [simp]:
  "el_bootstrap_peers (maybe_announce_lan_helper_addr env t a el) = el_bootstrap_peers el"
  "el_protocol_version (maybe_announce_lan_helper_addr env t a el) = el_protocol_version el"
  by (simp_all add: maybe_announce_lan_helper_addr_def try_send_event_def Let_def split: option.split)

lemma convert_version:
  assumes "convert_to_node_event env t e el = (v, el')"
  shows "el_protocol_version el' = el_protocol_version el"
  using assms
  by (auto simp: convert_to_node_event_def handle_inbound_request_def next_pending_id_def case_prod_beta Let_def
      handle_identified_eq
      split: swarm_event.splits core_behaviour_event.splits relay_client_event.splits req_resp_event.splits
        message.splits sum.splits mdns_event.splits identify_event.splits kad_event.splits if_splits)

lemma convert_bootstrap_peers:
  assumes "convert_to_node_event env t e el = (v, el')"
    and "\<And>info. e = identified p info \<Longrightarrow> info_protocol_version info \<noteq> el_protocol_version el"
  shows "el_bootstrap_peers el' p = el_bootstrap_peers el p"
  using assms
  by (auto simp: convert_to_node_event_def handle_inbound_request_def next_pending_id_def case_prod_beta Let_def
      handle_identified_eq identified_def
      split: swarm_event.splits core_behaviour_event.splits relay_client_event.splits req_resp_event.splits
        message.splits sum.splits mdns_event.splits identify_event.splits kad_event.splits if_splits)

lemma handle_swarm_event_version [simp]:
  "el_protocol_version (handle_swarm_event env t e el) = el_protocol_version el"
proof (cases "consumable e")
  case False
  obtain v el1 where c: "convert_to_node_event env t e (after_chain env e el) = (v, el1)" by fastforce
  with convert_version [OF c] False show ?thesis
    by (simp add: handle_swarm_event_passed send_event_def split: option.split)
qed (simp add: handle_swarm_event_consumable)

lemma handle_command_version [simp]:
  "el_protocol_version (handle_command env cmd el) = el_protocol_version el"
  by (auto simp: handle_command_def Let_def case_prod_beta request_relay_reservations_eq split: option.split)

lemma loop_turn_version:
  assumes "loop_turn env t inp el = Some el'"
  shows "el_protocol_version el' = el_protocol_version el"
  using assms
  by (cases inp) (auto simp: loop_turn_eq Let_def retain_active_def loop_inbound_channel_def case_prod_beta)

lemma loop_run_version:
  "loop_run env xs el = Some el' \<Longrightarrow> el_protocol_version el' = el_protocol_version el"
  by (induction xs arbitrary: el) (auto dest: loop_turn_version split: option.splits)

lemma loop_turn_remembers:
  assumes "remembers p as el" and "loop_turn env t inp el = Some el'"
    and "\<not> identifies_as p (el_protocol_version el) (t, inp)"
  shows "remembers p as el'"
proof (cases inp)
  case (CommandReceived cmd)
  have "remembers p as (retain_active el)" using assms(1) by (simp add: remembers_def retain_active_def)
  with CommandReceived assms(2) handle_command_remembers show ?thesis by (auto simp: loop_turn_eq Let_def)
next
  case (SwarmEvent e)
  let ?el = "(retain_active el)\<lparr>el_swarm := el_swarm el @ [Polled e]\<rparr>"
  obtain v el1 where c: "convert_to_node_event env t e (after_chain env e ?el) = (v, el1)" by fastforce
  have n: "info_protocol_version info \<noteq> el_protocol_version (after_chain env e ?el)" if "e = identified p info" for info
    using assms(3) SwarmEvent that by (simp add: identifies_as_def retain_active_def)
  have "el' = (if consumable e then handle_swarm_event env t e ?el
      else case v of None \<Rightarrow> el1 | Some evt \<Rightarrow> send_event (receiver_alive t) evt el1)"
    using assms(2) SwarmEvent handle_swarm_event_passed [of e env t ?el] c
    by (simp add: loop_turn_eq Let_def retain_active_def)
  with convert_bootstrap_peers [OF c n] assms(1) show ?thesis
    by (auto simp: remembers_def retain_active_def send_event_def handle_swarm_event_consumable split: option.split)
next
  case (InboundStream q p' s slot)
  with assms(1,2) show ?thesis
    by (auto simp: loop_turn_eq Let_def remembers_def retain_active_def loop_inbound_channel_def case_prod_beta)
qed (use assms(2) in \<open>simp add: loop_turn_eq Let_def\<close>)

lemma loop_run_remembers:
  assumes "loop_run env xs el = Some el'" and "remembers p as el"
    and "\<forall>x \<in> set xs. \<not> identifies_as p (el_protocol_version el) x"
  shows "remembers p as el'"
  using assms
proof (induction xs arbitrary: el)
  case (Cons x xs)
  obtain t inp where x: "x = (t, inp)" by (cases x)
  obtain el1 where s: "loop_turn env t inp el = Some el1" and r: "loop_run env xs el1 = Some el'"
    using Cons.prems(1) x by (auto split: option.splits)
  have "remembers p as el1" using loop_turn_remembers [OF Cons.prems(2) s] Cons.prems(3) x by simp
  with Cons.IH [OF r] Cons.prems(3) loop_turn_version [OF s] show ?case by auto
qed simp

text \<open>What a started loop remembers.\<close>

lemma node_start_loop:
  assumes "node_start env None mdns_ok valid_protocol accept c cfg = Some (Inr s)"
  shows "el_protocol_version (started_loop s) = protocol_version cfg"
    and "enable_relay_client cfg \<Longrightarrow> p \<in> fst ` set (bootstrap_peers cfg) \<Longrightarrow>
         remembers p (map snd (filter (\<lambda>x. fst x = p) (bootstrap_peers cfg))) (started_loop s)"
proof -
  let ?el0 = "event_loop_new [] (pm_new (req_resp_timeout cfg)) (protocol_version cfg) (data_channel_limits cfg)
     \<lparr>registry = registry_inner_default, id_counter = c\<rparr> (enable_relay_client cfg) (infrastructure_mode cfg)
     :: ('a, 'b, 'c) event_loop"
  obtain b where b: "core_behaviour_new mdns_ok valid_protocol cfg = Some b"
    using assms by (auto simp: node_start_def split: option.splits)
  obtain u el1 where l: "start_listen env (listen_addrs cfg) ?el0 = (Inr u, el1)"
    using assms b by (auto simp: node_start_def Let_def split: prod.splits sum.splits)
  have s: "started_loop s = (if bootstrap_peers cfg = [] then el1 else connect_bootstrap_peers env (bootstrap_peers cfg) el1)"
    using assms b l by (auto simp: node_start_def Let_def)
  show "el_protocol_version (started_loop s) = protocol_version cfg"
    using start_listen_ok [OF l] by (simp add: s event_loop_new_def connect_bootstrap_eq)
  show "remembers p (map snd (filter (\<lambda>x. fst x = p) (bootstrap_peers cfg))) (started_loop s)"
    if "enable_relay_client cfg" "p \<in> fst ` set (bootstrap_peers cfg)"
    using that start_listen_ok [OF l]
    by (auto simp: s event_loop_new_def connect_bootstrap_remembers remembers_def)
qed

text \<open>
  C20: a configured bootstrap peer becomes a relay. After a start with the relay client on, whatever
  commands, events and streams the loop handles in the meantime, unless the peer has already identified
  itself with the node's protocol version, its identification with that version registers it and
  requests a reservation at each of its configured addresses, in order, perhaps followed by addresses
  that commands have added; afterwards none is remembered.
\<close>

theorem bootstrap_peer_gets_reservation:
  assumes "node_start env None mdns_ok valid_protocol accept c cfg = Some (Inr s)"
    and "enable_relay_client cfg" and "p \<in> fst ` set (bootstrap_peers cfg)"
    and "loop_run env xs (started_loop s) = Some el"
    and "\<forall>x \<in> set xs. \<not> identifies_as p (protocol_version cfg) x"
    and "info_protocol_version info = protocol_version cfg"
  shows "\<exists>el' more. loop_turn env t (SwarmEvent (identified p info)) el = Some el'
     \<and> el_swarm el' = el_swarm el @ [Polled (identified p info)]
         @ concat (map (\<lambda>a. [CallKadAddAddress p a, CallAddPeerAddress p a]) (info_listen_addrs info))
         @ map (\<lambda>a. CallListenOn (relay_listen_addr p a))
             (map snd (filter (\<lambda>x. fst x = p) (bootstrap_peers cfg)) @ more)
     \<and> el_bootstrap_peers el' p = None"
proof -
  let ?el = "(retain_active el)\<lparr>el_swarm := el_swarm el @ [Polled (identified p info)]\<rparr>"
  note v = node_start_loop(1) [OF assms(1)]
  obtain more where m: "el_bootstrap_peers el p = Some (map snd (filter (\<lambda>x. fst x = p) (bootstrap_peers cfg)) @ more)"
    using loop_run_remembers [OF assms(4) node_start_loop(2) [OF assms(1-3)]] assms(5) v
    unfolding remembers_def by auto
  have "info_protocol_version info = el_protocol_version ?el"
    using loop_run_version [OF assms(4)] v assms(6) by (simp add: retain_active_def)
  with identified_effect [of env t p info ?el] m show ?thesis
    by (intro exI [of _ "handle_swarm_event env t (identified p info) ?el"] exI [of _ more])
       (simp add: loop_turn_eq Let_def retain_active_def)
qed

definition sample_info :: identify_info where
  "sample_info = \<lparr>info_protocol_version = ''/app/1'', info_agent_version = ''relay'',
     info_listen_addrs = [], info_protocols = []\<rparr>"

theorem bootstrap_peer_gets_reservation_witness:
  "\<exists>s el el' more. node_start str_env None True (\<lambda>p. True) (\<lambda>done q. True) 0 sample_config = Some (Inr s)
     \<and> loop_run str_env [(sample_turn, SwarmEvent (ConnectionEstablished (PeerId 9) 1))] (started_loop s) = Some el
     \<and> loop_turn str_env sample_turn (SwarmEvent (identified (PeerId 9) sample_info)) el = Some el'
     \<and> el_swarm el' = el_swarm el @ [Polled (identified (PeerId 9) sample_info),
         CallListenOn [Ip4 7, P2p (PeerId 9), P2pCircuit], CallListenOn [Ip4 8, P2p (PeerId 9), P2pCircuit]]
         @ map (\<lambda>a. CallListenOn (relay_listen_addr (PeerId 9) a)) more"
proof -
  let ?xs = "[(sample_turn, SwarmEvent (ConnectionEstablished (PeerId 9) 1))]"
  have c: "bootstrap_peers sample_config = [(PeerId 9, [Ip4 7]), (PeerId 9, [Ip4 8])]" "enable_relay_client sample_config"
    "protocol_version sample_config = ''/app/1''"
    by (simp_all add: sample_config_def config_build_def node_config_new_def node_config_default_def)
  obtain s where s: "node_start str_env None True (\<lambda>p. True) (\<lambda>done q. True) 0 sample_config = Some (Inr s)"
    by (auto simp: node_start_def core_behaviour_new_def c swarm_listen_on_def Let_def sample_config_def
        config_build_def node_config_new_def node_config_default_def)
  obtain el where el: "loop_run str_env ?xs (started_loop s) = Some el" by (simp add: loop_turn_eq Let_def)
  have i: "\<forall>x \<in> set ?xs. \<not> identifies_as (PeerId 9) (protocol_version sample_config) x"
    by (simp add: identifies_as_def identified_def)
  have n: "info_protocol_version sample_info = protocol_version sample_config" "info_listen_addrs sample_info = []"
    by (simp_all add: sample_info_def c)
  have m: "PeerId 9 \<in> fst ` set (bootstrap_peers sample_config)" by (simp add: c)
  have a: "relay_listen_addr (PeerId 9) [Ip4 7] = [Ip4 7, P2p (PeerId 9), P2pCircuit]"
    "relay_listen_addr (PeerId 9) [Ip4 8] = [Ip4 8, P2p (PeerId 9), P2pCircuit]"
    by (simp_all add: relay_listen_addr_def addr_with_def)
  obtain el' more where "loop_turn str_env sample_turn (SwarmEvent (identified (PeerId 9) sample_info)) el = Some el'"
    and "el_swarm el' = el_swarm el @ [Polled (identified (PeerId 9) sample_info)]
      @ map (\<lambda>a. CallListenOn (relay_listen_addr (PeerId 9) a)) ([[Ip4 7], [Ip4 8]] @ more)"
    using bootstrap_peer_gets_reservation [OF s c(2) m el i n(1), of sample_turn] by (auto simp: n(2) c(1))
  with s el show ?thesis
    by (intro exI [of _ s] exI [of _ el] exI [of _ el'] exI [of _ more]) (simp add: a)
qed

section \<open>The two crates together\<close>

text \<open>
  The bootstrap peers are servers of this repository: each of them identifies itself with the protocol version that is
  built into the server, whatever its relay limits.
\<close>

definition are_bootstrap_servers :: "relay_limits \<Rightarrow> peer_id set \<Rightarrow> (turn \<times> ('req, 'resp, 'stats) loop_input) list \<Rightarrow> bool" where
  "are_bootstrap_servers limits ps xs \<longleftrightarrow>
     (\<forall>x \<in> set xs. \<forall>p info. snd x = SwarmEvent (identified p info) \<longrightarrow> p \<in> ps \<longrightarrow>
        info_protocol_version info = bb_protocol_version (bootstrap_behaviour_new limits))"

lemma versions_differ:
  "protocol_version (config_with (WithBootstrapPeers bs) node_config_default) \<noteq>
   bb_protocol_version (bootstrap_behaviour_new limits)"
  by (simp add: node_config_default_def bootstrap_behaviour_new_def)

lemma loop_run_listens:
  assumes "loop_run env xs el = Some el'" and "only_listens ls ps el" and "\<forall>x \<in> set xs. \<not> adds_infrastructure x"
    and "are_bootstrap_servers limits ps xs" and "el_protocol_version el \<noteq> bb_protocol_version (bootstrap_behaviour_new limits)"
  shows "only_listens ls ps el'"
  using assms
proof (induction xs arbitrary: el)
  case (Cons x xs)
  obtain t inp where x: "x = (t, inp)" by (cases x)
  obtain el1 where s: "loop_turn env t inp el = Some el1" and r: "loop_run env xs el1 = Some el'"
    using Cons.prems(1) x by (auto split: option.splits)
  have "only_listens ls ps el1"
    by (rule loop_turn_listens [OF Cons.prems(2) s]) (use Cons.prems(3-5) x in \<open>auto simp: are_bootstrap_servers_def\<close>)
  moreover have "are_bootstrap_servers limits ps xs" using Cons.prems(4) by (simp add: are_bootstrap_servers_def)
  ultimately show ?case using Cons.IH [OF r] Cons.prems(3,5) loop_turn_version [OF s] by simp
qed simp

text \<open>
  C39: a client with the default configuration never gets a relay reservation from a bootstrap server of this
  repository. The node does use such servers as peers: at its start it puts every configured one into the routing
  table and the address book and dials it. But the protocol versions built into the two crates differ. So, over any run of
  the loop in which the application adds no infrastructure peer of its own, whatever else happens and whatever other
  peers do, nothing the loop tells the swarm after the start is to listen anywhere, at a relay or elsewhere; the
  configured addresses of every server are still remembered at the end, waiting for an identification that does
  not come; and an identification by a server makes no call to the swarm at all, so its own listen addresses are not
  taken over either.
\<close>

theorem default_client_gets_no_reservation:
  assumes "cfg = config_with (WithBootstrapPeers bs) node_config_default"
    and "node_start env None mdns_ok valid_protocol accept c cfg = Some (Inr s)"
    and "loop_run env xs (started_loop s) = Some el"
    and "\<forall>x \<in> set xs. \<not> adds_infrastructure x"
    and "are_bootstrap_servers limits (fst ` set bs) xs"
  shows "(\<exists>calls. el_swarm el = map CallListenOn (listen_addrs cfg) @ bootstrap_calls bs @ calls \<and> listen_calls calls = [])
     \<and> (\<forall>p \<in> fst ` set bs. remembers p (map snd (filter (\<lambda>x. fst x = p) bs)) el)
     \<and> (\<forall>t p info. info_protocol_version info = bb_protocol_version (bootstrap_behaviour_new limits) \<longrightarrow>
          el_swarm (handle_swarm_event env t (identified p info) el) = el_swarm el
        \<and> el_bootstrap_peers (handle_swarm_event env t (identified p info) el) = el_bootstrap_peers el)"
proof -
  let ?v = "bb_protocol_version (bootstrap_behaviour_new limits)"
  have cfg: "bootstrap_peers cfg = bs" "enable_relay_client cfg" by (simp_all add: assms(1) node_config_default_def)
  have v: "el_protocol_version (started_loop s) \<noteq> ?v"
    unfolding node_start_loop(1) [OF assms(2)] assms(1) by (rule versions_differ)
  have st: "el_swarm (started_loop s) = map CallListenOn (listen_addrs cfg) @ bootstrap_calls bs"
    "el_bootstrap_peers (started_loop s) q \<noteq> None \<Longrightarrow> q \<in> fst ` set bs" for q
    using start_listens_then_bootstraps [OF assms(2)] unfolding cfg by (auto split: if_splits)
  then have "only_listens (listen_addrs cfg) (fst ` set bs) (started_loop s)" by (auto simp: only_listens_def)
  from loop_run_listens [OF assms(3) this assms(4,5) v]
  have l: "listen_calls (el_swarm el) = listen_addrs cfg" by (simp add: only_listens_def)
  obtain calls where e: "el_swarm el = map CallListenOn (listen_addrs cfg) @ bootstrap_calls bs @ calls"
    using loop_run_extends [OF assms(3)] st(1) by auto
  with l have "listen_calls calls = []" by simp
  moreover have "remembers p (map snd (filter (\<lambda>x. fst x = p) bs)) el" if "p \<in> fst ` set bs" for p
  proof (rule loop_run_remembers [OF assms(3)])
    show "remembers p (map snd (filter (\<lambda>x. fst x = p) bs)) (started_loop s)"
      using node_start_loop(2) [OF assms(2) cfg(2)] that unfolding cfg(1) by blast
    show "\<forall>x \<in> set xs. \<not> identifies_as p (el_protocol_version (started_loop s)) x"
      using assms(5) v that unfolding are_bootstrap_servers_def identifies_as_def by metis
  qed
  moreover have "el_swarm (handle_swarm_event env t (identified p info) el) = el_swarm el
      \<and> el_bootstrap_peers (handle_swarm_event env t (identified p info) el) = el_bootstrap_peers el"
    if "info_protocol_version info = ?v" for t p info
    using identified_effect [of env t p info el] loop_run_version [OF assms(3)] v that by simp
  ultimately show ?thesis using e by blast
qed

text \<open>A run in which the dialled server connects and identifies itself.\<close>

definition sample_server_run :: "(turn \<times> (string, string, nat) loop_input) list" where
  "sample_server_run =
     [(sample_turn, SwarmEvent (ConnectionEstablished (PeerId 9) 1)),
      (sample_turn, SwarmEvent (identified (PeerId 9)
         (sample_info\<lparr>info_protocol_version := ''/swarmdrop/1.0.0'', info_listen_addrs := [[Ip4 7]]\<rparr>)))]"

theorem default_client_gets_no_reservation_witness:
  "\<exists>s el calls. node_start str_env None True (\<lambda>p. True) (\<lambda>done q. True) 0
         (config_with (WithBootstrapPeers [(PeerId 9, [Ip4 7])]) node_config_default) = Some (Inr s)
     \<and> loop_run str_env sample_server_run (started_loop s) = Some el
     \<and> el_swarm el = map CallListenOn (listen_addrs node_config_default)
         @ [CallKadAddAddress (PeerId 9) [Ip4 7], CallAddPeerAddress (PeerId 9) [Ip4 7], CallDial (PeerId 9)] @ calls
     \<and> listen_calls calls = [] \<and> remembers (PeerId 9) [[Ip4 7]] el"
proof -
  let ?cfg = "config_with (WithBootstrapPeers [(PeerId 9, [Ip4 7])]) node_config_default"
  obtain s where s: "node_start str_env None True (\<lambda>p. True) (\<lambda>done q. True) 0 ?cfg = Some (Inr s)"
    by (auto simp: node_start_def core_behaviour_new_def swarm_listen_on_def Let_def node_config_default_def)
  obtain el where el: "loop_run str_env sample_server_run (started_loop s) = Some el"
    by (simp add: sample_server_run_def loop_turn_eq Let_def)
  have n: "\<forall>x \<in> set sample_server_run. \<not> adds_infrastructure x"
    by (simp add: sample_server_run_def adds_infrastructure_def)
  have b: "are_bootstrap_servers server_limits_default (fst ` set [(PeerId 9, [Ip4 7])]) sample_server_run"
    by (auto simp: are_bootstrap_servers_def sample_server_run_def identified_def bootstrap_behaviour_new_def)
  from default_client_gets_no_reservation [OF refl s el n b] s el show ?thesis
    by (auto simp: bootstrap_calls_def)
qed

end
